(* ===== verification/Prelude.thy ===== *)
theory Prelude
  imports Main "HOL-Library.Word"
begin

text \<open>
  Shared vocabulary of the development: the machine integers and byte strings of the
  Rust sources, checked and saturating arithmetic, big-endian encodings, slices of byte
  buffers, and the outcome type of the state-changing operations.

  Fixed-size byte arrays are words: \<open>[u8; 32]\<close> is a 256-bit word and \<open>[u8; 20]\<close> a
  160-bit word, read big-endian.  The derived \<open>Ord\<close> of a Rust array is the
  lexicographic order of its bytes, which for a fixed width is the numeric order of the
  big-endian word (\<open>be_bytes_less_iff\<close>), so ordered containers keyed by arrays iterate in
  the order of the words.  Arithmetic on words wraps, which is the semantics of the release
  profile of the workspace's Cargo manifest (it does not set overflow checks).
\<close>

section \<open>Machine integers and byte strings\<close>

type_synonym byte = "8 word"
type_synonym bytes = "byte list"
type_synonym u8 = "8 word"
type_synonym u32 = "32 word"
type_synonym u64 = "64 word"
type_synonym u128 = "128 word"
type_synonym hash32 = "256 word"
type_synonym address = "160 word"

text \<open>\<open>blake3\<close> is a third-party crate: every definition that hashes takes the hash function as
  an argument of this type.\<close>

type_synonym hasher = "bytes \<Rightarrow> hash32"

named_theorems codec_simps \<open>lengths and slices of big-endian encodings\<close>
named_theorems outcome_simps \<open>sequencing of outcomes\<close>

definition checked_add :: "'a::len word \<Rightarrow> 'a word \<Rightarrow> 'a word option" where
  "checked_add a b = (if uint a + uint b < 2 ^ LENGTH('a) then Some (a + b) else None)"

definition checked_sub :: "'a::len word \<Rightarrow> 'a word \<Rightarrow> 'a word option" where
  "checked_sub a b = (if b \<le> a then Some (a - b) else None)"

definition checked_mul :: "'a::len word \<Rightarrow> 'a word \<Rightarrow> 'a word option" where
  "checked_mul a b = (if uint a * uint b < 2 ^ LENGTH('a) then Some (a * b) else None)"

definition saturating_add :: "'a::len word \<Rightarrow> 'a word \<Rightarrow> 'a word" where
  "saturating_add a b = (if uint a + uint b < 2 ^ LENGTH('a) then a + b else - 1)"

definition saturating_sub :: "'a::len word \<Rightarrow> 'a word \<Rightarrow> 'a word" where
  "saturating_sub a b = (if b \<le> a then a - b else 0)"

definition saturating_mul :: "'a::len word \<Rightarrow> 'a word \<Rightarrow> 'a word" where
  "saturating_mul a b = (if uint a * uint b < 2 ^ LENGTH('a) then a * b else - 1)"

text \<open>\<open>u64::try_from(x : u128)\<close>: fails when the value does not fit.\<close>

definition u64_try_from :: "u128 \<Rightarrow> u64 option" where
  "u64_try_from x = (if uint x < 2 ^ 64 then Some (ucast x) else None)"

definition string_bytes :: "string \<Rightarrow> bytes" where
  "string_bytes s = map (\<lambda>c. word_of_nat (of_char c)) s"

section \<open>Big-endian encodings\<close>

text \<open>\<open>be_bytes n w\<close> is \<open>w.to_be_bytes()\<close> of an \<open>n\<close>-byte integer; \<open>of_be\<close> is
  \<open>from_be_bytes\<close>.\<close>

fun be_bytes :: "nat \<Rightarrow> 'a::len word \<Rightarrow> bytes" where
  "be_bytes 0 w = []"
| "be_bytes (Suc n) w = be_bytes n (drop_bit 8 w) @ [ucast w]"

text \<open>The value of a byte string as a natural number, the reference for both.\<close>

definition be_val :: "bytes \<Rightarrow> nat" where
  "be_val bs = foldl (\<lambda>a b. a * 256 + unat b) 0 bs"

definition of_be :: "bytes \<Rightarrow> 'a::len word" where
  "of_be bs = foldl (\<lambda>a b. a * 256 + ucast b) 0 bs"

definition slice :: "bytes \<Rightarrow> nat \<Rightarrow> nat \<Rightarrow> bytes" where
  "slice bs cursor n = take n (drop cursor bs)"

text \<open>\<open>x.len() as u32\<close>, the count and length fields of every encoder.\<close>

definition len_u32 :: "'a list \<Rightarrow> u32" where
  "len_u32 xs = word_of_nat (length xs)"

section \<open>Outcomes of state-changing operations\<close>

text \<open>
  A Rust method \<open>fn f(&mut self, ..) -> Result<(), E>\<close> that fails leaves the state as it is
  at the point of the early return.  The outcome therefore carries the state on both
  branches, so that a partial update before an error is visible in the model.
\<close>

datatype ('e, 's) outcome = Ok (out_state: 's) | Err (out_error: 'e) (out_state: 's)

text \<open>\<open>and_then m k\<close> is \<open>m?; k\<close>; \<open>try_value r s k\<close> is \<open>let a = r?; k a\<close> for a pure result.\<close>

fun and_then :: "('e, 's) outcome \<Rightarrow> ('s \<Rightarrow> ('e, 's) outcome) \<Rightarrow> ('e, 's) outcome" where
  "and_then (Ok s) k = k s"
| "and_then (Err e s) k = Err e s"

fun try_value :: "'e + 'a \<Rightarrow> 's \<Rightarrow> ('a \<Rightarrow> ('e, 's) outcome) \<Rightarrow> ('e, 's) outcome" where
  "try_value (Inl e) s k = Err e s"
| "try_value (Inr a) s k = k a"

fun ok_or :: "'e \<Rightarrow> 'a option \<Rightarrow> 'e + 'a" where
  "ok_or e None = Inl e"
| "ok_or e (Some a) = Inr a"

fun unwrap_or :: "'a \<Rightarrow> 'a option \<Rightarrow> 'a" where
  "unwrap_or d None = d"
| "unwrap_or d (Some a) = a"

fun result_or :: "'a \<Rightarrow> 'e + 'a \<Rightarrow> 'a" where
  "result_or d (Inl e) = d"
| "result_or d (Inr a) = a"

fun res_bind :: "'e + 'a \<Rightarrow> ('a \<Rightarrow> 'e + 'b) \<Rightarrow> 'e + 'b" where
  "res_bind (Inl e) k = Inl e"
| "res_bind (Inr a) k = k a"

section \<open>Lemmas on machine integers\<close>

lemma uint_unat_less_power: "uint a + uint b < 2 ^ n \<longleftrightarrow> unat a + unat b < 2 ^ n"
  using of_nat_less_iff [of "unat a + unat b" "2 ^ n", where ?'a = int] by simp

lemma checked_add_eq:
  "checked_add a b = (if unat a + unat b < 2 ^ LENGTH('a) then Some (a + b) else None)"
  for a b :: "'a::len word"
  by (simp add: checked_add_def uint_unat_less_power)

lemma saturating_add_eq:
  "saturating_add a b = (if unat a + unat b < 2 ^ LENGTH('a) then a + b else - 1)"
  for a b :: "'a::len word"
  by (simp add: saturating_add_def uint_unat_less_power)

lemma checked_sub_SomeD: "checked_sub a b = Some c \<Longrightarrow> unat b \<le> unat a \<and> unat c = unat a - unat b"
  by (auto simp: checked_sub_def unat_sub word_le_nat_alt split: if_splits)

lemma checked_mul_SomeD:
  assumes "checked_mul a b = Some c"
  shows "unat c = unat a * unat (b :: 'a::len word)"
proof -
  have "uint a * uint b < 2 ^ LENGTH('a)" and c: "c = a * b"
    using assms by (auto simp: checked_mul_def split: if_splits)
  then have "unat a * unat b < 2 ^ LENGTH('a)"
    using of_nat_less_iff [of "unat a * unat b" "2 ^ LENGTH('a)", where ?'a = int] by simp
  then show ?thesis
    by (simp add: c unat_word_ariths)
qed

lemma unat_saturating_sub: "unat (saturating_sub a b) = unat a - unat b"
  by (simp add: saturating_sub_def unat_sub word_le_nat_alt)

lemma saturating_mul_eq:
  "saturating_mul a b = (if unat a * unat b < 2 ^ LENGTH('a) then a * b else - 1)"
  for a b :: "'a::len word"
proof -
  have "uint a * uint b < 2 ^ LENGTH('a) \<longleftrightarrow> unat a * unat b < 2 ^ LENGTH('a)"
    using of_nat_less_iff [of "unat a * unat b" "2 ^ LENGTH('a)", where ?'a = int] by simp
  then show ?thesis
    by (simp add: saturating_mul_def)
qed

lemma u64_try_from_eq: "u64_try_from x = (if unat x < 2 ^ 64 then Some (ucast x) else None)"
proof -
  have "uint x < 2 ^ 64 \<longleftrightarrow> unat x < 2 ^ 64"
    using of_nat_less_iff [of "unat x" "2 ^ 64", where ?'a = int] by simp
  then show ?thesis
    by (simp add: u64_try_from_def)
qed

lemma checked_add_Some_iff:
  "checked_add a b = Some c \<longleftrightarrow> unat a + unat b < 2 ^ LENGTH('a) \<and> c = (a::'a::len word) + b"
  by (auto simp: checked_add_eq)

lemma unat_plus_no_overflow:
  "unat a + unat b < 2 ^ LENGTH('a) \<Longrightarrow> unat ((a::'a::len word) + b) = unat a + unat b"
  by (simp add: unat_word_ariths)

lemma checked_add_SomeD:
  "checked_add a b = Some c \<Longrightarrow> unat c = unat a + unat (b::'a::len word)"
  by (auto simp: checked_add_Some_iff unat_plus_no_overflow)

lemma checked_add_None_iff:
  "checked_add a b = None \<longleftrightarrow> 2 ^ LENGTH('a) \<le> unat a + unat (b::'a::len word)"
  by (auto simp: checked_add_eq)

lemma unat_minus_le:
  "b \<le> a \<Longrightarrow> unat (a - b) = unat a - unat (b::'a::len word)"
  by (simp add: unat_sub)

lemma u64_try_from_SomeD: "u64_try_from x = Some y \<Longrightarrow> unat y = unat x"
  by (auto simp: u64_try_from_eq unsigned_ucast_eq take_bit_nat_eq_self split: if_splits)

lemma unat_le_iff: "a \<le> b \<longleftrightarrow> unat a \<le> unat (b::'a::len word)"
  by (rule word_le_nat_alt)

lemma unat_less_iff: "a < b \<longleftrightarrow> unat a < unat (b::'a::len word)"
  by (rule word_less_nat_alt)

lemma len_u32_unat: "length xs < 2 ^ 32 \<Longrightarrow> unat (len_u32 xs) = length xs"
  by (simp add: len_u32_def unat_of_nat take_bit_nat_eq_self)

section \<open>Lemmas on encodings\<close>

lemma length_be_bytes [simp, codec_simps]: "length (be_bytes n w) = n"
  by (induction n arbitrary: w) auto

lemma be_val_Nil [simp]: "be_val [] = 0"
  by (simp add: be_val_def)

lemma be_val_snoc [simp]: "be_val (bs @ [b]) = be_val bs * 256 + unat b"
  by (simp add: be_val_def)

lemma be_val_be_bytes: "be_val (be_bytes n w) = unat (w::'a::len word) mod 256 ^ n"
proof (induction n arbitrary: w)
  case (Suc n)
  have low: "unat (ucast w :: byte) = unat w mod 256"
    by (simp add: unsigned_ucast_eq take_bit_eq_mod)
  have high: "unat (drop_bit 8 w) = unat w div 256"
    by (simp only: unat_drop_bit_eq) (simp add: drop_bit_eq_div)
  have "be_val (be_bytes (Suc n) w) = (unat w div 256) mod 256 ^ n * 256 + unat w mod 256"
    by (simp add: Suc low high)
  also have "\<dots> = unat w mod (256 * 256 ^ n)"
    by (simp add: mod_mult2_eq mult.commute)
  finally show ?case by simp
qed simp

lemma of_be_eq_be_val: "of_be bs = word_of_nat (be_val bs)"
  by (induction bs rule: rev_induct) (simp_all add: of_be_def)

lemma be_bytes_numeral:
  "be_bytes (numeral k) w = be_bytes (pred_numeral k) (drop_bit 8 w) @ [ucast w]"
  by (simp add: numeral_eq_Suc)

lemma of_be_be_bytes [simp, codec_simps]:
  assumes "LENGTH('a) \<le> 8 * n"
  shows "of_be (be_bytes n w) = (w::'a::len word)"
proof -
  have "unat w < 2 ^ LENGTH('a)"
    by simp
  also have "(2::nat) ^ LENGTH('a) \<le> 2 ^ (8 * n)"
    using assms by (rule power_increasing) simp
  also have "(2::nat) ^ (8 * n) = 256 ^ n"
    by (simp add: power_mult)
  finally show ?thesis
    by (simp add: of_be_eq_be_val be_val_be_bytes)
qed

lemma be_bytes_inject:
  assumes "LENGTH('a) \<le> 8 * n"
  shows "be_bytes n v = be_bytes n w \<longleftrightarrow> v = (w::'a::len word)"
  using of_be_be_bytes [OF assms] by metis

lemma be_val_Cons: "be_val (b # bs) = unat b * 256 ^ length bs + be_val bs"
  by (induction bs rule: rev_induct)
    (simp_all add: be_val_def algebra_simps flip: append_Cons)

lemma be_val_bound: "be_val bs < 256 ^ length bs"
proof (induction bs)
  case (Cons b bs)
  have "unat b \<le> 255"
    using unsigned_less [of b, where ?'a = nat] by simp
  then have "unat b * 256 ^ length bs \<le> 255 * 256 ^ length bs"
    by simp
  with Cons.IH have "unat b * 256 ^ length bs + be_val bs < 256 * 256 ^ length bs"
    by linarith
  then show ?case
    by (simp add: be_val_Cons)
qed simp

lemma lexord_be_val:
  "length xs = length ys \<Longrightarrow>
    (xs, ys) \<in> lexord {(a, b). a < b} \<longleftrightarrow> be_val xs < be_val ys"
proof (induction xs ys rule: list_induct2)
  case (Cons x xs y ys)
  have bx: "be_val xs < 256 ^ length ys" and byy: "be_val ys < 256 ^ length ys"
    using be_val_bound [of xs] be_val_bound [of ys] Cons.hyps by auto
  have carry: "be_val (u # us) < be_val (v # vs)"
    if "unat u < unat v" "length us = length vs" for u v :: byte and us vs
  proof -
    have "be_val (u # us) < (unat u + 1) * 256 ^ length vs"
      using be_val_bound [of us] that(2) by (simp add: be_val_Cons)
    also have "\<dots> \<le> unat v * 256 ^ length vs"
      using that(1) by (intro mult_right_mono) auto
    finally show ?thesis by (simp add: be_val_Cons)
  qed
  consider "unat x < unat y" | "unat y < unat x" | "x = y"
    by (metis linorder_neqE_nat word_unat_eq_iff)
  then show ?case
  proof cases
    case 1
    with carry [OF 1 Cons.hyps] show ?thesis
      by (simp add: unat_less_iff)
  next
    case 2
    with carry [OF 2 Cons.hyps [symmetric]] show ?thesis
      by (auto simp: unat_less_iff)
  next
    case 3
    with Cons show ?thesis
      by (simp add: be_val_Cons)
  qed
qed simp

lemma be_bytes_less_iff:
  assumes "LENGTH('a) \<le> 8 * n"
  shows "(be_bytes n v, be_bytes n w) \<in> lexord {(a, b). a < b} \<longleftrightarrow> v < (w::'a::len word)"
proof -
  have "unat u mod 256 ^ n = unat u" for u :: "'a word"
  proof -
    have "unat u < 2 ^ LENGTH('a)"
      by simp
    also have "(2::nat) ^ LENGTH('a) \<le> 256 ^ n"
      using power_increasing [OF assms, of "2::nat"] by (simp add: power_mult)
    finally show ?thesis by simp
  qed
  then show ?thesis
    by (simp add: lexord_be_val be_val_be_bytes word_less_nat_alt [of v w])
qed

lemma be_val_inject:
  assumes "length xs = length ys" "be_val xs = be_val ys"
  shows "xs = ys"
proof -
  have "(xs, ys) \<notin> lexord {(a, b). a < b}" "(ys, xs) \<notin> lexord {(a, b). a < b}"
    using assms by (simp_all add: lexord_be_val)
  moreover have "(xs, ys) \<in> lexord {(a, b). a < b} \<or> xs = ys \<or> (ys, xs) \<in> lexord {(a, b). a < b}"
    by (rule lexord_linear) (auto simp: neq_iff)
  ultimately show ?thesis
    by blast
qed

lemma be_bytes_of_be:
  assumes "length bs = n" "LENGTH('a) = 8 * n"
  shows "be_bytes n (of_be bs :: 'a::len word) = bs"
proof (rule be_val_inject)
  have "be_val bs < 256 ^ n"
    using be_val_bound [of bs] assms(1) by simp
  moreover have "(2::nat) ^ LENGTH('a) = 256 ^ n"
    by (simp add: assms(2) power_mult)
  ultimately show "be_val (be_bytes n (of_be bs :: 'a word)) = be_val bs"
    by (simp add: be_val_be_bytes of_be_eq_be_val unsigned_of_nat take_bit_nat_eq_self)
qed (simp add: assms(1))

lemma of_be_inject:
  assumes "length xs = n" "length ys = n" "LENGTH('a) = 8 * n"
  shows "of_be xs = (of_be ys :: 'a::len word) \<longleftrightarrow> xs = ys"
  using be_bytes_of_be [OF assms(1,3)] be_bytes_of_be [OF assms(2,3)] by metis

lemma slice_append [simp, codec_simps]:
  "slice (xs @ ys @ zs) (length xs) (length ys) = ys"
  by (simp add: slice_def)

lemma slice_drop: "slice bs (c + k) n = slice (drop c bs) k n"
  by (simp add: slice_def add.commute)

lemma slice_app1 [codec_simps]: "k + n \<le> length xs \<Longrightarrow> slice (xs @ ys) k n = slice xs k n"
  by (simp add: slice_def)

lemma slice_app2 [codec_simps]: "length xs \<le> k \<Longrightarrow> slice (xs @ ys) k n = slice ys (k - length xs) n"
  by (simp add: slice_def)

lemma slice_all [codec_simps]: "length xs = n \<Longrightarrow> slice xs 0 n = xs"
  by (simp add: slice_def)

lemma length_slice: "length (slice bs c n) = min n (length bs - c)"
  by (simp add: slice_def min.commute)

section \<open>Lemmas on outcomes\<close>

lemma and_then_Ok_iff [outcome_simps]:
  "and_then m k = Ok t \<longleftrightarrow> (\<exists>s. m = Ok s \<and> k s = Ok t)"
  by (cases m) auto

lemma and_then_Err_iff [outcome_simps]:
  "and_then m k = Err e t \<longleftrightarrow> m = Err e t \<or> (\<exists>s. m = Ok s \<and> k s = Err e t)"
  by (cases m) auto

lemma try_value_Ok_iff [outcome_simps]:
  "try_value r s k = Ok t \<longleftrightarrow> (\<exists>a. r = Inr a \<and> k a = Ok t)"
  by (cases r) auto

lemma try_value_Err_iff [outcome_simps]:
  "try_value r s k = Err e t \<longleftrightarrow> r = Inl e \<and> t = s \<or> (\<exists>a. r = Inr a \<and> k a = Err e t)"
  by (cases r) auto

lemma ok_or_Inr_iff [outcome_simps]: "ok_or e x = Inr a \<longleftrightarrow> x = Some a"
  by (cases x) auto

lemma ok_or_Inl_iff [outcome_simps]: "ok_or e x = Inl f \<longleftrightarrow> x = None \<and> f = e"
  by (cases x) auto

lemma res_bind_Inr_iff [outcome_simps]:
  "res_bind r k = Inr b \<longleftrightarrow> (\<exists>a. r = Inr a \<and> k a = Inr b)"
  by (cases r) auto

lemma res_bind_Inl_iff [outcome_simps]:
  "res_bind r k = Inl e \<longleftrightarrow> r = Inl e \<or> (\<exists>a. r = Inr a \<and> k a = Inl e)"
  by (cases r) auto

text \<open>Comparisons of word literals that the default simplification rules leave open.\<close>

lemma word_numeral_le_one [simp]: "(numeral k :: 'a::len word) \<le> 1 \<longleftrightarrow> unat (numeral k :: 'a word) \<le> 1"
  by (simp add: word_le_nat_alt)

end
