(* ===== verification/Ordered_Map.thy ===== *)
theory Ordered_Map
  imports Prelude
begin

text \<open>
  \<open>std::collections::BTreeMap\<close> as the sources use it: a finite map with a total order on
  its keys, whose iteration visits the entries in ascending key order.  The type holds the
  entry list itself, strictly sorted by key, so that equality of maps is equality of the
  entry lists and every operation computes.  \<open>BTreeSet<K>\<close> is the map with unit values, as
  in the standard library.

  The locale \<open>ordered_map\<close> states the contract the components rely on (what a lookup
  returns after an update, what iteration yields); it is interpreted on the operations below,
  and the components' proofs use the facts \<open>bt.*\<close> of that interpretation.
\<close>

section \<open>The type and its operations\<close>

fun upd_entries :: "'k::linorder \<Rightarrow> 'v \<Rightarrow> ('k \<times> 'v) list \<Rightarrow> ('k \<times> 'v) list" where
  "upd_entries k v [] = [(k, v)]"
| "upd_entries k v ((k', v') # xs) =
     (if k < k' then (k, v) # (k', v') # xs
      else if k = k' then (k, v) # xs
      else (k', v') # upd_entries k v xs)"

definition strict_keys :: "('k::linorder \<times> 'v) list \<Rightarrow> bool" where
  "strict_keys xs \<longleftrightarrow> sorted_wrt (<) (map fst xs)"

lemma set_upd_entries: "fst ` set (upd_entries k v xs) = insert k (fst ` set xs)"
  by (induction xs) force+

lemma strict_keys_upd_entries: "strict_keys xs \<Longrightarrow> strict_keys (upd_entries k v xs)"
proof (induction xs)
  case (Cons x xs)
  obtain k' v' where x: "x = (k', v')" by fastforce
  from Cons.prems x have head: "\<forall>j\<in>fst ` set xs. k' < j" and rest: "strict_keys xs"
    by (auto simp: strict_keys_def)
  from Cons.IH [OF rest] head x Cons.prems show ?case
    using set_upd_entries [of k v xs] by (auto simp: strict_keys_def)
qed (simp add: strict_keys_def)

lemma strict_keys_filter: "strict_keys xs \<Longrightarrow> strict_keys (filter P xs)"
  by (induction xs) (auto simp: strict_keys_def)

typedef (overloaded) ('k::linorder, 'v) btmap = "{xs :: ('k \<times> 'v) list. strict_keys xs}"
  morphisms bt_entries BTMap
  by (rule exI [of _ "[]"]) (simp add: strict_keys_def)

setup_lifting type_definition_btmap

type_synonym 'k btset = "('k, unit) btmap"

lift_definition bt_empty :: "('k::linorder, 'v) btmap" is "[]"
  by (simp add: strict_keys_def)

lift_definition bt_insert :: "'k::linorder \<Rightarrow> 'v \<Rightarrow> ('k, 'v) btmap \<Rightarrow> ('k, 'v) btmap"
  is upd_entries
  by (rule strict_keys_upd_entries)

lift_definition bt_remove :: "'k::linorder \<Rightarrow> ('k, 'v) btmap \<Rightarrow> ('k, 'v) btmap"
  is "\<lambda>k xs. filter (\<lambda>p. fst p \<noteq> k) xs"
  by (rule strict_keys_filter)

definition bt_get :: "('k::linorder, 'v) btmap \<Rightarrow> 'k \<Rightarrow> 'v option" where
  "bt_get m k = map_of (bt_entries m) k"

definition bt_contains :: "('k::linorder, 'v) btmap \<Rightarrow> 'k \<Rightarrow> bool" where
  "bt_contains m k = (k \<in> fst ` set (bt_entries m))"

definition bt_len :: "('k::linorder, 'v) btmap \<Rightarrow> nat" where
  "bt_len m = length (bt_entries m)"

definition bt_keys :: "('k::linorder, 'v) btmap \<Rightarrow> 'k list" where
  "bt_keys m = map fst (bt_entries m)"

definition bt_values :: "('k::linorder, 'v) btmap \<Rightarrow> 'v list" where
  "bt_values m = map snd (bt_entries m)"

definition bt_of_list :: "('k::linorder \<times> 'v) list \<Rightarrow> ('k, 'v) btmap" where
  "bt_of_list xs = foldl (\<lambda>m (k, v). bt_insert k v m) bt_empty xs"

definition bt_last_key :: "('k::linorder, 'v) btmap \<Rightarrow> 'k option" where
  "bt_last_key m = (if bt_entries m = [] then None else Some (last (bt_keys m)))"

instantiation btmap :: (linorder, equal) equal
begin

definition equal_btmap :: "('a, 'b) btmap \<Rightarrow> ('a, 'b) btmap \<Rightarrow> bool" where
  "equal_btmap m n \<longleftrightarrow> bt_entries m = bt_entries n"

instance
  by standard (simp add: equal_btmap_def bt_entries_inject)

end

section \<open>The contract\<close>

locale ordered_map =
  fixes empty :: "'m"
    and get :: "'m \<Rightarrow> 'k::linorder \<Rightarrow> 'v option"
    and insert :: "'k \<Rightarrow> 'v \<Rightarrow> 'm \<Rightarrow> 'm"
    and remove :: "'k \<Rightarrow> 'm \<Rightarrow> 'm"
    and entries :: "'m \<Rightarrow> ('k \<times> 'v) list"
  assumes get_empty: "get empty k = None"
    and get_insert: "get (insert k v m) k' = (if k' = k then Some v else get m k')"
    and get_remove: "get (remove k m) k' = (if k' = k then None else get m k')"
    and entries_get: "(k, v) \<in> set (entries m) \<longleftrightarrow> get m k = Some v"
    and entries_sorted: "sorted_wrt (<) (map fst (entries m))"
    and map_ext: "(\<And>k. get m k = get n k) \<Longrightarrow> m = n"
begin

lemma keys_distinct: "distinct (map fst (entries m))"
  using entries_sorted [of m] by (simp add: strict_sorted_iff)

lemma entries_distinct: "distinct (entries m)"
  using keys_distinct by (simp add: distinct_map)

lemma dom_entries: "fst ` set (entries m) = {k. get m k \<noteq> None}"
proof (rule set_eqI)
  fix k
  show "k \<in> fst ` set (entries m) \<longleftrightarrow> k \<in> {k. get m k \<noteq> None}"
    using entries_get [of k _ m] by (force simp: image_iff)
qed

lemma entries_empty: "entries empty = []"
  using dom_entries [of empty] by (simp add: get_empty)

lemma insert_same: "get m k = Some v \<Longrightarrow> insert k v m = m"
  by (rule map_ext) (simp add: get_insert)

lemma insert_insert: "insert k v (insert k w m) = insert k v m"
  by (rule map_ext) (simp add: get_insert)

lemma insert_commute: "k \<noteq> j \<Longrightarrow> insert k v (insert j w m) = insert j w (insert k v m)"
  by (rule map_ext) (simp add: get_insert)

lemma remove_absent: "get m k = None \<Longrightarrow> remove k m = m"
  by (rule map_ext) (simp add: get_remove)

lemma remove_insert: "remove k (insert k v m) = remove k m"
  by (rule map_ext) (simp add: get_insert get_remove)

text \<open>Folding the entries of a map into the empty map rebuilds it: the shape of every
  decoder's loop.\<close>

lemma get_fold_insert:
  "distinct (map fst xs) \<Longrightarrow>
    get (foldl (\<lambda>m (k, v). insert k v m) m0 xs) j =
      (case map_of xs j of Some v \<Rightarrow> Some v | None \<Rightarrow> get m0 j)"
proof (induction xs arbitrary: m0)
  case (Cons x xs)
  obtain k v where x: "x = (k, v)" by fastforce
  from Cons.prems x have "distinct (map fst xs)" and fresh: "k \<notin> fst ` set xs"
    by auto
  moreover from fresh have "map_of xs k = None"
    by (simp add: map_of_eq_None_iff)
  ultimately show ?case
    using Cons.IH [of "insert k v m0"] x by (auto simp: get_insert split: option.split)
qed simp

lemma get_eq_map_of: "get m k = map_of (entries m) k"
proof (cases "get m k")
  case None
  then have "k \<notin> fst ` set (entries m)"
    by (simp add: dom_entries)
  then show ?thesis
    using None by (simp add: map_of_eq_None_iff [symmetric])
next
  case (Some v)
  then show ?thesis
    using map_of_is_SomeI [OF keys_distinct [of m]] by (simp add: entries_get)
qed

lemma rebuild: "foldl (\<lambda>m (k, v). insert k v m) empty (entries m) = m"
proof (rule map_ext)
  fix k
  show "get (foldl (\<lambda>m (k, v). insert k v m) empty (entries m)) k = get m k"
    by (simp add: get_fold_insert [OF keys_distinct] get_empty get_eq_map_of [of m] split: option.split)
qed

end

section \<open>The operations meet the contract\<close>

lemma bt_entries_strict [simp]: "strict_keys (bt_entries m)"
  using bt_entries [of m] by simp

lemma map_of_upd_entries:
  "map_of (upd_entries k v xs) j = (if j = k then Some v else map_of xs j)"
  by (induction xs) auto

lemma map_of_filter_key: "map_of (filter (\<lambda>p. fst p \<noteq> k) xs) j = (if j = k then None else map_of xs j)"
  by (induction xs) auto

lemma map_of_nth_key:
  "distinct (map fst xs) \<Longrightarrow> i < length xs \<Longrightarrow> (fst (xs ! i), the (map_of xs (fst (xs ! i)))) = xs ! i"
  by (metis map_of_is_SomeI nth_mem option.sel prod.collapse)

lemma entries_from_keys:
  "distinct (map fst xs) \<Longrightarrow> xs = map (\<lambda>k. (k, the (map_of xs k))) (map fst xs)"
  by (rule nth_equalityI) (auto simp: map_of_nth_key)

lemma strict_keys_ext:
  assumes xs: "strict_keys xs" and ys: "strict_keys ys" and eq: "\<And>k. map_of xs k = map_of ys k"
  shows "xs = ys"
proof -
  have dx: "distinct (map fst xs)" and dy: "distinct (map fst ys)"
    using xs ys by (simp_all add: strict_keys_def strict_sorted_iff)
  have "set (map fst xs) = set (map fst ys)"
    using eq by (metis dom_map_of_conv_image_fst list.set_map domIff subsetI subset_antisym)
  then have keys: "map fst xs = map fst ys"
    using xs ys by (intro strict_sorted_equal) (auto simp: strict_keys_def)
  have "xs = map (\<lambda>k. (k, the (map_of xs k))) (map fst xs)"
    by (rule entries_from_keys [OF dx])
  also have "\<dots> = map (\<lambda>k. (k, the (map_of ys k))) (map fst ys)"
    by (simp only: keys eq)
  also have "\<dots> = ys"
    by (rule entries_from_keys [OF dy, symmetric])
  finally show ?thesis .
qed

interpretation bt: ordered_map bt_empty bt_get bt_insert bt_remove bt_entries
proof
  fix m n :: "('k::linorder, 'v) btmap" and k k' :: 'k and v :: 'v
  show "bt_get bt_empty k = (None :: 'v option)"
    by (simp add: bt_get_def bt_empty.rep_eq)
  show "bt_get (bt_insert k v m) k' = (if k' = k then Some v else bt_get m k')"
    by (simp add: bt_get_def bt_insert.rep_eq map_of_upd_entries)
  show "bt_get (bt_remove k m) k' = (if k' = k then None else bt_get m k')"
    by (simp add: bt_get_def bt_remove.rep_eq map_of_filter_key)
  show "sorted_wrt (<) (map fst (bt_entries m))"
    using bt_entries_strict [of m] by (simp add: strict_keys_def)
  then have "distinct (map fst (bt_entries m))"
    by (simp add: strict_sorted_iff)
  then show "(k, v) \<in> set (bt_entries m) \<longleftrightarrow> bt_get m k = Some v"
    by (simp add: bt_get_def)
  show "m = n" if "\<And>k. bt_get m k = bt_get n k"
    using strict_keys_ext [OF bt_entries_strict bt_entries_strict, of m n] that
    by (simp add: bt_get_def bt_entries_inject)
qed

declare bt.get_empty [simp] bt.get_insert [simp] bt.get_remove [simp] bt.entries_empty [simp]

section \<open>Derived facts\<close>

lemma bt_contains_get: "bt_contains m k \<longleftrightarrow> bt_get m k \<noteq> None"
  using bt.dom_entries [of m] by (auto simp: bt_contains_def)

lemma bt_len_empty [simp]: "bt_len bt_empty = 0"
  by (simp add: bt_len_def)

lemma length_upd_entries:
  "length (upd_entries k v xs) \<le> Suc (length xs)"
  by (induction xs) auto

lemma length_upd_entries_cases:
  "strict_keys xs \<Longrightarrow>
    length (upd_entries k v xs) = (if k \<in> fst ` set xs then length xs else Suc (length xs))"
proof (induction xs)
  case (Cons x xs)
  then show ?case
    by (cases x) (force simp: strict_keys_def)
qed simp

lemma bt_len_insert:
  "bt_len (bt_insert k v m) = (if bt_contains m k then bt_len m else Suc (bt_len m))"
  by (simp add: bt_len_def bt_insert.rep_eq length_upd_entries_cases bt_contains_def)

lemma bt_len_insert_le: "bt_len (bt_insert k v m) \<le> Suc (bt_len m)"
  by (simp add: bt_len_insert)

lemma bt_len_remove_le: "bt_len (bt_remove k m) \<le> bt_len m"
  by (simp add: bt_len_def bt_remove.rep_eq)

lemma bt_len_remove_less:
  assumes "bt_get m k = Some v"
  shows "bt_len (bt_remove k m) < bt_len m"
proof -
  have "(k, v) \<in> set (bt_entries m)"
    using assms by (simp add: bt.entries_get)
  then show ?thesis
    unfolding bt_len_def bt_remove.rep_eq by (rule length_filter_less) simp
qed

lemma bt_keys_distinct: "distinct (bt_keys m)"
  unfolding bt_keys_def by (rule bt.keys_distinct)

lemma bt_len_keys: "bt_len m = card (set (bt_keys m))"
  using distinct_card [OF bt_keys_distinct [of m]] by (simp add: bt_len_def bt_keys_def)

lemma set_bt_keys: "set (bt_keys m) = {k. bt_get m k \<noteq> None}"
  using bt.dom_entries [of m] by (simp add: bt_keys_def)

text \<open>Sums over the values, the shape of \<open>values().sum()\<close>: what an insertion or a removal
  changes.\<close>

definition bt_sum :: "('v \<Rightarrow> nat) \<Rightarrow> ('k::linorder, 'v) btmap \<Rightarrow> nat" where
  "bt_sum f m = sum_list (map f (bt_values m))"

definition opt_weight :: "('v \<Rightarrow> nat) \<Rightarrow> 'v option \<Rightarrow> nat" where
  "opt_weight f x = (case x of None \<Rightarrow> 0 | Some v \<Rightarrow> f v)"

lemma opt_weight_simps [simp]:
  "opt_weight f None = 0" "opt_weight f (Some v) = f v"
  by (simp_all add: opt_weight_def)

lemma sum_upd_entries:
  "strict_keys xs \<Longrightarrow>
    sum_list (map (f \<circ> snd) (upd_entries k v xs)) + opt_weight f (map_of xs k)
      = sum_list (map (f \<circ> snd) xs) + f v"
proof (induction xs)
  case (Cons x xs)
  obtain k' v' where x: "x = (k', v')" by fastforce
  from Cons.prems x have rest: "strict_keys xs" and head: "\<forall>j\<in>fst ` set xs. k' < j"
    by (auto simp: strict_keys_def)
  have "map_of xs k = None" if "k < k'"
    using head that by (auto simp: map_of_eq_None_iff dest: order.strict_trans)
  with Cons.IH [OF rest] x show ?case
    by auto
qed simp

lemma sum_filter_key:
  "strict_keys xs \<Longrightarrow>
    sum_list (map (f \<circ> snd) (filter (\<lambda>p. fst p \<noteq> k) xs)) + opt_weight f (map_of xs k)
      = sum_list (map (f \<circ> snd) xs)"
proof (induction xs)
  case (Cons x xs)
  obtain k' v' where x: "x = (k', v')" by fastforce
  from Cons.prems x have rest: "strict_keys xs" and head: "k' \<notin> fst ` set xs"
    by (auto simp: strict_keys_def)
  have "filter (\<lambda>p. fst p \<noteq> k') xs = xs"
    using head by (auto intro!: filter_True simp: image_iff)
  with Cons.IH [OF rest] x show ?case
    by auto
qed simp

lemma bt_sum_insert: "bt_sum f (bt_insert k v m) + opt_weight f (bt_get m k) = bt_sum f m + f v"
  using sum_upd_entries [OF bt_entries_strict, of f k v m]
  by (simp add: bt_sum_def bt_values_def bt_get_def bt_insert.rep_eq)

lemma bt_sum_remove: "bt_sum f (bt_remove k m) + opt_weight f (bt_get m k) = bt_sum f m"
  using sum_filter_key [OF bt_entries_strict, of f k m]
  by (simp add: bt_sum_def bt_values_def bt_get_def bt_remove.rep_eq)

lemma bt_sum_ge: "opt_weight f (bt_get m k) \<le> bt_sum f m"
  using bt_sum_remove [of f k m] by simp

lemma bt_sum_empty [simp]: "bt_sum f bt_empty = 0"
  by (simp add: bt_sum_def bt_values_def)

end
