(* ===== verification/Crypto.thy ===== *)
theory Crypto
  imports Prelude
begin

text \<open>
  The ML-DSA-65 wrapper of \<open>suwappu-crypto\<close>.  The signature scheme itself is the third-party
  crate \<open>pqcrypto-mldsa\<close>: its parsers, its signing and its verification functions are the
  fields of the record \<open>mldsa65\<close>, an argument of every definition that signs or verifies.
  What the callers rely on (a detached signature made with a secret key parses and verifies
  under the matching public key, FIPS 204) is the named hypothesis \<open>mldsa_correct\<close>.
\<close>

record mldsa65 =
  raw_pk_ok :: "bytes \<Rightarrow> bool"
  raw_sk_ok :: "bytes \<Rightarrow> bool"
  raw_sig_ok :: "bytes \<Rightarrow> bool"
  raw_detached_sign :: "bytes \<Rightarrow> bytes \<Rightarrow> bytes"
  raw_verify_detached :: "bytes \<Rightarrow> bytes \<Rightarrow> bytes \<Rightarrow> bool"

datatype CryptoError =
    InvalidSignature
  | DecapsulationFailed
  | MalformedKey string
  | SizeMismatch nat nat
  | BlsAggregation string

datatype PublicKey = PublicKey (pk_bytes: bytes)
datatype SecretKey = SecretKey (sk_bytes: bytes)
datatype Signature = Signature (sig_bytes: bytes)

definition pk_from_bytes :: "mldsa65 \<Rightarrow> bytes \<Rightarrow> CryptoError + PublicKey" where
  "pk_from_bytes M bs =
     (if raw_pk_ok M bs then Inr (PublicKey bs) else Inl (MalformedKey ''ml-dsa-65 public key''))"

definition sk_from_bytes :: "mldsa65 \<Rightarrow> bytes \<Rightarrow> CryptoError + SecretKey" where
  "sk_from_bytes M bs =
     (if raw_sk_ok M bs then Inr (SecretKey bs) else Inl (MalformedKey ''ml-dsa-65 secret key''))"

definition sig_from_bytes :: "mldsa65 \<Rightarrow> bytes \<Rightarrow> CryptoError + Signature" where
  "sig_from_bytes M bs = (if raw_sig_ok M bs then Inr (Signature bs) else Inl InvalidSignature)"

definition mldsa_sign :: "mldsa65 \<Rightarrow> bytes \<Rightarrow> SecretKey \<Rightarrow> CryptoError + Signature" where
  "mldsa_sign M message sk =
     (if raw_sk_ok M (sk_bytes sk)
      then Inr (Signature (raw_detached_sign M message (sk_bytes sk)))
      else Inl (MalformedKey ''ml-dsa-65 secret key''))"

definition mldsa_verify ::
  "mldsa65 \<Rightarrow> bytes \<Rightarrow> Signature \<Rightarrow> PublicKey \<Rightarrow> CryptoError + unit" where
  "mldsa_verify M message sig pk =
     (if \<not> raw_pk_ok M (pk_bytes pk) then Inl (MalformedKey ''ml-dsa-65 public key'')
      else if \<not> raw_sig_ok M (sig_bytes sig) then Inl InvalidSignature
      else if raw_verify_detached M (sig_bytes sig) message (pk_bytes pk) then Inr ()
      else Inl InvalidSignature)"

definition is_ok :: "'e + 'a \<Rightarrow> bool" where
  "is_ok r = (case r of Inl _ \<Rightarrow> False | Inr _ \<Rightarrow> True)"

text \<open>Documented behaviour of the signature scheme for a key pair.\<close>

definition mldsa_correct :: "mldsa65 \<Rightarrow> PublicKey \<Rightarrow> SecretKey \<Rightarrow> bool" where
  "mldsa_correct M pk sk \<longleftrightarrow>
     raw_pk_ok M (pk_bytes pk) \<and> raw_sk_ok M (sk_bytes sk) \<and>
     (\<forall>msg. let sg = raw_detached_sign M msg (sk_bytes sk)
            in sg \<noteq> [] \<and> raw_sig_ok M sg \<and> raw_verify_detached M sg msg (pk_bytes pk))"

text \<open>A concrete scheme for evaluation: the signature is the key followed by the message.\<close>

definition demo_mldsa :: mldsa65 where
  "demo_mldsa = \<lparr>raw_pk_ok = (\<lambda>bs. bs \<noteq> []), raw_sk_ok = (\<lambda>bs. bs \<noteq> []), raw_sig_ok = (\<lambda>bs. bs \<noteq> []),
     raw_detached_sign = (\<lambda>msg sk. sk @ msg), raw_verify_detached = (\<lambda>sg msg pk. sg = pk @ msg)\<rparr>"

lemma is_ok_simps [simp]: "is_ok (Inr a) = True" "is_ok (Inl e) = False"
  by (simp_all add: is_ok_def)

lemma mldsa_verify_ok_iff:
  "is_ok (mldsa_verify M msg sig pk) \<longleftrightarrow>
     raw_pk_ok M (pk_bytes pk) \<and> raw_sig_ok M (sig_bytes sig) \<and>
     raw_verify_detached M (sig_bytes sig) msg (pk_bytes pk)"
  by (simp add: mldsa_verify_def)

lemma mldsa_sign_verify:
  assumes "mldsa_correct M pk sk"
  shows "\<exists>sg. mldsa_sign M msg sk = Inr sg \<and> sig_bytes sg \<noteq> [] \<and>
    sig_from_bytes M (sig_bytes sg) = Inr sg \<and> is_ok (mldsa_verify M msg sg pk)"
  using assms by (auto simp: mldsa_correct_def mldsa_sign_def sig_from_bytes_def mldsa_verify_ok_iff Let_def)

lemma demo_mldsa_correct: "mldsa_correct demo_mldsa (PublicKey [1]) (SecretKey [1])"
  by (simp add: mldsa_correct_def demo_mldsa_def)

end
