(* ===== verification/Dag_Store.thy ===== *)
theory Dag_Store
  imports Ordered_Map Crypto "HOL-Library.Product_Lexorder"
begin

text \<open>
  The certificate DAG: \<open>suwappu-consensus/src/cert.rs\<close>, \<open>error.rs\<close> and \<open>dag.rs\<close>.
  A store holds the certificates by content hash and an index from rounds to the hashes
  inserted at that round.  \<open>insert\<close> is the only mutator, so the type invariant \<open>dag_wf\<close>
  (parents present at smaller rounds, index and map in step) holds of every store a node can
  build; the lookups the source writes as \<open>certs[h]\<close> or \<open>expect\<close> never miss under it.
\<close>

section \<open>Certificates\<close>

type_synonym AuthorityId = u32
type_synonym Round = u64
type_synonym CertHash = hash32

record Certificate =
  c_author :: AuthorityId
  c_round :: Round
  c_parents :: "CertHash list"
  c_payload_digest :: hash32
  c_signature :: bytes

definition genesis_cert :: "AuthorityId \<Rightarrow> hash32 \<Rightarrow> Certificate" where
  "genesis_cert author payload =
     \<lparr>c_author = author, c_round = 0, c_parents = [], c_payload_digest = payload, c_signature = []\<rparr>"

definition cert_preimage :: "Certificate \<Rightarrow> bytes" where
  "cert_preimage c =
     string_bytes ''SUWAPPU-CERT-V1'' @ be_bytes 4 (c_author c) @ be_bytes 8 (c_round c) @
     be_bytes 4 (len_u32 (c_parents c)) @ concat (map (be_bytes 32) (c_parents c)) @
     be_bytes 32 (c_payload_digest c)"

definition cert_hash :: "hasher \<Rightarrow> Certificate \<Rightarrow> CertHash" where
  "cert_hash H c = H (cert_preimage c)"

text \<open>\<open>sign\<close> panics when the secret key does not parse; the result is then \<open>None\<close>.\<close>

definition cert_sign :: "hasher \<Rightarrow> mldsa65 \<Rightarrow> SecretKey \<Rightarrow> Certificate \<Rightarrow> Certificate option" where
  "cert_sign H M sk c =
     (case mldsa_sign M (be_bytes 32 (cert_hash H c)) sk of
        Inl _ \<Rightarrow> None
      | Inr sg \<Rightarrow> Some (c\<lparr>c_signature := sig_bytes sg\<rparr>))"

definition cert_verify_signature :: "hasher \<Rightarrow> mldsa65 \<Rightarrow> PublicKey \<Rightarrow> Certificate \<Rightarrow> bool" where
  "cert_verify_signature H M pk c =
     (if c_signature c = [] then False
      else case sig_from_bytes M (c_signature c) of
             Inr sg \<Rightarrow> is_ok (mldsa_verify M (be_bytes 32 (cert_hash H c)) sg pk)
           | Inl _ \<Rightarrow> False)"

section \<open>The store\<close>

datatype ConsensusError =
    UnknownParent CertHash
  | NonMonotonicRound (err_child: Round) (err_parent: Round)
  | DuplicateCertificate CertHash
  | GenesisWithParents

record DagStore =
  certs :: "(CertHash, Certificate) btmap"
  by_round :: "(Round, CertHash list) btmap"

definition dag_new :: DagStore where
  "dag_new = \<lparr>certs = bt_empty, by_round = bt_empty\<rparr>"

definition dag_len :: "DagStore \<Rightarrow> nat" where
  "dag_len d = bt_len (certs d)"

definition dag_contains :: "DagStore \<Rightarrow> CertHash \<Rightarrow> bool" where
  "dag_contains d h = bt_contains (certs d) h"

definition dag_get :: "DagStore \<Rightarrow> CertHash \<Rightarrow> Certificate option" where
  "dag_get d h = bt_get (certs d) h"

text \<open>The parent loop of \<open>insert\<close>: the first parent that is missing or not older.\<close>

fun check_parents :: "DagStore \<Rightarrow> Round \<Rightarrow> CertHash list \<Rightarrow> ConsensusError option" where
  "check_parents d r [] = None"
| "check_parents d r (p # ps) =
     (case dag_get d p of
        Some parent \<Rightarrow>
          (if r \<le> c_round parent then Some (NonMonotonicRound r (c_round parent))
           else check_parents d r ps)
      | None \<Rightarrow> Some (UnknownParent p))"

definition dag_record :: "hasher \<Rightarrow> DagStore \<Rightarrow> Certificate \<Rightarrow> DagStore" where
  "dag_record H d c =
     d\<lparr>by_round := bt_insert (c_round c)
          (unwrap_or [] (bt_get (by_round d) (c_round c)) @ [cert_hash H c]) (by_round d),
       certs := bt_insert (cert_hash H c) c (certs d)\<rparr>"

definition dag_insert ::
  "hasher \<Rightarrow> DagStore \<Rightarrow> Certificate \<Rightarrow> ConsensusError + (CertHash \<times> DagStore)" where
  "dag_insert H d c =
     (if c_round c = 0 \<and> c_parents c \<noteq> [] then Inl GenesisWithParents
      else case check_parents d (c_round c) (c_parents c) of
        Some e \<Rightarrow> Inl e
      | None \<Rightarrow>
          (if dag_contains d (cert_hash H c) then Inl (DuplicateCertificate (cert_hash H c))
           else Inr (cert_hash H c, dag_record H d c)))"

definition round_hashes :: "DagStore \<Rightarrow> Round \<Rightarrow> CertHash list" where
  "round_hashes d r = unwrap_or [] (bt_get (by_round d) r)"

definition max_round :: "DagStore \<Rightarrow> Round option" where
  "max_round d = bt_last_key (by_round d)"

definition dag_rounds :: "DagStore \<Rightarrow> Round list" where
  "dag_rounds d = bt_keys (by_round d)"

text \<open>Author and round of a stored certificate.  The source indexes the map directly and would
  panic on a hash that is not stored; \<open>dag_wf\<close> rules that out (\<open>round_hashes_resolve\<close>).\<close>

definition author_of :: "DagStore \<Rightarrow> CertHash \<Rightarrow> AuthorityId" where
  "author_of d h = (case dag_get d h of Some c \<Rightarrow> c_author c | None \<Rightarrow> 0)"

definition round_of :: "DagStore \<Rightarrow> CertHash \<Rightarrow> Round" where
  "round_of d h = (case dag_get d h of Some c \<Rightarrow> c_round c | None \<Rightarrow> 0)"

definition linearize :: "DagStore \<Rightarrow> CertHash list" where
  "linearize d = concat (map (sort_key (\<lambda>h. (author_of d h, h))) (bt_values (by_round d)))"

section \<open>The invariant and sequences of insertions\<close>

definition parents_older :: "DagStore \<Rightarrow> bool" where
  "parents_older d \<longleftrightarrow>
     (\<forall>h c p. dag_get d h = Some c \<longrightarrow> p \<in> set (c_parents c) \<longrightarrow>
        (\<exists>pc. dag_get d p = Some pc \<and> c_round pc < c_round c))"

definition content_addressed :: "hasher \<Rightarrow> DagStore \<Rightarrow> bool" where
  "content_addressed H d \<longleftrightarrow> (\<forall>h c. dag_get d h = Some c \<longrightarrow> cert_hash H c = h)"

definition index_in_step :: "DagStore \<Rightarrow> bool" where
  "index_in_step d \<longleftrightarrow>
     (\<forall>r hs. bt_get (by_round d) r = Some hs \<longrightarrow> hs \<noteq> []) \<and>
     (\<forall>r. distinct (round_hashes d r)) \<and>
     (\<forall>r h. h \<in> set (round_hashes d r) \<longleftrightarrow> (\<exists>c. dag_get d h = Some c \<and> c_round c = r))"

definition dag_wf :: "hasher \<Rightarrow> DagStore \<Rightarrow> bool" where
  "dag_wf H d \<longleftrightarrow> content_addressed H d \<and> parents_older d \<and> index_in_step d"

fun insert_all :: "hasher \<Rightarrow> DagStore \<Rightarrow> Certificate list \<Rightarrow> ConsensusError + DagStore" where
  "insert_all H d [] = Inr d"
| "insert_all H d (c # cs) =
     (case dag_insert H d c of Inl e \<Rightarrow> Inl e | Inr (_, d') \<Rightarrow> insert_all H d' cs)"

text \<open>\<open>dag_extends d d'\<close>: every certificate of \<open>d\<close> is in \<open>d'\<close>.\<close>

definition dag_extends :: "DagStore \<Rightarrow> DagStore \<Rightarrow> bool" where
  "dag_extends d d' \<longleftrightarrow> (\<forall>h c. dag_get d h = Some c \<longrightarrow> dag_get d' h = Some c)"

text \<open>The key of the linear order: round, author, hash.\<close>

definition lin_key :: "DagStore \<Rightarrow> CertHash \<Rightarrow> Round \<times> AuthorityId \<times> CertHash" where
  "lin_key d h = (round_of d h, author_of d h, h)"

section \<open>A small store for examples\<close>

text \<open>A hash that reads the low bytes of author, round and payload digest out of the preimage,
  and certificates over it.  Used only to evaluate theorems on concrete stores.\<close>

definition demo_hash :: hasher where
  "demo_hash bs = ucast (bs ! 18) + 256 * ucast (bs ! 26) + 65536 * ucast (last bs)"

definition demo_cert :: "AuthorityId \<Rightarrow> Round \<Rightarrow> CertHash list \<Rightarrow> hash32 \<Rightarrow> Certificate" where
  "demo_cert a r ps p =
     \<lparr>c_author = a, c_round = r, c_parents = ps, c_payload_digest = p, c_signature = []\<rparr>"

definition demo_certs :: "Certificate list" where
  "demo_certs =
     [demo_cert 1 0 [] 0, demo_cert 0 0 [] 0, demo_cert 0 1 [0, 1] 0, demo_cert 1 1 [0, 1] 0]"

section \<open>Insertion\<close>

lemma check_parents_None_iff:
  "check_parents d r ps = None \<longleftrightarrow> (\<forall>p\<in>set ps. \<exists>pc. dag_get d p = Some pc \<and> c_round pc < r)"
  by (induction ps) (auto split: option.split simp: not_le)

lemma check_parents_SomeD:
  "check_parents d r ps = Some e \<Longrightarrow>
    (\<exists>p\<in>set ps. dag_get d p = None \<and> e = UnknownParent p) \<or>
    (\<exists>p\<in>set ps. \<exists>pc. dag_get d p = Some pc \<and> r \<le> c_round pc \<and> e = NonMonotonicRound r (c_round pc))"
  by (induction ps) (auto split: option.splits if_splits)

lemma dag_insert_Inr_iff:
  "dag_insert H d c = Inr (h, d') \<longleftrightarrow>
     (c_round c = 0 \<longrightarrow> c_parents c = []) \<and>
     (\<forall>p\<in>set (c_parents c). \<exists>pc. dag_get d p = Some pc \<and> c_round pc < c_round c) \<and>
     dag_get d (cert_hash H c) = None \<and> h = cert_hash H c \<and> d' = dag_record H d c"
  unfolding check_parents_None_iff [symmetric]
  by (auto simp: dag_insert_def dag_contains_def dag_get_def bt_contains_get split: option.split)

lemma dag_get_record [simp]:
  "dag_get (dag_record H d c) h = (if h = cert_hash H c then Some c else dag_get d h)"
  by (simp add: dag_get_def dag_record_def)

lemma round_hashes_record [simp]:
  "round_hashes (dag_record H d c) r =
     (if r = c_round c then round_hashes d r @ [cert_hash H c] else round_hashes d r)"
  by (simp add: round_hashes_def dag_record_def)

lemma dag_get_new [simp]: "dag_get dag_new h = None"
  by (simp add: dag_get_def dag_new_def)

lemma round_hashes_new [simp]: "round_hashes dag_new r = []"
  by (simp add: round_hashes_def dag_new_def)

lemma dag_wf_new: "dag_wf H dag_new"
  by (simp add: dag_wf_def content_addressed_def parents_older_def index_in_step_def)
    (simp add: dag_new_def)

lemma index_in_step_record:
  assumes idx: "index_in_step d" and fresh: "dag_get d (cert_hash H c) = None"
  shows "index_in_step (dag_record H d c)"
proof -
  have "cert_hash H c \<notin> set (round_hashes d r)" for r
    using idx fresh by (auto simp: index_in_step_def)
  moreover have "bt_get (by_round (dag_record H d c)) r = Some hs \<Longrightarrow> hs \<noteq> []" for r hs
    using idx by (auto simp: index_in_step_def dag_record_def split: if_splits)
  ultimately show ?thesis
    using idx fresh by (auto simp: index_in_step_def)
qed

lemma dag_insert_wf:
  assumes wf: "dag_wf H d" and ins: "dag_insert H d c = Inr (h, d')"
  shows "dag_wf H d'"
proof -
  from ins have parents: "\<forall>p\<in>set (c_parents c). \<exists>pc. dag_get d p = Some pc \<and> c_round pc < c_round c"
    and fresh: "dag_get d (cert_hash H c) = None" and d': "d' = dag_record H d c"
    by (auto simp: dag_insert_Inr_iff)
  have "content_addressed H d'"
    using wf d' by (simp add: dag_wf_def content_addressed_def)
  moreover have "parents_older d'"
  proof -
    have keep: "dag_get d' p = Some pc" if "dag_get d p = Some pc" for p pc
      using that fresh d' by auto
    have "\<exists>pc. dag_get d' p = Some pc \<and> c_round pc < c_round x"
      if "dag_get d' h = Some x" "p \<in> set (c_parents x)" for h x p
    proof (cases "h = cert_hash H c")
      case True
      with that d' parents keep show ?thesis by fastforce
    next
      case False
      with that d' have "dag_get d h = Some x" by simp
      with wf that(2) keep show ?thesis
        by (metis dag_wf_def parents_older_def)
    qed
    then show ?thesis
      by (auto simp: parents_older_def)
  qed
  moreover have "index_in_step d'"
    using wf fresh d' by (simp add: dag_wf_def index_in_step_record)
  ultimately show ?thesis
    by (simp add: dag_wf_def)
qed

lemma dag_insert_extends: "dag_insert H d c = Inr (h, d') \<Longrightarrow> dag_extends d d'"
  by (auto simp: dag_insert_Inr_iff dag_extends_def)

lemma dag_extends_refl: "dag_extends d d"
  by (simp add: dag_extends_def)

lemma dag_extends_trans: "dag_extends a b \<Longrightarrow> dag_extends b c \<Longrightarrow> dag_extends a c"
  by (simp add: dag_extends_def)

lemma insert_all_wf: "dag_wf H d \<Longrightarrow> insert_all H d cs = Inr d' \<Longrightarrow> dag_wf H d'"
  by (induction cs arbitrary: d) (auto split: sum.splits prod.splits dest: dag_insert_wf)

lemma insert_all_extends: "insert_all H d cs = Inr d' \<Longrightarrow> dag_extends d d'"
  by (induction cs arbitrary: d)
    (auto split: sum.splits prod.splits intro: dag_extends_refl dest: dag_insert_extends dag_extends_trans)

lemma insert_all_get:
  "insert_all H d cs = Inr d' \<Longrightarrow>
    dag_get d' h = Some c \<longleftrightarrow> dag_get d h = Some c \<or> (c \<in> set cs \<and> cert_hash H c = h)"
proof (induction cs arbitrary: d)
  case (Cons x xs)
  then obtain h1 d1 where ins: "dag_insert H d x = Inr (h1, d1)" and rest: "insert_all H d1 xs = Inr d'"
    by (auto split: sum.splits prod.splits)
  then show ?case
    using Cons.IH [OF rest] by (auto simp: dag_insert_Inr_iff)
qed simp

text \<open>Certificates reachable by insertion always resolve: the direct indexing of the source
  does not panic.\<close>

lemma round_hashes_resolve:
  "dag_wf H d \<Longrightarrow> h \<in> set (round_hashes d r) \<Longrightarrow> \<exists>c. dag_get d h = Some c \<and> c_round c = r"
  by (auto simp: dag_wf_def index_in_step_def)

lemma in_round_hashes: "dag_wf H d \<Longrightarrow> dag_get d h = Some c \<Longrightarrow> h \<in> set (round_hashes d (c_round c))"
  by (auto simp: dag_wf_def index_in_step_def)

lemma round_hashes_nonempty_iff:
  assumes "dag_wf H d"
  shows "round_hashes d r \<noteq> [] \<longleftrightarrow> (\<exists>h c. dag_get d h = Some c \<and> c_round c = r)"
proof -
  have "round_hashes d r \<noteq> [] \<longleftrightarrow> (\<exists>h. h \<in> set (round_hashes d r))"
    by (simp add: ex_in_conv)
  with assms show ?thesis
    by (simp add: dag_wf_def index_in_step_def)
qed

lemma round_of_Some [simp]: "dag_get d h = Some c \<Longrightarrow> round_of d h = c_round c"
  by (simp add: round_of_def)

lemma author_of_Some [simp]: "dag_get d h = Some c \<Longrightarrow> author_of d h = c_author c"
  by (simp add: author_of_def)

lemma dag_wf_parent:
  assumes "dag_wf H d" "dag_get d h = Some c" "p \<in> set (c_parents c)"
  obtains pc where "dag_get d p = Some pc" "c_round pc < c_round c"
  using assms unfolding dag_wf_def parents_older_def by blast

section \<open>Linearization\<close>

lemma sorted_wrt_concat_groups:
  assumes "sorted_wrt (<) (map fst xs)"
    and "\<And>r hs. (r, hs) \<in> set xs \<Longrightarrow> sorted_wrt K hs \<and> (\<forall>h\<in>set hs. rnd h = r)"
    and "\<And>a b. rnd a < rnd b \<Longrightarrow> K a b"
  shows "sorted_wrt K (concat (map snd xs))"
  using assms(1,2)
proof (induction xs)
  case (Cons x xs)
  obtain r hs where x: "x = (r, hs)" by fastforce
  have later: "r < rnd b" if b: "b \<in> set (concat (map snd xs))" for b
  proof -
    from b obtain r' hs' where "(r', hs') \<in> set xs" "b \<in> set hs'"
      by auto
    with Cons.prems x show ?thesis by force
  qed
  have "sorted_wrt K (concat (map snd xs))"
    using Cons.prems by (intro Cons.IH) auto
  moreover have "sorted_wrt K hs" "\<forall>h\<in>set hs. rnd h = r"
    using Cons.prems(2) x by auto
  ultimately show ?case
    using x later assms(3) by (auto simp: sorted_wrt_append)
qed simp

lemma sort_key_strict:
  "distinct xs \<Longrightarrow> inj_on f (set xs) \<Longrightarrow> sorted_wrt (\<lambda>a b. f a < f b) (sort_key f xs)"
  using strict_sorted_iff [of "map f (sort_key f xs)"] sorted_sort_key [of f xs]
  by (simp add: sorted_wrt_map distinct_map)

lemma set_linearize:
  assumes "dag_wf H d"
  shows "set (linearize d) = {h. dag_get d h \<noteq> None}"
proof -
  have "h \<in> set (linearize d) \<longleftrightarrow> (\<exists>r. h \<in> set (round_hashes d r))" for h
  proof -
    have "h \<in> set (linearize d) \<longleftrightarrow> (\<exists>hs\<in>set (bt_values (by_round d)). h \<in> set hs)"
      by (simp add: linearize_def)
    also have "\<dots> \<longleftrightarrow> (\<exists>r hs. bt_get (by_round d) r = Some hs \<and> h \<in> set hs)"
      by (force simp: bt_values_def bt.entries_get [symmetric])
    also have "\<dots> \<longleftrightarrow> (\<exists>r. h \<in> set (round_hashes d r))"
      by (metis empty_iff list.set(1) option.exhaust round_hashes_def unwrap_or.simps)
    finally show ?thesis .
  qed
  with assms show ?thesis
    by (auto simp: dag_wf_def index_in_step_def)
qed

lemma lin_key_inj: "lin_key d a = lin_key d b \<longleftrightarrow> a = b"
  by (auto simp: lin_key_def)

lemma linearize_sorted:
  assumes wf: "dag_wf H d"
  shows "sorted_wrt (\<lambda>a b. lin_key d a < lin_key d b) (linearize d)"
proof -
  let ?srt = "sort_key (\<lambda>h. (author_of d h, h))"
  let ?xs = "map (\<lambda>(r, hs). (r, ?srt hs)) (bt_entries (by_round d))"
  have lin: "linearize d = concat (map snd ?xs)"
    by (simp add: linearize_def bt_values_def case_prod_beta comp_def)
  have group: "sorted_wrt (\<lambda>a b. lin_key d a < lin_key d b) hs \<and> (\<forall>h\<in>set hs. round_of d h = r)"
    if "(r, hs) \<in> set ?xs" for r hs
  proof -
    from that obtain hs0 where hs: "hs = ?srt hs0" and "(r, hs0) \<in> set (bt_entries (by_round d))"
      by auto
    then have "round_hashes d r = hs0"
      by (simp add: bt.entries_get round_hashes_def)
    with wf have dist: "distinct hs0" and rnd: "\<forall>h\<in>set hs0. round_of d h = r"
      by (auto simp: dag_wf_def index_in_step_def)
    have "sorted_wrt (\<lambda>a b. (author_of d a, a) < (author_of d b, b)) hs"
      unfolding hs by (rule sort_key_strict [OF dist]) (simp add: inj_on_def)
    then have "sorted_wrt (\<lambda>a b. lin_key d a < lin_key d b) hs"
      by (rule sorted_wrt_mono_rel [rotated]) (use rnd hs in \<open>auto simp: lin_key_def less_prod_def\<close>)
    with rnd hs show ?thesis by simp
  qed
  show ?thesis
    unfolding lin
  proof (rule sorted_wrt_concat_groups [where rnd = "round_of d"])
    show "sorted_wrt (<) (map fst ?xs)"
      using bt.entries_sorted [of "by_round d"] by (simp add: comp_def case_prod_beta)
  qed (use group in \<open>auto simp: lin_key_def less_prod_def\<close>)
qed

lemma linearize_distinct: "dag_wf H d \<Longrightarrow> distinct (linearize d)"
  using linearize_sorted strict_sorted_iff [of "map (lin_key d) (linearize d)"]
  by (metis distinct_map sorted_wrt_map)

text \<open>A list that is strictly sorted by the key is determined by its elements.\<close>

lemma lin_sorted_unique:
  assumes "sorted_wrt (\<lambda>a b. lin_key d a < lin_key d b) xs"
    and "sorted_wrt (\<lambda>a b. lin_key d a < lin_key d b) ys"
    and "set xs = set ys"
  shows "xs = ys"
proof -
  have "map (lin_key d) xs = map (lin_key d) ys"
    using assms by (intro strict_sorted_equal) (simp_all add: sorted_wrt_map)
  then show ?thesis
    by (rule map_injective) (simp add: inj_def lin_key_inj)
qed

lemma linearize_eq_sort:
  assumes "dag_wf H d" "distinct xs" "set xs = {h. dag_get d h \<noteq> None}"
  shows "linearize d = sort_key (lin_key d) xs"
  using assms sort_key_strict [of xs "lin_key d"]
  by (intro lin_sorted_unique [of d])
    (auto simp: set_linearize inj_on_def lin_key_inj intro: linearize_sorted)

lemma lin_key_cong:
  "(\<And>h. dag_get d h = dag_get d' h) \<Longrightarrow> lin_key d = lin_key d'"
  by (rule ext) (simp add: lin_key_def round_of_def author_of_def)

lemma linearize_cong:
  assumes "dag_wf H d" "dag_wf H d'" "\<And>h. dag_get d h = dag_get d' h"
  shows "linearize d = linearize d'"
proof (rule lin_sorted_unique [of d])
  show "sorted_wrt (\<lambda>a b. lin_key d a < lin_key d b) (linearize d')"
    using linearize_sorted [OF assms(2)] by (simp add: lin_key_cong [OF assms(3)])
qed (use assms set_linearize in \<open>auto intro: linearize_sorted\<close>)

lemma sorted_le_last: "sorted xs \<Longrightarrow> x \<in> set xs \<Longrightarrow> x \<le> last xs"
  by (induction xs) auto

lemma max_round_Some_iff:
  assumes wf: "dag_wf H d"
  shows "max_round d = Some r \<longleftrightarrow>
    (\<exists>h c. dag_get d h = Some c \<and> c_round c = r) \<and> (\<forall>h c. dag_get d h = Some c \<longrightarrow> c_round c \<le> r)"
proof -
  let ?ks = "bt_keys (by_round d)"
  have keys: "r \<in> set ?ks \<longleftrightarrow> (\<exists>h c. dag_get d h = Some c \<and> c_round c = r)" for r
  proof -
    have "r \<in> set ?ks \<longleftrightarrow> round_hashes d r \<noteq> []"
      using wf by (cases "bt_get (by_round d) r")
        (auto simp: set_bt_keys round_hashes_def dag_wf_def index_in_step_def)
    then show ?thesis
      by (simp add: round_hashes_nonempty_iff [OF wf])
  qed
  have sorted: "sorted ?ks"
    using bt.entries_sorted [of "by_round d"] by (simp add: bt_keys_def strict_sorted_iff)
  have max: "last ?ks = r \<longleftrightarrow> r \<in> set ?ks \<and> (\<forall>k\<in>set ?ks. k \<le> r)" if "?ks \<noteq> []"
  proof -
    have "last ?ks \<in> set ?ks"
      using that by simp
    moreover have "k \<le> last ?ks" if "k \<in> set ?ks" for k
      using sorted that by (rule sorted_le_last)
    ultimately show ?thesis
      by (metis order_antisym)
  qed
  show ?thesis
  proof (cases "?ks = []")
    case True
    then show ?thesis
      using keys by (auto simp: max_round_def bt_last_key_def bt_keys_def)
  next
    case False
    then have "max_round d = Some r \<longleftrightarrow> last ?ks = r"
      by (auto simp: max_round_def bt_last_key_def bt_keys_def)
    then show ?thesis
      unfolding max [OF False] Ball_def keys by auto
  qed
qed

lemma max_round_None_iff: "dag_wf H d \<Longrightarrow> max_round d = None \<longleftrightarrow> (\<forall>h. dag_get d h = None)"
proof -
  assume wf: "dag_wf H d"
  have "max_round d = None \<longleftrightarrow> by_round d = bt_empty"
    by (auto simp: max_round_def bt_last_key_def bt_entries_inject [symmetric])
  also have "\<dots> \<longleftrightarrow> (\<forall>r. round_hashes d r = [])"
    using wf by (auto simp: round_hashes_def dag_wf_def index_in_step_def intro!: bt.map_ext)
      (metis option.exhaust unwrap_or.simps(2))
  also have "\<dots> \<longleftrightarrow> (\<forall>h. dag_get d h = None)"
    using round_hashes_nonempty_iff [OF wf] by (metis not_None_eq)
  finally show ?thesis .
qed

section \<open>Evaluating the example store\<close>

lemma last_be_bytes: "0 < n \<Longrightarrow> last (be_bytes n w) = ucast w"
  by (induction n) (auto simp: last_append)

lemma be_bytes_32_neq_Nil [simp]: "be_bytes 32 w \<noteq> []"
  by (metis length_be_bytes list.size(3) zero_neq_numeral)

lemma demo_cert_hash [simp]:
  "cert_hash demo_hash (demo_cert a r ps p) =
     ucast (ucast a :: byte) + 256 * ucast (ucast r :: byte) + 65536 * ucast (ucast p :: byte)"
proof -
  have dom: "length (string_bytes ''SUWAPPU-CERT-V1'') = 15"
    by (simp add: string_bytes_def)
  have w4: "be_bytes 4 w ! 3 = ucast w" for w :: u32
    by (simp add: numeral_eq_Suc nth_append)
  have w8: "be_bytes 8 w ! 7 = ucast w" for w :: u64
    by (simp add: numeral_eq_Suc nth_append)
  show ?thesis
    by (simp add: cert_hash_def demo_hash_def cert_preimage_def demo_cert_def last_be_bytes
        nth_append dom w4 w8)
qed
lemma demo_cert_sel [simp]: "c_author (demo_cert a r ps p) = a" "c_round (demo_cert a r ps p) = r" "c_parents (demo_cert a r ps p) = ps"
  by (simp_all add: demo_cert_def)

lemmas demo_store_simps =
  dag_insert_def dag_contains_def bt_contains_get dag_get_def [symmetric]

lemma dag_len_record:
  "dag_get d (cert_hash H c) = None \<Longrightarrow> dag_len (dag_record H d c) = Suc (dag_len d)"
  by (simp add: dag_len_def dag_record_def bt_len_insert dag_get_def bt_contains_get)

section \<open>Properties\<close>

text \<open>C22. Insertion into a well-formed store.  On acceptance the returned hash is the content hash,
  the new store is well formed, maps exactly that hash in addition to the old ones (so it extends the
  old store) and is one certificate larger.  On rejection the error names the violated check: a
  genesis certificate with parents, a parent that is not stored, a parent whose round is not
  smaller, or a certificate that is already stored.\<close>

theorem dag_insert_correct:
  assumes wf: "dag_wf H d"
  shows "case dag_insert H d c of
     Inr (h, d') \<Rightarrow>
       h = cert_hash H c \<and> dag_wf H d' \<and> dag_extends d d' \<and>
       (\<forall>k. dag_get d' k = (if k = h then Some c else dag_get d k)) \<and> dag_len d' = Suc (dag_len d)
   | Inl GenesisWithParents \<Rightarrow> c_round c = 0 \<and> c_parents c \<noteq> []
   | Inl (UnknownParent p) \<Rightarrow> p \<in> set (c_parents c) \<and> dag_get d p = None
   | Inl (NonMonotonicRound r pr) \<Rightarrow>
       r = c_round c \<and> pr \<ge> r \<and> (\<exists>p\<in>set (c_parents c). \<exists>pc. dag_get d p = Some pc \<and> c_round pc = pr)
   | Inl (DuplicateCertificate h) \<Rightarrow> h = cert_hash H c \<and> (\<exists>c'. dag_get d h = Some c')"
proof (cases "dag_insert H d c")
  case (Inr x)
  then obtain h d' where "dag_insert H d c = Inr (h, d')"
    by (cases x) auto
  note ins = this
  have "dag_get d (cert_hash H c) = None" "h = cert_hash H c" "d' = dag_record H d c"
    using ins by (simp_all add: dag_insert_Inr_iff)
  then show ?thesis
    using dag_insert_wf [OF wf ins] dag_insert_extends [OF ins] by (simp add: ins dag_len_record)
next
  case (Inl e)
  show ?thesis
  proof (cases "check_parents d (c_round c) (c_parents c)")
    case None
    with Inl show ?thesis
      by (auto simp: dag_insert_def dag_contains_def bt_contains_get dag_get_def split: if_splits)
  next
    case (Some e')
    with Inl check_parents_SomeD [OF Some] show ?thesis
      by (fastforce simp: dag_insert_def split: if_splits)
  qed
qed

theorem dag_insert_correct_witness:
  "dag_wf demo_hash dag_new \<and>
   (\<exists>d'. dag_insert demo_hash dag_new (demo_cert 1 0 [] 0) = Inr (1, d') \<and> dag_len d' = 1)"
  using dag_insert_correct [of demo_hash dag_new "demo_cert 1 0 [] 0"] dag_wf_new
  by (simp add: demo_store_simps) (simp add: dag_new_def dag_len_def)

text \<open>C23. Linearization of a store built by insertions.  The output holds every inserted
  certificate exactly once and is strictly ascending in (round, author, hash).\<close>

theorem linearize_canonical:
  assumes "insert_all H dag_new cs = Inr d"
  shows "set (linearize d) = cert_hash H ` set cs \<and> distinct (linearize d) \<and>
    sorted_wrt (\<lambda>a b. lin_key d a < lin_key d b) (linearize d)"
proof -
  have wf: "dag_wf H d"
    using dag_wf_new assms by (rule insert_all_wf)
  have "set (linearize d) = cert_hash H ` set cs"
    using insert_all_get [OF assms] by (auto simp: set_linearize [OF wf])
  then show ?thesis
    using linearize_distinct [OF wf] linearize_sorted [OF wf] by blast
qed

theorem linearize_canonical_witness:
  "\<exists>d. insert_all demo_hash dag_new demo_certs = Inr d \<and>
     set (linearize d) = {0, 1, 256, 257} \<and> distinct (linearize d)"
proof -
  obtain d where d: "insert_all demo_hash dag_new demo_certs = Inr d"
    by (simp add: demo_certs_def demo_store_simps)
  then show ?thesis
    using linearize_canonical [OF d] by (auto simp: demo_certs_def)
qed

text \<open>C24. The linear order does not depend on arrival order: two nodes that inserted the same
  certificates, each in an order its store accepted, linearize to the same list.\<close>

theorem linearize_order_independent:
  assumes "insert_all H dag_new cs = Inr d" and "insert_all H dag_new cs' = Inr d'"
    and "set cs = set cs'"
  shows "linearize d = linearize d'"
proof (rule linearize_cong)
  show "dag_wf H d" "dag_wf H d'"
    using assms(1,2) dag_wf_new by (blast intro: insert_all_wf)+
  show "dag_get d h = dag_get d' h" for h
    using insert_all_get [OF assms(1), of h] insert_all_get [OF assms(2), of h] assms(3)
    by (metis dag_get_new not_None_eq)
qed

theorem linearize_order_independent_witness:
  "\<exists>d d'. insert_all demo_hash dag_new demo_certs = Inr d \<and>
     insert_all demo_hash dag_new
       [demo_cert 0 0 [] 0, demo_cert 1 0 [] 0, demo_cert 1 1 [0, 1] 0, demo_cert 0 1 [0, 1] 0] = Inr d' \<and>
     by_round d \<noteq> by_round d' \<and> linearize d = linearize d'"
proof -
  let ?cs' = "[demo_cert 0 0 [] 0, demo_cert 1 0 [] 0, demo_cert 1 1 [0, 1] 0, demo_cert 0 1 [0, 1] 0]"
  obtain d where d: "insert_all demo_hash dag_new demo_certs = Inr d" and r: "round_hashes d 0 = [1, 0]"
    by (simp add: demo_certs_def demo_store_simps)
  obtain d' where d': "insert_all demo_hash dag_new ?cs' = Inr d'" and r': "round_hashes d' 0 = [0, 1]"
    by (simp add: demo_store_simps)
  have "set demo_certs = set ?cs'"
    by (auto simp: demo_certs_def)
  then have "linearize d = linearize d'"
    by (rule linearize_order_independent [OF d d'])
  moreover have "by_round d \<noteq> by_round d'"
    using r r' by (auto simp: round_hashes_def)
  ultimately show ?thesis
    using d d' by blast
qed

text \<open>A signed certificate verifies.  With a signature scheme whose signatures are
  non-empty and verify under the matching public key, signing succeeds for a parsable key, keeps the
  content hash (the signature is outside the preimage), and the result verifies.\<close>

theorem cert_sign_verify:
  assumes "mldsa_correct M pk sk"
  shows "\<exists>c'. cert_sign H M sk c = Some c' \<and> cert_hash H c' = cert_hash H c \<and>
    cert_verify_signature H M pk c'"
proof -
  have hash: "cert_hash H (c\<lparr>c_signature := sg\<rparr>) = cert_hash H c" for sg
    by (simp add: cert_hash_def cert_preimage_def)
  obtain sg where "mldsa_sign M (be_bytes 32 (cert_hash H c)) sk = Inr sg" "sig_bytes sg \<noteq> []"
    "sig_from_bytes M (sig_bytes sg) = Inr sg" "is_ok (mldsa_verify M (be_bytes 32 (cert_hash H c)) sg pk)"
    using mldsa_sign_verify [OF assms] by blast
  then show ?thesis
    by (intro exI [of _ "c\<lparr>c_signature := sig_bytes sg\<rparr>"])
      (simp add: cert_sign_def cert_verify_signature_def hash)
qed

theorem cert_sign_verify_witness:
  "\<exists>c'. cert_sign demo_hash demo_mldsa (SecretKey [1]) (demo_cert 1 0 [] 0) = Some c' \<and>
     cert_hash demo_hash c' = 1 \<and> cert_verify_signature demo_hash demo_mldsa (PublicKey [1]) c'"
  using cert_sign_verify [OF demo_mldsa_correct, of demo_hash "demo_cert 1 0 [] 0"] by simp

end
