(* ===== verification/Commit_Rule.thy ===== *)
theory Commit_Rule
  imports Dag_Store
begin

text \<open>
  The commit rule of \<open>suwappu-consensus/src/commit.rs\<close>: quorum threshold, round-robin leader,
  direct and indirect decision of a leader slot, causal histories and the finalized order.
  \<open>leader\<close> asserts a non-empty committee; the theorems about slots assume \<open>0 < n\<close> where the
  assertion matters.  Rounds are \<open>u64\<close> and \<open>round + 1\<close>, \<open>round + 2\<close> wrap as in a release build.
\<close>

section \<open>Thresholds and leaders\<close>

type_synonym CommitteeSize = u32

definition quorum_threshold :: "CommitteeSize \<Rightarrow> u32" where
  "quorum_threshold n = (if n = 0 then 1 else n - (n - 1) div 3)"

text \<open>\<open>leader\<close> asserts \<open>n > 0\<close>; the properties of decisions below assume it.\<close>

definition leader :: "Round \<Rightarrow> CommitteeSize \<Rightarrow> AuthorityId" where
  "leader r n = ucast (r mod ucast n)"

section \<open>Support\<close>

fun iter_min :: "'a::linorder list \<Rightarrow> 'a option" where
  "iter_min [] = None"
| "iter_min (x # xs) = Some (fold min xs x)"

definition cert_at :: "DagStore \<Rightarrow> Round \<Rightarrow> AuthorityId \<Rightarrow> CertHash option" where
  "cert_at d r a = iter_min (filter (\<lambda>h. author_of d h = a) (round_hashes d r))"

definition parents_of :: "DagStore \<Rightarrow> CertHash \<Rightarrow> CertHash list" where
  "parents_of d h = (case dag_get d h of Some c \<Rightarrow> c_parents c | None \<Rightarrow> [])"

definition supporters :: "DagStore \<Rightarrow> CertHash \<Rightarrow> Round \<Rightarrow> AuthorityId set" where
  "supporters d target r =
     set (map (author_of d) (filter (\<lambda>h. target \<in> set (parents_of d h)) (round_hashes d r)))"

section \<open>Causal history\<close>

text \<open>The queue loop: \<open>seen\<close> is the hash set, kept in visiting order.\<close>

function bfs :: "DagStore \<Rightarrow> CertHash list \<Rightarrow> CertHash list \<Rightarrow> CertHash list" where
  "bfs d seen [] = seen"
| "bfs d seen (h # queue) =
     (if h \<in> set seen then bfs d seen queue
      else bfs d (seen @ [h]) (queue @ parents_of d h))"
  by pat_completeness auto
termination
proof (relation "measures [\<lambda>(d, seen, q). card (UNIV - set seen), \<lambda>(d, seen, q). length q]")
  fix d h queue and seen :: "CertHash list"
  assume "h \<notin> set seen"
  then have "card (UNIV - set (seen @ [h])) < card (UNIV - set seen)"
    by (intro psubset_card_mono) auto
  then show "((d, seen @ [h], queue @ parents_of d h), (d, seen, h # queue))
    \<in> measures [\<lambda>(d, seen, q). card (UNIV - set seen), \<lambda>(d, seen, q). length q]"
    by simp
qed simp_all

definition causal_history :: "DagStore \<Rightarrow> CertHash \<Rightarrow> CertHash list" where
  "causal_history d start = sort_key (lin_key d) (filter (dag_contains d) (bfs d [] [start]))"

section \<open>Decisions\<close>

datatype LeaderStatus = Direct CertHash | Skip | Undecided

definition try_direct_decide :: "DagStore \<Rightarrow> Round \<Rightarrow> CommitteeSize \<Rightarrow> LeaderStatus" where
  "try_direct_decide d r n =
     (case cert_at d r (leader r n) of
        None \<Rightarrow> Undecided
      | Some leader_hash \<Rightarrow>
          (if quorum_threshold n \<le> word_of_nat (card (supporters d leader_hash (r + 1)))
           then Direct leader_hash else Undecided))"

definition try_indirect_decide ::
  "DagStore \<Rightarrow> Round \<Rightarrow> CertHash \<Rightarrow> CommitteeSize \<Rightarrow> LeaderStatus" where
  "try_indirect_decide d target_round anchor n =
     (case cert_at d target_round (leader target_round n) of
        None \<Rightarrow> Skip
      | Some target_hash \<Rightarrow>
          (if target_hash \<in> set (causal_history d anchor) then Direct target_hash else Skip))"

text \<open>The ranges \<open>a..=b\<close> and \<open>0..b\<close> over \<open>u64\<close>.\<close>

definition range_incl :: "u64 \<Rightarrow> u64 \<Rightarrow> u64 list" where
  "range_incl a b = map word_of_nat [unat a..<Suc (unat b)]"

definition range_below :: "u64 \<Rightarrow> u64 list" where
  "range_below b = map word_of_nat [0..<unat b]"

text \<open>The anchor loop of \<open>decide_slot\<close>, with \<open>any_anchor_seen\<close> as its flag.\<close>

fun scan_anchors ::
  "DagStore \<Rightarrow> Round \<Rightarrow> CommitteeSize \<Rightarrow> bool \<Rightarrow> Round list \<Rightarrow> LeaderStatus" where
  "scan_anchors d target_round n any_anchor_seen [] = (if any_anchor_seen then Skip else Undecided)"
| "scan_anchors d target_round n any_anchor_seen (anchor_round # rest) =
     (case try_direct_decide d anchor_round n of
        Direct anchor_hash \<Rightarrow>
          (case try_indirect_decide d target_round anchor_hash n of
             Direct h \<Rightarrow> Direct h
           | _ \<Rightarrow> scan_anchors d target_round n True rest)
      | _ \<Rightarrow> scan_anchors d target_round n any_anchor_seen rest)"

definition decide_slot :: "DagStore \<Rightarrow> Round \<Rightarrow> CommitteeSize \<Rightarrow> LeaderStatus" where
  "decide_slot d target_round n =
     (case try_direct_decide d target_round n of
        Direct h \<Rightarrow> Direct h
      | Skip \<Rightarrow> Skip
      | Undecided \<Rightarrow>
          (case max_round d of
             None \<Rightarrow> Undecided
           | Some m \<Rightarrow> scan_anchors d target_round n False (range_incl (target_round + 2) m)))"

definition commit_leader :: "DagStore \<Rightarrow> Round \<Rightarrow> CommitteeSize \<Rightarrow> CertHash option" where
  "commit_leader d r n = (case decide_slot d r n of Direct h \<Rightarrow> Some h | _ \<Rightarrow> None)"

section \<open>Finalized order\<close>

text \<open>\<open>finalized\<close> with the hash set \<open>included\<close> beside it.\<close>

definition push_new ::
  "CertHash list \<times> CertHash set \<Rightarrow> CertHash \<Rightarrow> CertHash list \<times> CertHash set" where
  "push_new s h = (if h \<in> snd s then s else (fst s @ [h], insert h (snd s)))"

definition finalize_round ::
  "DagStore \<Rightarrow> CommitteeSize \<Rightarrow> CertHash list \<times> CertHash set \<Rightarrow> Round \<Rightarrow> CertHash list \<times> CertHash set"
where
  "finalize_round d n s r =
     (case decide_slot d r n of
        Direct leader_hash \<Rightarrow> foldl push_new s (causal_history d leader_hash)
      | _ \<Rightarrow> s)"

definition finalize :: "DagStore \<Rightarrow> CommitteeSize \<Rightarrow> CertHash list" where
  "finalize d n =
     (case max_round d of
        None \<Rightarrow> []
      | Some m \<Rightarrow> fst (foldl (finalize_round d n) ([], {}) (range_below m)))"

section \<open>Reference notions\<close>

text \<open>Edges from a stored certificate to its parents, and the ancestors of a hash.\<close>

definition parent_rel :: "DagStore \<Rightarrow> (CertHash \<times> CertHash) set" where
  "parent_rel d = {(h, p). p \<in> set (parents_of d h)}"

definition ancestors :: "DagStore \<Rightarrow> CertHash \<Rightarrow> CertHash set" where
  "ancestors d h = (parent_rel d)\<^sup>* `` {h}"

text \<open>At most one certificate by the leader of a round.\<close>

definition single_leader :: "DagStore \<Rightarrow> CommitteeSize \<Rightarrow> Round \<Rightarrow> bool" where
  "single_leader d n r \<longleftrightarrow>
     (\<forall>h1 h2 c1 c2. dag_get d h1 = Some c1 \<longrightarrow> dag_get d h2 = Some c2 \<longrightarrow>
        c_round c1 = r \<longrightarrow> c_round c2 = r \<longrightarrow> c_author c1 = leader r n \<longrightarrow> c_author c2 = leader r n \<longrightarrow>
        h1 = h2)"

text \<open>Every certificate comes after its parents.\<close>

definition parents_first :: "DagStore \<Rightarrow> CertHash list \<Rightarrow> bool" where
  "parents_first d hs \<longleftrightarrow> (\<forall>xs h ys. hs = xs @ h # ys \<longrightarrow> set (parents_of d h) \<subseteq> set xs)"

section \<open>Example stores\<close>

text \<open>Committee of four.  In \<open>late_dag\<close> the leader of round 0 has a single supporter while the
  leader of round 1 is committed; \<open>later_dag\<close> adds three certificates at round 3.\<close>

definition late_certs :: "Certificate list" where
  "late_certs =
     [demo_cert 0 0 [] 0, demo_cert 1 0 [] 0, demo_cert 2 0 [] 0, demo_cert 3 0 [] 0,
      demo_cert 0 1 [0, 1, 2] 0, demo_cert 1 1 [1, 2, 3] 0, demo_cert 2 1 [1, 2, 3] 0, demo_cert 3 1 [1, 2, 3] 0,
      demo_cert 1 2 [256, 257, 258, 259] 0, demo_cert 2 2 [256, 257, 258, 259] 0,
      demo_cert 3 2 [256, 257, 258, 259] 0]"

definition later_certs :: "Certificate list" where
  "later_certs = [demo_cert 1 3 [513, 514, 515] 0, demo_cert 2 3 [513, 514, 515] 0, demo_cert 3 3 [513, 514, 515] 0]"

definition late_dag :: DagStore where
  "late_dag = foldl (dag_record demo_hash) dag_new late_certs"

definition later_dag :: DagStore where
  "later_dag = foldl (dag_record demo_hash) late_dag later_certs"

text \<open>One equivocating leader: two certificates of author 0 at round 0, the first one
  supported by the three others.\<close>

definition backed_certs :: "Certificate list" where
  "backed_certs = [demo_cert 0 0 [] 1, demo_cert 1 1 [65536] 0, demo_cert 2 1 [65536] 0, demo_cert 3 1 [65536] 0]"

definition backed_dag :: DagStore where
  "backed_dag = foldl (dag_record demo_hash) dag_new backed_certs"

section \<open>Quorums\<close>

lemma unat_quorum_threshold:
  assumes "0 < n"
  shows "unat (quorum_threshold n) = unat n - (unat n - 1) div 3"
proof -
  have "unat (n - 1) = unat n - 1"
    using assms by (intro unat_minus_one) simp
  then have div: "unat ((n - 1) div 3) = (unat n - 1) div 3"
    by (simp only: unat_div) simp
  then have "(n - 1) div 3 \<le> n"
    unfolding word_le_nat_alt by linarith
  then show ?thesis
    using assms div by (simp add: quorum_threshold_def unat_sub del: unat_div)
qed

lemma card_below: "card {a :: u32. a < n} = unat n"
proof -
  have "k \<in> unat ` {a. a < n}" if "k < unat n" for k
  proof -
    have "unat (word_of_nat k :: u32) = k"
      using that unsigned_less [of n, where ?'a = nat] by (simp add: unsigned_of_nat take_bit_nat_eq_self)
    then show ?thesis
      using that by (intro image_eqI [of _ _ "word_of_nat k"]) (simp_all add: word_less_nat_alt)
  qed
  then have "unat ` {a. a < n} = {..<unat n}"
    by (auto simp: word_less_nat_alt)
  moreover have "inj_on unat {a :: u32. a < n}"
    by (simp add: inj_on_def word_unat_eq_iff)
  ultimately show ?thesis
    by (metis card_image card_lessThan)
qed

lemma card_inter_ge:
  assumes "finite U" "A \<subseteq> U" "B \<subseteq> U" "q \<le> card A" "q \<le> card B"
  shows "2 * q - card U \<le> card (A \<inter> B)"
proof -
  have "card A + card B = card (A \<union> B) + card (A \<inter> B)"
    using assms(1-3) by (intro card_Un_Int) (auto dest: finite_subset)
  moreover have "card (A \<union> B) \<le> card U"
    using assms(1-3) by (intro card_mono) auto
  ultimately show ?thesis
    using assms(4,5) by linarith
qed

section \<open>Certificates at a slot\<close>

lemma iter_min_Some_iff: "iter_min xs = Some m \<longleftrightarrow> m \<in> set xs \<and> (\<forall>x\<in>set xs. m \<le> x)"
proof (cases xs)
  case (Cons y ys)
  then have "iter_min xs = Some (Min (set xs))"
    using Min.set_eq_fold [of y ys] by (simp only: iter_min.simps)
  then show ?thesis
    using Cons Min_eq_iff [of "set xs" m] by (auto simp only: option.inject)
qed simp

lemma iter_min_None_iff [simp]: "iter_min xs = None \<longleftrightarrow> xs = []"
  by (cases xs) auto

lemma in_round_hashes_iff:
  "dag_wf H d \<Longrightarrow> h \<in> set (round_hashes d r) \<longleftrightarrow> (\<exists>c. dag_get d h = Some c \<and> c_round c = r)"
  by (simp add: dag_wf_def index_in_step_def)

lemma cert_at_Some_iff:
  assumes "dag_wf H d"
  shows "cert_at d r a = Some h \<longleftrightarrow>
    (\<exists>c. dag_get d h = Some c \<and> c_round c = r \<and> c_author c = a) \<and>
    (\<forall>h' c'. dag_get d h' = Some c' \<longrightarrow> c_round c' = r \<longrightarrow> c_author c' = a \<longrightarrow> h \<le> h')"
  by (auto simp: cert_at_def iter_min_Some_iff in_round_hashes_iff [OF assms])

lemma cert_at_stored:
  assumes "dag_wf H d" "cert_at d r a = Some h"
  obtains c where "dag_get d h = Some c" "c_round c = r" "c_author c = a"
  using assms by (auto simp: cert_at_Some_iff)

lemma parents_of_Some [simp]: "dag_get d h = Some c \<Longrightarrow> parents_of d h = c_parents c"
  by (simp add: parents_of_def)

lemma supporters_iff:
  assumes "dag_wf H d"
  shows "a \<in> supporters d t r \<longleftrightarrow>
    (\<exists>h c. dag_get d h = Some c \<and> c_round c = r \<and> c_author c = a \<and> t \<in> set (c_parents c))"
proof
  assume "a \<in> supporters d t r"
  then obtain h where h: "h \<in> set (round_hashes d r)" "t \<in> set (parents_of d h)" "author_of d h = a"
    by (auto simp: supporters_def)
  then obtain c where "dag_get d h = Some c" "c_round c = r"
    by (auto simp: in_round_hashes_iff [OF assms])
  with h show "\<exists>h c. dag_get d h = Some c \<and> c_round c = r \<and> c_author c = a \<and> t \<in> set (c_parents c)"
    by (intro exI [of _ h] exI [of _ c]) simp
next
  assume "\<exists>h c. dag_get d h = Some c \<and> c_round c = r \<and> c_author c = a \<and> t \<in> set (c_parents c)"
  then obtain h c where h: "dag_get d h = Some c" "c_round c = r" "c_author c = a" "t \<in> set (c_parents c)"
    by blast
  then have "h \<in> set (round_hashes d r)"
    by (simp add: in_round_hashes_iff [OF assms])
  with h show "a \<in> supporters d t r"
    by (auto simp: supporters_def intro!: image_eqI [of _ _ h])
qed

lemma finite_supporters [simp]: "finite (supporters d t r)"
  by (simp add: supporters_def)

lemma round_hashes_length: "dag_wf H d \<Longrightarrow> length (round_hashes d r) \<le> dag_len d"
proof -
  assume wf: "dag_wf H d"
  then have "length (round_hashes d r) = card (set (round_hashes d r))"
    by (simp add: dag_wf_def index_in_step_def distinct_card)
  also have "\<dots> \<le> card (set (bt_keys (certs d)))"
    by (rule card_mono) (auto simp: set_bt_keys in_round_hashes_iff [OF wf] dag_get_def)
  finally show ?thesis
    by (simp only: dag_len_def bt_len_keys)
qed

lemma card_supporters: "dag_wf H d \<Longrightarrow> card (supporters d t r) \<le> dag_len d"
proof -
  assume wf: "dag_wf H d"
  have "card (supporters d t r) \<le> length (round_hashes d r)"
    unfolding supporters_def by (rule le_trans [OF card_length]) simp
  with round_hashes_length [OF wf, of r] show ?thesis by linarith
qed

lemma supporters_mono:
  assumes "dag_wf H d" "dag_wf H d'" "dag_extends d d'"
  shows "supporters d t r \<subseteq> supporters d' t r"
  using assms(3) unfolding dag_extends_def subset_iff
  by (simp only: supporters_iff [OF assms(1)] supporters_iff [OF assms(2)]) blast

section \<open>Causal histories\<close>

declare bfs.simps [simp del]

lemma bfs_distinct: "distinct seen \<Longrightarrow> distinct (bfs d seen q)"
  by (induction d seen q rule: bfs.induct) (auto simp: bfs.simps)

lemma rtrancl_Image_step: "R\<^sup>* `` {h} = insert h (R\<^sup>* `` (R `` {h}))"
  by (auto elim: converse_rtranclE intro: converse_rtrancl_into_rtrancl)

lemma rtrancl_Image_closed:
  assumes "R `` S \<subseteq> S \<union> Q"
  shows "R\<^sup>* `` S \<subseteq> S \<union> R\<^sup>* `` Q"
proof -
  have "y \<in> S \<union> R\<^sup>* `` Q" if "(x, y) \<in> R\<^sup>*" "x \<in> S" for x y
    using that
  proof (induction rule: rtrancl_induct)
    case (step y z)
    then show ?case
      using assms by (auto intro: rtrancl_into_rtrancl)
  qed simp
  then show ?thesis by blast
qed

lemma set_bfs:
  "parent_rel d `` set seen \<subseteq> set seen \<union> set q \<Longrightarrow>
    set (bfs d seen q) = set seen \<union> (parent_rel d)\<^sup>* `` set q"
proof (induction d seen q rule: bfs.induct)
  case (2 d seen h q)
  let ?R = "parent_rel d"
  have parents: "?R `` {h} = set (parents_of d h)"
    by (auto simp: parent_rel_def)
  show ?case
  proof (cases "h \<in> set seen")
    case True
    have "?R\<^sup>* `` {h} \<subseteq> set seen \<union> ?R\<^sup>* `` set q"
      using rtrancl_Image_closed [of ?R "set seen" "set q"] 2(3) True by auto
    moreover have "?R\<^sup>* `` set (h # q) = ?R\<^sup>* `` {h} \<union> ?R\<^sup>* `` set q"
      by auto
    ultimately have "set seen \<union> ?R\<^sup>* `` set (h # q) = set seen \<union> ?R\<^sup>* `` set q"
      by blast
    moreover have "?R `` set seen \<subseteq> set seen \<union> set q"
      using 2(3) True by auto
    ultimately show ?thesis
      using 2(1) True by (simp add: bfs.simps)
  next
    case False
    have "?R\<^sup>* `` set (h # q) = insert h (?R\<^sup>* `` set (q @ parents_of d h))"
      using rtrancl_Image_step [of ?R h] by (auto simp: parents)
    moreover have "?R `` set (seen @ [h]) \<subseteq> set (seen @ [h]) \<union> set (q @ parents_of d h)"
      using 2(3) parents by auto
    ultimately show ?thesis
      using 2(2) False by (simp add: bfs.simps)
  qed
qed (simp add: bfs.simps)


lemma set_bfs_start: "set (bfs d [] [h]) = ancestors d h"
  by (simp add: set_bfs ancestors_def)

lemma dag_contains_iff: "dag_contains d h \<longleftrightarrow> (\<exists>c. dag_get d h = Some c)"
  by (simp add: dag_contains_def bt_contains_get dag_get_def not_None_eq)

lemma set_causal_history: "set (causal_history d h) = {a \<in> ancestors d h. \<exists>c. dag_get d a = Some c}"
  by (auto simp: causal_history_def set_bfs_start dag_contains_iff)

lemma sort_history:
  assumes "distinct xs"
  shows "sorted_wrt (\<lambda>a b. lin_key d a < lin_key d b) (sort_key (lin_key d) xs)"
  using assms by (intro sort_key_strict) (auto simp: inj_on_def lin_key_inj)

lemma causal_history_sorted: "sorted_wrt (\<lambda>a b. lin_key d a < lin_key d b) (causal_history d h)"
  unfolding causal_history_def by (intro sort_history) (simp add: bfs_distinct)

lemma causal_history_linearize:
  assumes "dag_wf H d"
  shows "causal_history d h = filter (\<lambda>a. a \<in> ancestors d h) (linearize d)"
proof (rule lin_sorted_unique)
  show "sorted_wrt (\<lambda>a b. lin_key d a < lin_key d b) (filter (\<lambda>a. a \<in> ancestors d h) (linearize d))"
    by (intro sorted_wrt_filter linearize_sorted [OF assms])
qed (auto simp: causal_history_sorted set_causal_history set_linearize [OF assms])

lemma ancestors_stored:
  assumes "dag_wf H d" "a \<in> ancestors d h" "dag_get d h = Some c"
  shows "\<exists>c'. dag_get d a = Some c'"
proof -
  from assms(2) have "(h, a) \<in> (parent_rel d)\<^sup>*"
    by (simp add: ancestors_def)
  then show ?thesis
  proof (induction rule: rtrancl_induct)
    case (step y z)
    then obtain cy where cy: "dag_get d y = Some cy" "z \<in> set (c_parents cy)"
      by (auto simp: parent_rel_def)
    show ?case
      by (rule dag_wf_parent [OF assms(1) cy]) blast
  qed (use assms(3) in simp)
qed

text \<open>Extending the store does not change the ancestors of a stored certificate.\<close>

lemma ancestors_extends:
  assumes wf: "dag_wf H d" and ext: "dag_extends d d'" and h: "dag_get d h = Some c"
  shows "ancestors d' h = ancestors d h"
proof -
  have same: "parents_of d' x = parents_of d x" if "dag_get d x = Some cx" for x cx
    using that ext by (simp add: dag_extends_def)
  have "(h, a) \<in> (parent_rel d')\<^sup>* \<longleftrightarrow> (h, a) \<in> (parent_rel d)\<^sup>*" for a
  proof
    assume "(h, a) \<in> (parent_rel d')\<^sup>*"
    then show "(h, a) \<in> (parent_rel d)\<^sup>*"
    proof (induction rule: rtrancl_induct)
      case (step y z)
      then have "y \<in> ancestors d h" by (simp add: ancestors_def)
      then obtain cy where "dag_get d y = Some cy"
        using ancestors_stored [OF wf _ h] by blast
      with step show ?case
        by (auto simp: parent_rel_def same intro: rtrancl_into_rtrancl)
    qed simp
  next
    assume "(h, a) \<in> (parent_rel d)\<^sup>*"
    then show "(h, a) \<in> (parent_rel d')\<^sup>*"
    proof (induction rule: rtrancl_induct)
      case (step y z)
      then have "y \<in> ancestors d h" by (simp add: ancestors_def)
      then obtain cy where "dag_get d y = Some cy"
        using ancestors_stored [OF wf _ h] by blast
      with step show ?case
        by (auto simp: parent_rel_def same intro: rtrancl_into_rtrancl)
    qed simp
  qed
  then show ?thesis
    by (auto simp: ancestors_def)
qed

lemma causal_history_extends:
  assumes wf: "dag_wf H d" and ext: "dag_extends d d'" and h: "dag_get d h = Some c"
  shows "causal_history d' h = causal_history d h"
proof (rule lin_sorted_unique [of d'])
  note anc = ancestors_extends [OF assms]
  have stored: "\<exists>x. dag_get d a = Some x" if "a \<in> ancestors d h" for a
    using that h by (rule ancestors_stored [OF wf])
  have sub: "\<exists>x. dag_get d a = Some x" if "a \<in> set (causal_history d h)" for a
    using that by (simp add: set_causal_history)
  have key: "lin_key d' a = lin_key d a" if "a \<in> set (causal_history d h)" for a
    using sub [OF that] ext by (auto simp: lin_key_def dag_extends_def)
  show "sorted_wrt (\<lambda>a b. lin_key d' a < lin_key d' b) (causal_history d h)"
    by (rule sorted_wrt_mono_rel [OF _ causal_history_sorted]) (simp add: key)
  show "set (causal_history d' h) = set (causal_history d h)"
    using stored ext by (auto simp: set_causal_history anc dag_extends_def)
qed (rule causal_history_sorted)

section \<open>Decisions under extension of the store\<close>

lemma try_direct_decide_iff:
  "try_direct_decide d r n = Direct h \<longleftrightarrow> cert_at d r (leader r n) = Some h \<and>
     quorum_threshold n \<le> word_of_nat (card (supporters d h (r + 1)))"
  by (auto simp: try_direct_decide_def split: option.split)

lemma try_direct_decide_no_skip: "try_direct_decide d r n \<noteq> Skip"
  by (simp add: try_direct_decide_def split: option.split)

lemma try_indirect_decide_iff:
  "try_indirect_decide d t anchor n = Direct h \<longleftrightarrow>
     cert_at d t (leader t n) = Some h \<and> h \<in> set (causal_history d anchor)"
  by (auto simp: try_indirect_decide_def split: option.split)

lemma scan_anchors_Direct_iff:
  "scan_anchors d t n seen rs = Direct h \<longleftrightarrow>
     (\<exists>a\<in>set rs. \<exists>ah. try_direct_decide d a n = Direct ah \<and> try_indirect_decide d t ah n = Direct h)"
proof (induction rs arbitrary: seen)
  case (Cons a rs)
  show ?case
  proof (cases "\<exists>ah h'. try_direct_decide d a n = Direct ah \<and> try_indirect_decide d t ah n = Direct h'")
    case True
    then obtain ah h' where a: "try_direct_decide d a n = Direct ah" "try_indirect_decide d t ah n = Direct h'"
      by blast
    then have "try_indirect_decide d t x n = Direct h \<Longrightarrow> h = h'" for x
      by (simp add: try_indirect_decide_iff)
    with a show ?thesis
      by auto
  next
    case False
    then show ?thesis
      using Cons.IH by (auto split: LeaderStatus.split)
  qed
qed simp

lemma in_range_incl: "x \<in> set (range_incl a b) \<longleftrightarrow> a \<le> x \<and> x \<le> b"
proof -
  have "x \<in> set (range_incl a b) \<longleftrightarrow> unat x \<in> {unat a..<Suc (unat b)}"
  proof
    assume "x \<in> set (range_incl a b)"
    then obtain k where "x = word_of_nat k" "unat a \<le> k" "k < Suc (unat b)"
      by (auto simp: range_incl_def)
    moreover have "unat (word_of_nat k :: u64) = k"
      using calculation unsigned_less [of b, where ?'a = nat]
      by (simp add: unsigned_of_nat take_bit_nat_eq_self)
    ultimately show "unat x \<in> {unat a..<Suc (unat b)}" by simp
  next
    assume "unat x \<in> {unat a..<Suc (unat b)}"
    then show "x \<in> set (range_incl a b)"
      by (auto simp: range_incl_def intro!: image_eqI [of _ _ "unat x"] simp del: upt_Suc)
  qed
  then show ?thesis
    by (simp add: word_le_nat_alt less_Suc_eq_le)
qed

lemma decide_slot_Direct_iff:
  "decide_slot d t n = Direct h \<longleftrightarrow>
     try_direct_decide d t n = Direct h \<or>
     (try_direct_decide d t n = Undecided \<and>
      (\<exists>m a ah. max_round d = Some m \<and> t + 2 \<le> a \<and> a \<le> m \<and>
         try_direct_decide d a n = Direct ah \<and> try_indirect_decide d t ah n = Direct h))"
  using try_direct_decide_no_skip [of d t n]
  by (auto simp: decide_slot_def scan_anchors_Direct_iff in_range_incl
      split: LeaderStatus.splits option.splits)

lemma decide_slot_cert_at: "decide_slot d t n = Direct h \<Longrightarrow> cert_at d t (leader t n) = Some h"
  by (auto simp: decide_slot_Direct_iff try_direct_decide_iff try_indirect_decide_iff)

text \<open>A certificate just accepted: it takes over its slot when its hash is smaller, nothing refers to it yet, so
  it has no support and is in the history of no other certificate.\<close>

lemma cert_at_replaced:
  assumes wf: "dag_wf H d" and ins: "dag_insert H d c = Inr (h', d')" and at: "cert_at d r a = Some h"
    and "c_author c = a" "c_round c = r" "h' < h"
  shows "cert_at d' r a = Some h'"
proof -
  have "dag_get d' x = (if x = h' then Some c else dag_get d x)" for x
    using ins by (auto simp: dag_insert_Inr_iff)
  moreover have "\<And>x cx. dag_get d x = Some cx \<Longrightarrow> c_round cx = r \<Longrightarrow> c_author cx = a \<Longrightarrow> h \<le> x"
    using at unfolding cert_at_Some_iff [OF wf] by blast
  ultimately show ?thesis
    using assms(4-6) unfolding cert_at_Some_iff [OF dag_insert_wf [OF wf ins]] by (auto intro: less_imp_le order_trans)
qed

lemma fresh_childless:
  assumes wf: "dag_wf H d" and ins: "dag_insert H d c = Inr (h', d')"
  shows "h' \<notin> set (parents_of d' x)"
proof
  assume "h' \<in> set (parents_of d' x)"
  then obtain cx where cx: "dag_get d' x = Some cx" "h' \<in> set (c_parents cx)"
    by (cases "dag_get d' x") (simp_all add: parents_of_def)
  have new: "dag_get d h' = None" "\<forall>p\<in>set (c_parents c). \<exists>pc. dag_get d p = Some pc"
    and get: "dag_get d' x = (if x = h' then Some c else dag_get d x)"
    using ins by (auto simp: dag_insert_Inr_iff)
  show False
  proof (cases "x = h'")
    case True
    with cx get new show False by auto
  next
    case False
    with cx(1) get have "dag_get d x = Some cx" by simp
    from dag_wf_parent [OF wf this cx(2)] new(1) show False by auto
  qed
qed

lemma fresh_not_direct:
  assumes wf: "dag_wf H d" and n: "0 < n" and ins: "dag_insert H d c = Inr (h', d')"
  shows "try_direct_decide d' r n \<noteq> Direct h'"
proof
  assume dec: "try_direct_decide d' r n = Direct h'"
  have "h' \<notin> set (c_parents cx)" if "dag_get d' x = Some cx" for x cx
    using fresh_childless [OF wf ins, of x] that by simp
  then have "supporters d' h' (r + 1) = {}"
    using supporters_iff [OF dag_insert_wf [OF wf ins]] by blast
  then have "quorum_threshold n = 0"
    using dec by (simp add: try_direct_decide_iff)
  moreover have "0 < unat n"
    using n by (simp add: unat_gt_0)
  ultimately show False
    using unat_quorum_threshold [OF n] div_le_dividend [of "unat n - 1" 3] by simp
qed

lemma fresh_history:
  assumes wf: "dag_wf H d" and ins: "dag_insert H d c = Inr (h', d')" and "h' \<in> set (causal_history d' a)"
  shows "a = h'"
proof -
  have "(a, h') \<in> (parent_rel d')\<^sup>*"
    using assms(3) by (simp add: set_causal_history ancestors_def)
  then show ?thesis
    using fresh_childless [OF wf ins] by (cases rule: rtranclE) (auto simp: parent_rel_def)
qed

lemma cert_at_extends:
  assumes "dag_wf H d" "dag_wf H d'" "dag_extends d d'" "single_leader d' n r"
    and "cert_at d r (leader r n) = Some h"
  shows "cert_at d' r (leader r n) = Some h"
proof -
  obtain c where c: "dag_get d' h = Some c" "c_round c = r" "c_author c = leader r n"
    using cert_at_stored [OF assms(1,5)] assms(3) by (metis dag_extends_def)
  moreover have "h \<le> h'" if "dag_get d' h' = Some c'" "c_round c' = r" "c_author c' = leader r n" for h' c'
    using assms(4) c that unfolding single_leader_def by blast
  ultimately show ?thesis
    unfolding cert_at_Some_iff [OF assms(2)] by blast
qed

lemma word_of_nat_le:
  fixes q :: u32
  assumes "q \<le> word_of_nat k" "k \<le> k'" "k' < 2 ^ 32"
  shows "q \<le> word_of_nat k'"
  using assms by (simp add: word_le_nat_alt unsigned_of_nat take_bit_nat_eq_self)

lemma try_direct_decide_extends:
  assumes "dag_wf H d" "dag_wf H d'" "dag_extends d d'" "single_leader d' n r" "dag_len d' < 2 ^ 32"
    and "try_direct_decide d r n = Direct h"
  shows "try_direct_decide d' r n = Direct h"
proof -
  have "card (supporters d h (r + 1)) \<le> card (supporters d' h (r + 1))"
    by (intro card_mono supporters_mono [OF assms(1-3)]) simp
  moreover have "card (supporters d' h (r + 1)) < 2 ^ 32"
    using card_supporters [OF assms(2)] assms(5) by (rule le_less_trans)
  ultimately show ?thesis
    using assms(6) cert_at_extends [OF assms(1-4)] word_of_nat_le
    by (auto simp: try_direct_decide_iff)
qed

lemma max_round_extends:
  assumes "dag_wf H d" "dag_wf H d'" "dag_extends d d'" "max_round d = Some m"
  obtains m' where "max_round d' = Some m'" "m \<le> m'"
proof -
  obtain h c where "dag_get d h = Some c" "c_round c = m"
    using assms(4) unfolding max_round_Some_iff [OF assms(1)] by blast
  then have h: "dag_get d' h = Some c"
    using assms(3) by (simp add: dag_extends_def)
  then obtain m' where m': "max_round d' = Some m'"
    using max_round_None_iff [OF assms(2)] by fastforce
  moreover have "m \<le> m'"
    using m' h \<open>c_round c = m\<close> unfolding max_round_Some_iff [OF assms(2)] by blast
  ultimately show ?thesis by (rule that)
qed

lemma decide_slot_extends:
  assumes wf: "dag_wf H d" and wf': "dag_wf H d'" and ext: "dag_extends d d'"
    and single: "\<And>r. single_leader d' n r" and len: "dag_len d' < 2 ^ 32"
    and dec: "decide_slot d t n = Direct h"
  shows "decide_slot d' t n = Direct h"
proof -
  have direct: "try_direct_decide d r n = Direct x \<Longrightarrow> try_direct_decide d' r n = Direct x" for r x
    using try_direct_decide_extends [OF wf wf' ext single len] .
  have slot: "cert_at d' t (leader t n) = Some h"
    using cert_at_extends [OF wf wf' ext single decide_slot_cert_at [OF dec]] .
  show ?thesis
  proof (cases "try_direct_decide d' t n")
    case (Direct x)
    moreover have "x = h"
      using Direct slot by (simp add: try_direct_decide_iff)
    ultimately show ?thesis
      by (simp add: decide_slot_def)
  next
    case Undecided
    then have "try_direct_decide d t n \<noteq> Direct h"
      using direct by force
    then obtain m a ah where a: "max_round d = Some m" "t + 2 \<le> a" "a \<le> m"
      "try_direct_decide d a n = Direct ah" "try_indirect_decide d t ah n = Direct h"
      using dec unfolding decide_slot_Direct_iff by blast
    obtain m' where m': "max_round d' = Some m'" "m \<le> m'"
      using max_round_extends [OF wf wf' ext a(1)] .
    obtain c where "dag_get d ah = Some c"
      using cert_at_stored [OF wf] a(4) unfolding try_direct_decide_iff by blast
    then have "causal_history d' ah = causal_history d ah"
      by (rule causal_history_extends [OF wf ext])
    then have "try_indirect_decide d' t ah n = Direct h"
      using a(5) slot by (simp add: try_indirect_decide_iff)
    then show ?thesis
      using Undecided a m' direct [OF a(4)] unfolding decide_slot_Direct_iff by (meson order_trans)
  qed (simp add: try_direct_decide_no_skip)
qed

section \<open>The finalized order\<close>

lemma parents_first_Nil [simp]: "parents_first d []"
  by (simp add: parents_first_def)

lemma parents_first_snoc [simp]:
  "parents_first d (hs @ [h]) \<longleftrightarrow> parents_first d hs \<and> set (parents_of d h) \<subseteq> set hs"
proof
  assume "parents_first d (hs @ [h])"
  then show "parents_first d hs \<and> set (parents_of d h) \<subseteq> set hs"
    unfolding parents_first_def by (metis append.assoc append_Cons)
next
  assume "parents_first d hs \<and> set (parents_of d h) \<subseteq> set hs"
  then show "parents_first d (hs @ [h])"
    unfolding parents_first_def
    by (metis append_butlast_last_id append_eq_append_conv2 butlast.simps(2) butlast_append butlast_snoc last.simps last_appendR last_snoc list.distinct(1))
qed

lemma causal_history_closed:
  assumes "dag_wf H d" "h \<in> set (causal_history d s)" "p \<in> set (parents_of d h)"
  shows "p \<in> set (causal_history d s)" and "lin_key d p < lin_key d h"
proof -
  obtain c where h: "h \<in> ancestors d s" "dag_get d h = Some c"
    using assms(2) by (auto simp: set_causal_history)
  then obtain pc where pc: "dag_get d p = Some pc" "c_round pc < c_round c"
    using assms(3) by (auto elim: dag_wf_parent [OF assms(1)])
  have "p \<in> ancestors d s"
    using h(1) assms(3) by (auto simp: ancestors_def parent_rel_def intro: rtrancl_into_rtrancl)
  with pc(1) show "p \<in> set (causal_history d s)"
    by (simp add: set_causal_history)
  show "lin_key d p < lin_key d h"
    using pc h(2) by (simp add: lin_key_def less_prod_def)
qed

lemma causal_history_parents_first: "dag_wf H d \<Longrightarrow> parents_first d (causal_history d s)"
  unfolding parents_first_def
proof (intro allI impI subsetI)
  fix xs h ys p
  assume wf: "dag_wf H d" and eq: "causal_history d s = xs @ h # ys" and p: "p \<in> set (parents_of d h)"
  have "p \<in> set (xs @ h # ys)" and less: "lin_key d p < lin_key d h"
    using causal_history_closed [OF wf _ p, of s] eq by auto
  moreover have "\<forall>y\<in>set ys. lin_key d h < lin_key d y"
    using causal_history_sorted [of d s] eq by (simp add: sorted_wrt_append)
  ultimately show "p \<in> set xs"
    by (auto dest: less_trans)
qed

lemma push_history:
  assumes "parents_first d hs" "parents_first d fin" "distinct fin"
  shows "\<exists>fin'. foldl push_new (fin, set fin) hs = (fin', set fin') \<and> parents_first d fin' \<and>
    distinct fin' \<and> set fin' = set fin \<union> set hs"
  using assms(1)
proof (induction hs rule: rev_induct)
  case (snoc h hs)
  then obtain fin' where fin': "foldl push_new (fin, set fin) hs = (fin', set fin')" "parents_first d fin'"
    "distinct fin'" "set fin' = set fin \<union> set hs"
    by auto
  have "push_new (fin', set fin') h = (if h \<in> set fin' then (fin', set fin') else (fin' @ [h], set (fin' @ [h])))"
    by (simp add: push_new_def)
  moreover have "set (parents_of d h) \<subseteq> set fin'"
    using snoc.prems fin'(4) by auto
  ultimately show ?case
    using fin' by (intro exI [of _ "if h \<in> set fin' then fin' else fin' @ [h]"]) auto
qed (use assms in simp)

lemma in_range_below: "x \<in> set (range_below b) \<longleftrightarrow> x < b"
proof -
  have "x \<in> set (range_below b) \<longleftrightarrow> unat x < unat b"
  proof
    assume "x \<in> set (range_below b)"
    then obtain k where "x = word_of_nat k" "k < unat b"
      by (auto simp: range_below_def)
    moreover have "unat (word_of_nat k :: u64) = k"
      using calculation unsigned_less [of b, where ?'a = nat]
      by (simp add: unsigned_of_nat take_bit_nat_eq_self)
    ultimately show "unat x < unat b" by simp
  qed (auto simp: range_below_def intro!: image_eqI [of _ _ "unat x"])
  then show ?thesis
    by (simp add: word_less_nat_alt)
qed

lemma finalize_fold:
  assumes wf: "dag_wf H d"
  shows "\<exists>fin. foldl (finalize_round d n) ([], {}) rs = (fin, set fin) \<and> parents_first d fin \<and>
    distinct fin \<and> set fin = (\<Union>r\<in>set rs. \<Union>h\<in>{h. decide_slot d r n = Direct h}. set (causal_history d h))"
proof (induction rs rule: rev_induct)
  case (snoc r rs)
  then obtain fin where fin: "foldl (finalize_round d n) ([], {}) rs = (fin, set fin)" "parents_first d fin"
    "distinct fin" "set fin = (\<Union>r\<in>set rs. \<Union>h\<in>{h. decide_slot d r n = Direct h}. set (causal_history d h))"
    by blast
  show ?case
  proof (cases "decide_slot d r n")
    case (Direct h)
    have "finalize_round d n (fin, set fin) r = foldl push_new (fin, set fin) (causal_history d h)"
      by (simp add: finalize_round_def Direct)
    with push_history [OF causal_history_parents_first [OF wf] fin(2,3), of h] fin(1)
    obtain fin' where "foldl (finalize_round d n) ([], {}) (rs @ [r]) = (fin', set fin')"
      "parents_first d fin'" "distinct fin'" "set fin' = set fin \<union> set (causal_history d h)"
      by auto
    then show ?thesis
      using Direct fin(4) by (intro exI [of _ fin']) auto
  qed (use fin in \<open>auto simp: finalize_round_def [of d n _ r]\<close>)
qed simp

section \<open>Evaluating the example stores\<close>

lemma late_insert: "insert_all demo_hash dag_new late_certs = Inr late_dag"
  by (simp add: late_dag_def late_certs_def demo_store_simps)

lemma late_get: "dag_get late_dag h =
   (if h = 515 then Some (demo_cert 3 2 [256, 257, 258, 259] 0)
    else if h = 514 then Some (demo_cert 2 2 [256, 257, 258, 259] 0)
    else if h = 513 then Some (demo_cert 1 2 [256, 257, 258, 259] 0)
    else if h = 259 then Some (demo_cert 3 1 [1, 2, 3] 0)
    else if h = 258 then Some (demo_cert 2 1 [1, 2, 3] 0)
    else if h = 257 then Some (demo_cert 1 1 [1, 2, 3] 0)
    else if h = 256 then Some (demo_cert 0 1 [0, 1, 2] 0)
    else if h = 3 then Some (demo_cert 3 0 [] 0)
    else if h = 2 then Some (demo_cert 2 0 [] 0)
    else if h = 1 then Some (demo_cert 1 0 [] 0)
    else if h = 0 then Some (demo_cert 0 0 [] 0) else None)"
  by (simp add: late_dag_def late_certs_def)

lemma late_rounds: "round_hashes late_dag r =
   (if r = 0 then [0, 1, 2, 3] else if r = 1 then [256, 257, 258, 259] else if r = 2 then [513, 514, 515] else [])"
  by (simp add: late_dag_def late_certs_def)

lemma later_insert: "insert_all demo_hash late_dag later_certs = Inr later_dag"
  by (simp add: later_dag_def later_certs_def demo_store_simps late_get)

lemma later_get: "dag_get later_dag h =
   (if h = 771 then Some (demo_cert 3 3 [513, 514, 515] 0)
    else if h = 770 then Some (demo_cert 2 3 [513, 514, 515] 0)
    else if h = 769 then Some (demo_cert 1 3 [513, 514, 515] 0) else dag_get late_dag h)"
  by (simp add: later_dag_def later_certs_def)

lemma later_rounds: "round_hashes later_dag r = (if r = 3 then [769, 770, 771] else round_hashes late_dag r)"
  by (simp add: later_dag_def later_certs_def late_rounds)

lemma late_max: "max_round late_dag = Some 2"
  by (simp add: late_dag_def late_certs_def max_round_def bt_last_key_def bt_keys_def dag_record_def
      dag_new_def bt_insert.rep_eq)

lemma later_max: "max_round later_dag = Some 3"
  by (simp add: later_dag_def later_certs_def late_dag_def late_certs_def max_round_def bt_last_key_def
      bt_keys_def dag_record_def dag_new_def bt_insert.rep_eq)

lemmas slot_simps =
  cert_at_def supporters_def leader_def quorum_threshold_def author_of_def round_of_def parents_of_def lin_key_def
  range_incl_def range_below_def

lemmas late_simps = slot_simps late_get late_rounds later_get later_rounds late_max later_max

lemma late_direct:
  "try_direct_decide late_dag 0 4 = Undecided" "try_direct_decide late_dag 1 4 = Direct 257"
  "try_direct_decide late_dag 2 4 = Undecided"
  by (simp_all add: try_direct_decide_def late_simps)

lemma later_direct:
  "try_direct_decide later_dag 0 4 = Undecided" "try_direct_decide later_dag 1 4 = Direct 257"
  "try_direct_decide later_dag 2 4 = Direct 514"
  by (simp_all add: try_direct_decide_def late_simps)

lemma late_history: "causal_history late_dag 257 = [1, 2, 3, 257]"
  by (simp add: causal_history_def bfs.simps dag_contains_iff late_simps)

lemma later_history: "causal_history later_dag 514 = [0, 1, 2, 3, 256, 257, 258, 259, 514]"
  by (simp add: causal_history_def bfs.simps dag_contains_iff late_simps)

lemma late_decide: "decide_slot late_dag 0 4 = Undecided" "decide_slot late_dag 1 4 = Direct 257"
  by (simp_all add: decide_slot_def late_direct late_max range_incl_def)

lemma later_decide: "decide_slot later_dag 0 4 = Direct 0"
  by (simp add: decide_slot_def later_direct later_max range_incl_def try_indirect_decide_def later_history
      late_simps del: upt_Suc)

lemma late_wf: "dag_wf demo_hash late_dag"
  using dag_wf_new late_insert by (rule insert_all_wf)

lemma later_wf: "dag_wf demo_hash later_dag"
  using late_wf later_insert by (rule insert_all_wf)

lemma insert_all_len: "insert_all H d cs = Inr d' \<Longrightarrow> dag_len d' = dag_len d + length cs"
  by (induction cs arbitrary: d)
    (auto split: sum.splits prod.splits simp: dag_insert_Inr_iff dag_len_record)

lemma later_len: "dag_len later_dag = 14"
  using insert_all_len [OF late_insert] insert_all_len [OF later_insert]
  by (simp add: late_certs_def later_certs_def dag_len_def dag_new_def)

lemma demo_single:
  assumes "insert_all demo_hash dag_new cs = Inr d" "\<And>c. c \<in> set cs \<Longrightarrow> \<exists>a r ps. c = demo_cert a r ps 0"
  shows "single_leader d n r"
  unfolding single_leader_def
proof (intro allI impI)
  fix h1 h2 c1 c2
  assume "dag_get d h1 = Some c1" "dag_get d h2 = Some c2" and eq: "c_round c1 = r" "c_round c2 = r"
    "c_author c1 = leader r n" "c_author c2 = leader r n"
  then have "cert_hash demo_hash c1 = h1" "cert_hash demo_hash c2 = h2" "c1 \<in> set cs" "c2 \<in> set cs"
    using insert_all_get [OF assms(1)] by auto
  then show "h1 = h2"
    using assms(2) [of c1] assms(2) [of c2] eq by auto
qed

lemma insert_all_append:
  "insert_all H d (xs @ ys) = (case insert_all H d xs of Inl e \<Rightarrow> Inl e | Inr d' \<Rightarrow> insert_all H d' ys)"
  by (induction xs arbitrary: d) (auto split: sum.split)

lemma later_single: "single_leader later_dag 4 r"
proof (rule demo_single)
  show "insert_all demo_hash dag_new (late_certs @ later_certs) = Inr later_dag"
    by (simp add: insert_all_append late_insert later_insert)
qed (auto simp: late_certs_def later_certs_def)

lemma find_sorted:
  assumes "sorted_wrt (\<lambda>a b. k a < k b) xs"
  shows "find P xs = Some x \<longleftrightarrow> x \<in> set xs \<and> P x \<and> (\<forall>y\<in>set xs. P y \<longrightarrow> k x \<le> (k y :: 'b::linorder))"
  using assms
proof (induction xs)
  case (Cons a xs)
  then show ?case
    by (cases "P a") (auto simp: order.strict_implies_order dest: leD)
qed simp

lemma cert_at_linearize:
  assumes wf: "dag_wf H d"
  shows "cert_at d r a = find (\<lambda>h. round_of d h = r \<and> author_of d h = a) (linearize d)"
proof -
  let ?P = "\<lambda>h. round_of d h = r \<and> author_of d h = a"
  have slot: "x \<in> set (linearize d) \<and> ?P x \<longleftrightarrow>
      (\<exists>c. dag_get d x = Some c \<and> c_round c = r \<and> c_author c = a)" for x
    by (cases "dag_get d x") (simp_all add: set_linearize [OF wf])
  have "find ?P (linearize d) = Some h \<longleftrightarrow> (h \<in> set (linearize d) \<and> ?P h) \<and>
      (\<forall>y. y \<in> set (linearize d) \<and> ?P y \<longrightarrow> h \<le> y)" for h
    unfolding find_sorted [OF linearize_sorted [OF wf]] by (auto simp: lin_key_def)
  then have "find ?P (linearize d) = Some h \<longleftrightarrow> cert_at d r a = Some h" for h
    unfolding slot cert_at_Some_iff [OF wf] by blast
  then show ?thesis
    by (cases "cert_at d r a"; cases "find ?P (linearize d)") auto
qed

lemma max_round_linearize:
  assumes wf: "dag_wf H d"
  shows "max_round d = (if linearize d = [] then None else Some (Max (round_of d ` set (linearize d))))"
proof (cases "linearize d = []")
  case True
  then have "{h. dag_get d h \<noteq> None} = {}"
    using set_linearize [OF wf] by simp
  with True show ?thesis
    by (simp add: max_round_None_iff [OF wf])
next
  case False
  let ?R = "round_of d ` set (linearize d)"
  have R: "Max ?R \<in> ?R" "\<forall>x\<in>?R. x \<le> Max ?R"
    using False by auto
  have mem: "x \<in> ?R \<longleftrightarrow> (\<exists>h c. dag_get d h = Some c \<and> c_round c = x)" for x
    by (force simp: set_linearize [OF wf])
  have "max_round d = Some (Max ?R)"
    unfolding max_round_Some_iff [OF wf] using R mem by blast
  with False show ?thesis by simp
qed

lemma backed_get: "dag_get backed_dag h =
   (if h = 259 then Some (demo_cert 3 1 [65536] 0) else if h = 258 then Some (demo_cert 2 1 [65536] 0)
    else if h = 257 then Some (demo_cert 1 1 [65536] 0) else if h = 65536 then Some (demo_cert 0 0 [] 1) else None)"
  by (simp add: backed_dag_def backed_certs_def)

lemma backed_rounds: "round_hashes backed_dag r = (if r = 0 then [65536] else if r = 1 then [257, 258, 259] else [])"
  by (simp add: backed_dag_def backed_certs_def)

lemma small_ranges: "range_below 2 = [0, 1]" "range_below 3 = [0, 1, 2]"
  by (simp_all add: range_below_def upt_rec)

lemma later_finalize_slots:
  "decide_slot later_dag 1 4 = Direct 257" "decide_slot later_dag 2 4 = Direct 514"
  "causal_history later_dag 0 = [0]" "causal_history later_dag 257 = [1, 2, 3, 257]"
  by (simp_all add: decide_slot_def later_direct causal_history_def bfs.simps dag_contains_iff late_simps)

section \<open>Properties\<close>

text \<open>Quorum intersection.  For a committee of \<open>n > 0\<close> members the threshold is between 1 and
  \<open>n\<close>, and any two sets of members that reach it share more than \<open>f = (n - 1) div 3\<close> members, so at
  least one member that is not faulty.\<close>

theorem quorum_intersection:
  assumes "0 < n" "A \<subseteq> {a. a < n}" "B \<subseteq> {a. a < n}"
    and "unat (quorum_threshold n) \<le> card A" "unat (quorum_threshold n) \<le> card B"
  shows "(unat n - 1) div 3 < card (A \<inter> B) \<and> 0 < unat (quorum_threshold n) \<and> quorum_threshold n \<le> n"
proof -
  have q: "unat (quorum_threshold n) = unat n - (unat n - 1) div 3"
    using assms(1) by (rule unat_quorum_threshold)
  have n: "0 < unat n"
    using assms(1) by (simp add: unat_gt_0)
  have "2 * unat (quorum_threshold n) - card {a :: u32. a < n} \<le> card (A \<inter> B)"
    using assms by (intro card_inter_ge) auto
  then have "2 * unat (quorum_threshold n) - unat n \<le> card (A \<inter> B)"
    by (simp only: card_below)
  with q n show ?thesis
    unfolding word_le_nat_alt by linarith
qed

theorem quorum_intersection_witness:
  "unat (quorum_threshold 4) = 3 \<and> (unat (4 :: u32) - 1) div 3 < card ({0, 1, 2} \<inter> {1, 2, 3 :: u32})"
proof -
  have "quorum_threshold 4 = 3"
    by (simp add: quorum_threshold_def)
  moreover have "{0, 1, 2} \<subseteq> {a :: u32. a < 4}" "{1, 2, 3} \<subseteq> {a :: u32. a < 4}"
    by auto
  ultimately show ?thesis
    using quorum_intersection [of 4 "{0, 1, 2}" "{1, 2, 3}"] by simp
qed

text \<open>C20. The breadth-first walk terminates and the causal history of a hash is the part of the
  canonical linearization that is reachable over parent edges.  The order in which the hash set is
  iterated before sorting does not matter: any enumeration of the visited hashes sorts to it.\<close>

theorem causal_history_correct:
  assumes "dag_wf H d"
  shows "causal_history d h = filter (\<lambda>a. a \<in> ancestors d h) (linearize d) \<and>
    (\<forall>seen. distinct seen \<and> set seen = set (bfs d [] [h]) \<longrightarrow>
       sort_key (lin_key d) (filter (dag_contains d) seen) = causal_history d h)"
proof (intro conjI allI impI)
  fix seen
  assume "distinct seen \<and> set seen = set (bfs d [] [h])"
  then show "sort_key (lin_key d) (filter (dag_contains d) seen) = causal_history d h"
    by (intro lin_sorted_unique [of d] sort_history causal_history_sorted)
      (auto simp: causal_history_def)
qed (rule causal_history_linearize [OF assms])

theorem causal_history_correct_witness:
  "dag_wf demo_hash late_dag \<and>
   sort_key (lin_key late_dag) (filter (dag_contains late_dag) [3, 257, 2, 1]) = [1, 2, 3, 257]"
proof -
  have "distinct [3, 257, 2, 1 :: CertHash] \<and> set [3, 257, 2, 1] = set (bfs late_dag [] [257])"
    by (auto simp: bfs.simps late_simps)
  then show ?thesis
    using causal_history_correct [OF late_wf, of 257] late_wf late_history by metis
qed

text \<open>C3. Agreement.  Two nodes whose stores are both contained in a store without leader
  equivocation never commit different certificates for the same slot, they finalize the same causal history for
  it, and every node that has seen both stores commits that certificate too.  With one store for both
  nodes this is finality: a commit survives every extension of the store.\<close>

theorem decide_slot_agreement:
  assumes "dag_wf H d1" "dag_wf H d2" "dag_wf H d" "dag_extends d1 d" "dag_extends d2 d"
    and "\<forall>r. single_leader d n r" "dag_len d < 2 ^ 32"
    and "decide_slot d1 t n = Direct h1" "decide_slot d2 t n = Direct h2" and "0 < n"
  shows "h1 = h2 \<and> causal_history d1 h1 = causal_history d2 h2 \<and> decide_slot d t n = Direct h1"
proof -
  have single: "single_leader d n r" for r
    using assms(6) by blast
  have decided: "decide_slot d t n = Direct h1" "decide_slot d t n = Direct h2"
    by (rule decide_slot_extends [OF assms(1,3,4) single assms(7,8)],
        rule decide_slot_extends [OF assms(2,3,5) single assms(7,9)])
  then have eq: "h1 = h2" by simp
  obtain c1 where c1: "dag_get d1 h1 = Some c1"
    using cert_at_stored [OF assms(1) decide_slot_cert_at [OF assms(8)]] .
  obtain c2 where c2: "dag_get d2 h2 = Some c2"
    using cert_at_stored [OF assms(2) decide_slot_cert_at [OF assms(9)]] .
  have "causal_history d h1 = causal_history d1 h1" "causal_history d h2 = causal_history d2 h2"
    by (rule causal_history_extends [OF assms(1,4) c1], rule causal_history_extends [OF assms(2,5) c2])
  with eq decided(1) show ?thesis by simp
qed

theorem decide_slot_agreement_witness:
  "decide_slot late_dag 1 4 = Direct 257 \<and> decide_slot later_dag 1 4 = Direct 257 \<and>
   causal_history late_dag 257 = causal_history later_dag 257"
proof -
  have "decide_slot later_dag 1 4 = Direct 257"
    by (simp add: decide_slot_def later_direct)
  then show ?thesis
    using decide_slot_agreement [OF late_wf later_wf later_wf insert_all_extends [OF later_insert]
        dag_extends_refl, of 4 1 257 257]
    by (simp add: later_single later_len late_decide)
qed

text \<open>C21. The finalized order lists, without duplicates, exactly the causal histories of the slots
  below the highest round that are decided \<open>Direct\<close>, and every certificate appears after all of
  its parents.\<close>

theorem finalize_parents_first:
  assumes "dag_wf H d" "0 < n"
  shows "distinct (finalize d n) \<and> parents_first d (finalize d n) \<and>
    set (finalize d n) =
      (\<Union>r\<in>{r. \<exists>m. max_round d = Some m \<and> r < m}. \<Union>h\<in>{h. decide_slot d r n = Direct h}. set (causal_history d h))"
proof (cases "max_round d")
  case (Some m)
  have "set (range_below m) = {r. r < m}"
    by (auto simp: in_range_below)
  with finalize_fold [OF assms(1), of n "range_below m"] Some show ?thesis
    by (auto simp: finalize_def)
qed (simp add: finalize_def)

theorem finalize_parents_first_witness:
  "dag_wf demo_hash late_dag \<and> distinct (finalize late_dag 4) \<and> parents_first late_dag (finalize late_dag 4) \<and>
   257 \<in> set (finalize late_dag 4)"
proof -
  have "257 \<in> (\<Union>h\<in>{h. decide_slot late_dag 1 4 = Direct h}. set (causal_history late_dag h))"
    by (simp add: late_decide late_history)
  moreover have "(1 :: u64) \<in> {r. \<exists>m. max_round late_dag = Some m \<and> r < m}"
    by (simp add: late_max)
  ultimately show ?thesis
    using finalize_parents_first [OF late_wf, of 4] late_wf by (simp, blast)
qed

text \<open>The lookups on the commit path agree with the linearization they replaced: the highest
  round is the maximum over the linearization, and the certificate at a slot is the first one the
  linearization lists for it (the smallest hash when the author equivocated).\<close>

theorem index_lookups_match_linearize:
  assumes "insert_all H dag_new cs = Inr d"
  shows "max_round d = (if linearize d = [] then None else Some (Max (round_of d ` set (linearize d)))) \<and>
    cert_at d r a = find (\<lambda>h. round_of d h = r \<and> author_of d h = a) (linearize d)"
  using insert_all_wf [OF dag_wf_new assms] max_round_linearize cert_at_linearize by blast

theorem index_lookups_match_linearize_witness:
  "insert_all demo_hash dag_new late_certs = Inr late_dag \<and>
   find (\<lambda>h. round_of late_dag h = 1 \<and> author_of late_dag h = 2) (linearize late_dag) = Some 258"
  using index_lookups_match_linearize [OF late_insert, of 1 2] late_insert by (simp add: late_simps)

text \<open>C25. An equivocating leader can undo its own commit.  Take any store in which a slot is decided \<open>Direct\<close>,
  by either rule.  When the store then accepts a second certificate of that round by the same leader, with a
  smaller hash, the slot is no longer decided \<open>Direct\<close>, neither with the old certificate nor with the new one.\<close>

theorem equivocation_uncommits:
  assumes "dag_wf H d" "0 < n" "decide_slot d r n = Direct h" "dag_insert H d c = Inr (h', d')"
    and "c_author c = leader r n" "c_round c = r" "h' < h"
  shows "commit_leader d r n = Some h \<and> commit_leader d' r n = None"
proof -
  have at: "cert_at d' r (leader r n) = Some h'"
    by (rule cert_at_replaced [OF assms(1,4) decide_slot_cert_at [OF assms(3)] assms(5-7)])
  have "decide_slot d' r n \<noteq> Direct x" for x
  proof
    assume dec: "decide_slot d' r n = Direct x"
    then have "x = h'"
      using decide_slot_cert_at at by fastforce
    with dec consider "try_direct_decide d' r n = Direct h'"
      | a ah where "try_direct_decide d' a n = Direct ah" "h' \<in> set (causal_history d' ah)"
      unfolding decide_slot_Direct_iff try_indirect_decide_iff by blast
    then show False
      using fresh_not_direct [OF assms(1,2,4)] fresh_history [OF assms(1,4)] by cases blast+
  qed
  then show ?thesis
    using assms(3) by (auto simp: commit_leader_def split: LeaderStatus.split)
qed

theorem equivocation_uncommits_witness:
  "commit_leader backed_dag 0 4 = Some 65536 \<and>
   (\<exists>d'. dag_insert demo_hash backed_dag (demo_cert 0 0 [] 0) = Inr (0, d') \<and> commit_leader d' 0 4 = None)"
proof -
  let ?c = "demo_cert 0 0 [] 0"
  have ins: "dag_insert demo_hash backed_dag ?c = Inr (0, dag_record demo_hash backed_dag ?c)"
    by (simp add: demo_store_simps backed_get)
  have wf: "dag_wf demo_hash backed_dag"
    using insert_all_wf [OF dag_wf_new, of demo_hash backed_certs backed_dag]
    by (simp add: backed_dag_def backed_certs_def demo_store_simps)
  have "decide_slot backed_dag 0 4 = Direct 65536"
    by (simp add: decide_slot_def try_direct_decide_def slot_simps backed_get backed_rounds)
  then show ?thesis
    using equivocation_uncommits [OF wf _ _ ins, of 4 0 65536] ins by (simp add: leader_def)
qed

text \<open>The finalized order is not append-only.  Without any equivocation, a store can finalize
  a sequence starting with certificate 1 and, after three more certificates, finalize a sequence
  starting with certificate 0: a slot that was undecided resolves and its history moves in front.\<close>

theorem finalize_not_append_only:
  "\<exists>d d'. insert_all demo_hash dag_new late_certs = Inr d \<and> insert_all demo_hash d later_certs = Inr d' \<and>
     (\<forall>r. single_leader d' 4 r) \<and> finalize d 4 = [1, 2, 3, 257] \<and> \<not> (\<exists>ys. finalize d' 4 = finalize d 4 @ ys)"
proof -
  have "finalize late_dag 4 = [1, 2, 3, 257]"
    by (simp add: finalize_def late_max small_ranges finalize_round_def late_decide late_history push_new_def)
  moreover have "finalize later_dag 4 = [0, 1, 2, 3, 257, 256, 258, 259, 514]"
    by (simp add: finalize_def later_max small_ranges finalize_round_def later_decide later_finalize_slots
        later_history push_new_def)
  ultimately show ?thesis
    using late_insert later_insert later_single by (intro exI [of _ late_dag] exI [of _ later_dag]) simp
qed

end
