(* ===== verification/Joint_Quorum.thy ===== *)
theory Joint_Quorum
  imports Commit_Rule
begin

text \<open>
  The joint-quorum gate of \<open>suwappu-consensus/src/joint.rs\<close>: the validator stake table, votes, the
  stake-weighted quorum, and the gate that commits a certificate only when the authority commit rule
  and the validator quorum agree on it.  Stakes are \<open>u128\<close>; sums and the product \<open>2 * total\<close> wrap, so
  the theorems that compare stakes state the bound under which they do not.
\<close>

type_synonym ValidatorId = u32
type_synonym Stake = u128

record StakeTable =
  weights :: "(ValidatorId, Stake) btmap"

definition stake_new :: StakeTable where
  "stake_new = \<lparr>weights = bt_empty\<rparr>"

definition stake_insert :: "ValidatorId \<Rightarrow> Stake \<Rightarrow> StakeTable \<Rightarrow> StakeTable" where
  "stake_insert i s t = t\<lparr>weights := bt_insert i s (weights t)\<rparr>"

definition stake_from_entries :: "(ValidatorId \<times> Stake) list \<Rightarrow> StakeTable" where
  "stake_from_entries es = foldl (\<lambda>t (i, w). stake_insert i w t) stake_new es"

definition stake_remove :: "ValidatorId \<Rightarrow> StakeTable \<Rightarrow> Stake option \<times> StakeTable" where
  "stake_remove i t = (bt_get (weights t) i, t\<lparr>weights := bt_remove i (weights t)\<rparr>)"

definition stake_total :: "StakeTable \<Rightarrow> Stake" where
  "stake_total t = sum_list (bt_values (weights t))"

definition stake_weight :: "StakeTable \<Rightarrow> ValidatorId \<Rightarrow> Stake" where
  "stake_weight t i = unwrap_or 0 (bt_get (weights t) i)"

definition stake_ids :: "StakeTable \<Rightarrow> ValidatorId list" where
  "stake_ids t = bt_keys (weights t)"

record Vote =
  v_validator :: ValidatorId
  v_candidate :: CertHash

definition validator_quorum_threshold :: "StakeTable \<Rightarrow> Stake" where
  "validator_quorum_threshold t = (2 * stake_total t) div 3 + 1"

text \<open>The loop of \<open>voting_stake\<close>, with the set of counted validators and the running total.\<close>

fun count_votes :: "StakeTable \<Rightarrow> CertHash \<Rightarrow> ValidatorId set \<Rightarrow> Stake \<Rightarrow> Vote list \<Rightarrow> Stake" where
  "count_votes t candidate counted running [] = running"
| "count_votes t candidate counted running (v # vs) =
     (if v_candidate v = candidate \<and> v_validator v \<notin> counted
      then count_votes t candidate (insert (v_validator v) counted) (running + stake_weight t (v_validator v)) vs
      else count_votes t candidate counted running vs)"

definition voting_stake :: "StakeTable \<Rightarrow> CertHash \<Rightarrow> Vote list \<Rightarrow> Stake" where
  "voting_stake t candidate votes = count_votes t candidate {} 0 votes"

definition validator_quorum_met :: "StakeTable \<Rightarrow> CertHash \<Rightarrow> Vote list \<Rightarrow> bool" where
  "validator_quorum_met t candidate votes \<longleftrightarrow>
     validator_quorum_threshold t \<le> voting_stake t candidate votes"

definition joint_commit ::
  "DagStore \<Rightarrow> Round \<Rightarrow> CommitteeSize \<Rightarrow> StakeTable \<Rightarrow> Vote list \<Rightarrow> CertHash option" where
  "joint_commit d r committee t votes =
     (case commit_leader d r committee of
        None \<Rightarrow> None
      | Some candidate \<Rightarrow> (if validator_quorum_met t candidate votes then Some candidate else None))"

definition support_at :: "DagStore \<Rightarrow> CertHash \<Rightarrow> Round \<Rightarrow> AuthorityId set" where
  "support_at d cand r =
     set (map (author_of d) (filter (\<lambda>h. dag_contains d h \<and> round_of d h = r \<and> cand \<in> set (parents_of d h))
       (linearize d)))"

definition authority_equivocators :: "DagStore \<Rightarrow> CertHash \<Rightarrow> CertHash \<Rightarrow> Round \<Rightarrow> AuthorityId set" where
  "authority_equivocators d cand_a cand_b r = support_at d cand_a r \<inter> support_at d cand_b r"

definition voters_for :: "CertHash \<Rightarrow> Vote list \<Rightarrow> ValidatorId set" where
  "voters_for cand votes = set (map v_validator (filter (\<lambda>v. v_candidate v = cand) votes))"

definition validator_double_vote_stake :: "StakeTable \<Rightarrow> CertHash \<Rightarrow> CertHash \<Rightarrow> Vote list \<Rightarrow> Stake" where
  "validator_double_vote_stake t cand_a cand_b votes =
     sum (stake_weight t) (voters_for cand_a votes \<inter> voters_for cand_b votes)"

section \<open>Reference notions\<close>

text \<open>The total stake without wrap-around, and the committee of a store.\<close>

definition stake_nat :: "StakeTable \<Rightarrow> nat" where
  "stake_nat t = (\<Sum>i\<in>set (stake_ids t). unat (stake_weight t i))"

definition authors_below :: "DagStore \<Rightarrow> CommitteeSize \<Rightarrow> bool" where
  "authors_below d n \<longleftrightarrow> (\<forall>h c. dag_get d h = Some c \<longrightarrow> c_author c < n)"

text \<open>A view that conflicts with \<open>backed_dag\<close>, and a store that holds both.\<close>

definition rival_certs :: "Certificate list" where
  "rival_certs = [demo_cert 0 0 [] 0, demo_cert 1 1 [0] 1, demo_cert 2 1 [0] 1, demo_cert 3 1 [0] 1]"

definition rival_dag :: DagStore where
  "rival_dag = foldl (dag_record demo_hash) dag_new rival_certs"

definition both_dag :: DagStore where
  "both_dag = foldl (dag_record demo_hash) dag_new (backed_certs @ rival_certs)"

section \<open>Stake sums\<close>

lemma unat_sum_words:
  fixes f :: "'b \<Rightarrow> 'a::len word"
  assumes "finite A" "(\<Sum>x\<in>A. unat (f x)) < 2 ^ LENGTH('a)"
  shows "unat (sum f A) = (\<Sum>x\<in>A. unat (f x))"
  using assms
proof (induction A)
  case (insert x A)
  then show ?case
    by (simp add: unat_plus_no_overflow)
qed simp

lemma stake_weight_absent: "i \<notin> set (stake_ids t) \<Longrightarrow> stake_weight t i = 0"
  by (simp add: stake_weight_def stake_ids_def set_bt_keys)

lemma stake_total_sum: "stake_total t = (\<Sum>i\<in>set (stake_ids t). stake_weight t i)"
proof -
  have "bt_values (weights t) = map (stake_weight t) (stake_ids t)"
    by (auto simp: bt_values_def stake_ids_def bt_keys_def stake_weight_def bt.entries_get)
  then show ?thesis
    by (simp add: stake_total_def sum_list_distinct_conv_sum_set stake_ids_def bt_keys_distinct)
qed

lemma stake_total_nat: "stake_nat t < 2 ^ 128 \<Longrightarrow> unat (stake_total t) = stake_nat t"
  unfolding stake_total_sum stake_nat_def by (subst unat_sum_words) simp_all

lemma sum_weights_le:
  assumes "finite A"
  shows "(\<Sum>i\<in>A. unat (stake_weight t i)) \<le> stake_nat t"
proof -
  have "(\<Sum>i\<in>A. unat (stake_weight t i)) = (\<Sum>i\<in>A \<inter> set (stake_ids t). unat (stake_weight t i))"
    using assms by (intro sum.mono_neutral_right) (auto simp: stake_weight_absent)
  also have "\<dots> \<le> stake_nat t"
    unfolding stake_nat_def by (intro sum_mono2) auto
  finally show ?thesis .
qed

lemma unat_sum_weights:
  assumes "finite A" "stake_nat t < 2 ^ 128"
  shows "unat (sum (stake_weight t) A) = (\<Sum>i\<in>A. unat (stake_weight t i))"
  using sum_weights_le [OF assms(1), of t] assms by (intro unat_sum_words) simp_all

lemma finite_voters [simp]: "finite (voters_for c votes)"
  by (simp add: voters_for_def)

lemma count_votes_sum:
  "finite counted \<Longrightarrow>
   count_votes t cand counted running votes = running + sum (stake_weight t) (voters_for cand votes - counted)"
proof (induction votes arbitrary: counted running)
  case (Cons v vs)
  show ?case
  proof (cases "v_candidate v = cand \<and> v_validator v \<notin> counted")
    case True
    then have "voters_for cand (v # vs) - counted =
        insert (v_validator v) (voters_for cand vs - insert (v_validator v) counted)"
      by (auto simp: voters_for_def)
    with True Cons show ?thesis
      by (simp add: add.assoc)
  next
    case False
    then have "voters_for cand (v # vs) - counted = voters_for cand vs - counted"
      by (auto simp: voters_for_def)
    with False Cons show ?thesis by auto
  qed
qed (simp add: voters_for_def)

lemma voting_stake_sum: "voting_stake t cand votes = sum (stake_weight t) (voters_for cand votes)"
  by (simp add: voting_stake_def count_votes_sum)

lemma validator_quorum_met_nat:
  assumes "2 * stake_nat t < 2 ^ 128"
  shows "validator_quorum_met t cand votes \<longleftrightarrow>
    2 * stake_nat t < 3 * (\<Sum>i\<in>voters_for cand votes. unat (stake_weight t i))"
proof -
  have total: "unat (2 * stake_total t) = 2 * stake_nat t"
    using assms stake_total_nat [of t] by (simp add: unat_word_ariths)
  have "unat ((2 * stake_total t) div 3) = 2 * stake_nat t div 3"
    by (simp only: unat_div total) simp
  then have "unat (validator_quorum_threshold t) = 2 * stake_nat t div 3 + 1"
    unfolding validator_quorum_threshold_def using assms
    by (subst unat_plus_no_overflow) simp_all
  then show ?thesis
    using assms unfolding validator_quorum_met_def voting_stake_sum word_le_nat_alt
    by (subst unat_sum_weights) (simp_all, linarith)
qed

lemma support_at_supporters:
  assumes "dag_wf H d"
  shows "support_at d cand r = supporters d cand r"
proof -
  have "set (filter (\<lambda>h. dag_contains d h \<and> round_of d h = r \<and> cand \<in> set (parents_of d h)) (linearize d)) =
      set (filter (\<lambda>h. cand \<in> set (parents_of d h)) (round_hashes d r))"
    by (auto simp: set_linearize [OF assms] in_round_hashes_iff [OF assms] dag_contains_iff)
  then show ?thesis
    by (simp add: support_at_def supporters_def)
qed

lemma unat_quorum_le_card:
  assumes "quorum_threshold n \<le> word_of_nat k"
  shows "unat (quorum_threshold n) \<le> k"
proof -
  have "unat (word_of_nat k :: u32) \<le> k"
    by (simp add: unsigned_of_nat)
  with assms show ?thesis
    unfolding word_le_nat_alt by linarith
qed

lemma supporters_below: "dag_wf H d \<Longrightarrow> authors_below d n \<Longrightarrow> supporters d t r \<subseteq> {a. a < n}"
  using supporters_iff [of H d] by (auto simp: authors_below_def)

lemma direct_quorum_extends:
  assumes "dag_wf H d1" "dag_wf H d" "dag_extends d1 d" "try_direct_decide d1 r n = Direct h"
  shows "unat (quorum_threshold n) \<le> card (supporters d h (r + 1))"
proof -
  have "unat (quorum_threshold n) \<le> card (supporters d1 h (r + 1))"
    using assms(4) by (intro unat_quorum_le_card) (simp add: try_direct_decide_iff)
  also have "\<dots> \<le> card (supporters d h (r + 1))"
    by (intro card_mono supporters_mono [OF assms(1-3)]) simp
  finally show ?thesis .
qed

lemma voters_mono: "set va \<subseteq> set votes \<Longrightarrow> voters_for c va \<subseteq> voters_for c votes"
  by (auto simp: voters_for_def)

lemma double_vote_bound:
  assumes bound: "2 * stake_nat t < 2 ^ 128"
    and a: "validator_quorum_met t a va" and b: "validator_quorum_met t b vb"
  shows "stake_nat t < 3 * unat (validator_double_vote_stake t a b (va @ vb))"
proof -
  let ?w = "\<lambda>i. unat (stake_weight t i)"
  let ?A = "voters_for a (va @ vb)" and ?B = "voters_for b (va @ vb)"
  have "sum ?w (voters_for a va) \<le> sum ?w ?A" "sum ?w (voters_for b vb) \<le> sum ?w ?B"
    by (intro sum_mono2 voters_mono; simp)+
  moreover have "sum ?w ?A + sum ?w ?B = sum ?w (?A \<union> ?B) + sum ?w (?A \<inter> ?B)"
    by (simp add: sum.union_inter)
  moreover have "sum ?w (?A \<union> ?B) \<le> stake_nat t"
    by (rule sum_weights_le) simp
  moreover have "unat (validator_double_vote_stake t a b (va @ vb)) = sum ?w (?A \<inter> ?B)"
    unfolding validator_double_vote_stake_def using bound by (intro unat_sum_weights) simp_all
  ultimately show ?thesis
    using a b unfolding validator_quorum_met_nat [OF bound] by linarith
qed

lemma joint_commit_Some_iff:
  "joint_commit d r n t votes = Some h \<longleftrightarrow> decide_slot d r n = Direct h \<and> validator_quorum_met t h votes"
  by (auto simp: joint_commit_def commit_leader_def split: option.split LeaderStatus.split)

section \<open>Example of a split\<close>

lemma insert_all_subset:
  assumes "insert_all H dag_new cs = Inr d" "insert_all H dag_new cs' = Inr d'" "set cs \<subseteq> set cs'"
  shows "dag_extends d d'"
  using assms(3) insert_all_get [OF assms(1)] insert_all_get [OF assms(2)]
  by (auto simp: dag_extends_def)

lemma backed_insert: "insert_all demo_hash dag_new backed_certs = Inr backed_dag"
  by (simp add: backed_dag_def backed_certs_def demo_store_simps)

lemma rival_insert: "insert_all demo_hash dag_new rival_certs = Inr rival_dag"
  by (simp add: rival_dag_def rival_certs_def demo_store_simps)

lemma both_insert: "insert_all demo_hash dag_new (backed_certs @ rival_certs) = Inr both_dag"
  by (simp add: both_dag_def backed_certs_def rival_certs_def demo_store_simps)

lemma backed_direct: "try_direct_decide backed_dag 0 4 = Direct 65536"
  by (simp add: try_direct_decide_def slot_simps backed_get backed_rounds)

lemma rival_direct: "try_direct_decide rival_dag 0 4 = Direct 0"
  by (simp add: try_direct_decide_def slot_simps) (simp add: rival_dag_def rival_certs_def quorum_threshold_def supporters_def author_of_def parents_of_def)

section \<open>Properties\<close>

text \<open>C7. Joint-quorum safety, validator leg.  Two joint commits against the same stake table, by
  any two nodes, at any rounds and over any two vote sets, imply that the validators who voted for
  both certificates hold more than a third of the stake.  The bound excludes the wrap-around of
  \<open>2 * total\<close>.\<close>

theorem joint_commit_conflict_stake:
  assumes "2 * stake_nat t < 2 ^ 128"
    and "joint_commit d1 r1 n t votes1 = Some a" and "joint_commit d2 r2 n t votes2 = Some b" and "0 < n"
  shows "unat (stake_total t) < 3 * unat (validator_double_vote_stake t a b (votes1 @ votes2))"
  using double_vote_bound [OF assms(1)] assms stake_total_nat [of t] by (auto simp: joint_commit_Some_iff)

theorem joint_commit_conflict_stake_witness:
  "joint_commit backed_dag 0 4 (stake_from_entries [(7, 10)]) [\<lparr>v_validator = 7, v_candidate = 65536\<rparr>] = Some 65536 \<and>
   joint_commit later_dag 0 4 (stake_from_entries [(7, 10)]) [\<lparr>v_validator = 7, v_candidate = 0\<rparr>] = Some 0 \<and>
   10 < 3 * unat (validator_double_vote_stake (stake_from_entries [(7, 10)]) 65536 0
     [\<lparr>v_validator = 7, v_candidate = 65536\<rparr>, \<lparr>v_validator = 7, v_candidate = 0\<rparr>])"
proof -
  let ?t = "stake_from_entries [(7, 10)]"
  let ?v = "[\<lparr>v_validator = 7, v_candidate = 65536\<rparr>]" and ?u = "[\<lparr>v_validator = 7, v_candidate = 0\<rparr>]"
  have keys: "bt_keys (bt_insert 7 (10 :: u128) bt_empty) = [7 :: u32]"
    by (simp add: bt_keys_def bt_insert.rep_eq)
  have w: "weights ?t = bt_insert 7 10 bt_empty"
    by (simp add: stake_from_entries_def stake_insert_def stake_new_def)
  have total: "stake_total ?t = 10"
    by (simp add: stake_total_def bt_values_def w bt_insert.rep_eq)
  have nat: "stake_nat ?t = 10"
    by (simp add: stake_nat_def stake_ids_def stake_weight_def w keys)
  have "validator_quorum_met ?t 65536 ?v" "validator_quorum_met ?t 0 ?u"
    by (simp_all add: validator_quorum_met_def validator_quorum_threshold_def total voting_stake_def
        stake_weight_def w)
  then have "joint_commit backed_dag 0 4 ?t ?v = Some 65536" "joint_commit later_dag 0 4 ?t ?u = Some 0"
    by (simp_all add: joint_commit_Some_iff backed_direct decide_slot_def later_decide [unfolded decide_slot_def])
  then show ?thesis
    using joint_commit_conflict_stake [of ?t backed_dag 0 4 ?v 65536 later_dag 0 ?u 0] nat total by simp
qed

text \<open>C8. Authority leg.  If two nodes directly commit different certificates \<open>a\<close> and \<open>b\<close> for the same
  round, then in any store that contains both views, with authors below \<open>n\<close>, more than
  \<open>f = (n - 1) div 3\<close> authorities support both, and \<open>a\<close> and \<open>b\<close> are two certificates of the leader
  itself for that round.\<close>

theorem direct_conflict_equivocators:
  assumes "0 < n" "dag_wf H d1" "dag_wf H d2" "dag_wf H d" "dag_extends d1 d" "dag_extends d2 d"
    and "authors_below d n" "try_direct_decide d1 r n = Direct a" "try_direct_decide d2 r n = Direct b"
  shows "(unat n - 1) div 3 < card (authority_equivocators d a b (r + 1)) \<and>
    author_of d a = leader r n \<and> author_of d b = leader r n \<and> round_of d a = r \<and> round_of d b = r"
proof -
  let ?q = "unat (quorum_threshold n)"
  have "2 * ?q - card {x :: u32. x < n} \<le> card (supporters d a (r + 1) \<inter> supporters d b (r + 1))"
    using direct_quorum_extends [OF assms(2,4,5,8)] direct_quorum_extends [OF assms(3,4,6,9)]
      supporters_below [OF assms(4,7)] by (intro card_inter_ge) simp_all
  then have "2 * ?q - unat n \<le> card (authority_equivocators d a b (r + 1))"
    by (simp only: card_below authority_equivocators_def support_at_supporters [OF assms(4)])
  moreover have "?q = unat n - (unat n - 1) div 3" "0 < unat n"
    using assms(1) by (simp_all add: unat_quorum_threshold unat_gt_0)
  moreover obtain ca where "dag_get d1 a = Some ca" "c_round ca = r" "c_author ca = leader r n"
    using assms(8) cert_at_stored [OF assms(2)] unfolding try_direct_decide_iff by blast
  moreover obtain cb where "dag_get d2 b = Some cb" "c_round cb = r" "c_author cb = leader r n"
    using assms(9) cert_at_stored [OF assms(3)] unfolding try_direct_decide_iff by blast
  ultimately show ?thesis
    using assms(5,6) unfolding dag_extends_def by force
qed

theorem direct_conflict_equivocators_witness:
  "try_direct_decide backed_dag 0 4 = Direct 65536 \<and> try_direct_decide rival_dag 0 4 = Direct 0 \<and>
   1 < card (authority_equivocators both_dag 65536 0 1)"
proof -
  have ext: "dag_extends backed_dag both_dag" "dag_extends rival_dag both_dag"
    by (rule insert_all_subset [OF backed_insert both_insert], simp,
        rule insert_all_subset [OF rival_insert both_insert], simp)
  have wf: "dag_wf demo_hash backed_dag" "dag_wf demo_hash rival_dag" "dag_wf demo_hash both_dag"
    by (rule insert_all_wf [OF dag_wf_new], rule backed_insert rival_insert both_insert)+
  have "c_author c < 4" if "dag_get both_dag h = Some c" for h c
    using that insert_all_get [OF both_insert, of h c] by (auto simp: backed_certs_def rival_certs_def)
  then have "authors_below both_dag 4"
    by (simp add: authors_below_def)
  then show ?thesis
    using direct_conflict_equivocators [OF _ wf ext, of 4 0 65536 0] by (simp add: backed_direct rival_direct)
qed

end
