(* ===== verification/Equivocation.thy ===== *)
theory Equivocation
  imports Joint_Quorum
begin

text \<open>
  Equivocation detection, \<open>suwappu-consensus/src/equivocation.rs\<close>: certificates are grouped by
  (author, round) and votes by validator in ordered maps; a group with two different entries yields
  a proof with its two smallest hashes.
\<close>

record EquivocationProof =
  ep_author :: AuthorityId
  ep_round :: Round
  ep_cert_a :: CertHash
  ep_cert_b :: CertHash

record ValidatorEquivocationProof =
  vp_validator :: ValidatorId
  vp_candidate_a :: CertHash
  vp_candidate_b :: CertHash

text \<open>\<open>buckets.entry(key).or_default()\<close> followed by an update of the entry.\<close>

definition bucket :: "('x \<Rightarrow> 'k::linorder) \<Rightarrow> ('v list \<Rightarrow> 'x \<Rightarrow> 'v list) \<Rightarrow> ('k, 'v list) btmap \<Rightarrow> 'x \<Rightarrow> ('k, 'v list) btmap"
where
  "bucket key add m x = bt_insert (key x) (add (unwrap_or [] (bt_get m (key x))) x) m"

definition authority_buckets :: "DagStore \<Rightarrow> (AuthorityId \<times> Round, CertHash list) btmap" where
  "authority_buckets d =
     foldl (bucket (\<lambda>h. (author_of d h, round_of d h)) (\<lambda>hs h. hs @ [h])) bt_empty
       (filter (dag_contains d) (linearize d))"

definition detect_authority_equivocation :: "DagStore \<Rightarrow> EquivocationProof list" where
  "detect_authority_equivocation d =
     map (\<lambda>((author, r), hashes).
            \<lparr>ep_author = author, ep_round = r, ep_cert_a = sort hashes ! 0, ep_cert_b = sort hashes ! 1\<rparr>)
       (filter (\<lambda>(_, hashes). 2 \<le> length hashes) (bt_entries (authority_buckets d)))"

definition add_candidate :: "CertHash list \<Rightarrow> Vote \<Rightarrow> CertHash list" where
  "add_candidate cs v = (if v_candidate v \<in> set cs then cs else cs @ [v_candidate v])"

definition validator_buckets :: "Vote list \<Rightarrow> (ValidatorId, CertHash list) btmap" where
  "validator_buckets votes = foldl (bucket v_validator add_candidate) bt_empty votes"

definition detect_validator_double_vote :: "Vote list \<Rightarrow> ValidatorEquivocationProof list" where
  "detect_validator_double_vote votes =
     map (\<lambda>(validator, candidates).
            \<lparr>vp_validator = validator, vp_candidate_a = sort candidates ! 0, vp_candidate_b = sort candidates ! 1\<rparr>)
       (filter (\<lambda>(_, candidates). 2 \<le> length candidates) (bt_entries (validator_buckets votes)))"

section \<open>Reference notions\<close>

text \<open>The stored certificates of an author at a round; the candidates a validator voted for; and the
  two smallest elements of a set.\<close>

definition slot_certs :: "DagStore \<Rightarrow> AuthorityId \<Rightarrow> Round \<Rightarrow> CertHash set" where
  "slot_certs d a r = {h. \<exists>c. dag_get d h = Some c \<and> c_author c = a \<and> c_round c = r}"

definition voted_for :: "Vote list \<Rightarrow> ValidatorId \<Rightarrow> CertHash set" where
  "voted_for votes v = v_candidate ` {x \<in> set votes. v_validator x = v}"

definition smallest_two :: "'a::linorder \<Rightarrow> 'a \<Rightarrow> 'a set \<Rightarrow> bool" where
  "smallest_two a b S \<longleftrightarrow> a < b \<and> a \<in> S \<and> b \<in> S \<and> (\<forall>x\<in>S. x = a \<or> b \<le> x)"

definition slot_list :: "DagStore \<Rightarrow> AuthorityId \<Rightarrow> Round \<Rightarrow> CertHash list" where
  "slot_list d a r = filter (\<lambda>h. author_of d h = a \<and> round_of d h = r) (linearize d)"

section \<open>Grouping\<close>

lemma bucket_get:
  "bt_get (foldl (bucket key add) bt_empty xs) k =
     (let ys = filter (\<lambda>x. key x = k) xs in if ys = [] then None else Some (foldl add [] ys))"
proof (induction xs rule: rev_induct)
  case (snoc x xs)
  then show ?case
    by (auto simp: bucket_def [of key add _ x] Let_def)
qed simp

lemma sort_smallest_two:
  assumes "distinct xs" "2 \<le> length (xs :: 'a::linorder list)"
  shows "smallest_two (sort xs ! 0) (sort xs ! 1) (set xs)"
proof -
  obtain a b zs where s: "sort xs = a # b # zs"
    using assms(2) by (metis One_nat_def Suc_1 Suc_le_length_iff length_sort)
  have "sorted (a # b # zs)" "distinct (a # b # zs)"
    using assms(1) s by (metis sorted_sort, metis distinct_sort)
  moreover have "set xs = set (a # b # zs)"
    using s by (metis set_sort)
  ultimately show ?thesis
    using s by (auto simp: smallest_two_def)
qed

lemma two_elements: "x \<in> set xs \<Longrightarrow> y \<in> set xs \<Longrightarrow> x \<noteq> y \<Longrightarrow> 2 \<le> length xs"
  by (cases xs; cases "tl xs") auto

lemma foldl_snoc: "foldl (\<lambda>hs h. hs @ [h]) ys xs = ys @ xs"
  by (induction xs arbitrary: ys) auto

lemma authority_buckets_iff:
  assumes "dag_wf H d"
  shows "((a, r), hs) \<in> set (bt_entries (authority_buckets d)) \<longleftrightarrow>
    hs = filter (\<lambda>h. author_of d h = a \<and> round_of d h = r) (linearize d) \<and> hs \<noteq> []"
proof -
  have "filter (dag_contains d) (linearize d) = linearize d"
    by (rule filter_True) (auto simp: set_linearize [OF assms] dag_contains_iff)
  then show ?thesis
    by (auto simp: bt.entries_get authority_buckets_def bucket_get Let_def foldl_snoc)
qed

lemma candidates_fold:
  "distinct (foldl add_candidate [] vs) \<and> set (foldl add_candidate [] vs) = v_candidate ` set vs"
  by (induction vs rule: rev_induct) (auto simp: add_candidate_def [of _ "_ :: Vote"])

lemma validator_buckets_iff:
  "(v, cs) \<in> set (bt_entries (validator_buckets votes)) \<longleftrightarrow>
     cs = foldl add_candidate [] (filter (\<lambda>x. v_validator x = v) votes) \<and> cs \<noteq> []"
proof -
  have "foldl add_candidate [] vs = [] \<longleftrightarrow> vs = []" for vs
    using candidates_fold [of vs] by (metis image_is_empty set_empty)
  then show ?thesis
    by (auto simp: bt.entries_get validator_buckets_def bucket_get Let_def)
qed

lemma set_slot_list: "dag_wf H d \<Longrightarrow> set (slot_list d a r) = slot_certs d a r"
  by (auto simp: slot_list_def slot_certs_def set_linearize)

lemma distinct_slot_list: "dag_wf H d \<Longrightarrow> distinct (slot_list d a r)"
  by (simp add: slot_list_def linearize_distinct)

lemma detect_authority_iff:
  assumes "dag_wf H d"
  shows "p \<in> set (detect_authority_equivocation d) \<longleftrightarrow>
    (\<exists>a r. 2 \<le> length (slot_list d a r) \<and>
       p = \<lparr>ep_author = a, ep_round = r, ep_cert_a = sort (slot_list d a r) ! 0, ep_cert_b = sort (slot_list d a r) ! 1\<rparr>)"
  (is "?L \<longleftrightarrow> ?R")
proof
  assume ?L
  then show ?R
    by (auto simp: detect_authority_equivocation_def authority_buckets_iff [OF assms] slot_list_def)
next
  assume ?R
  then obtain a r where len: "2 \<le> length (slot_list d a r)"
    and p: "p = \<lparr>ep_author = a, ep_round = r, ep_cert_a = sort (slot_list d a r) ! 0, ep_cert_b = sort (slot_list d a r) ! 1\<rparr>"
    by blast
  then have "((a, r), slot_list d a r) \<in> set (bt_entries (authority_buckets d))"
    by (auto simp: authority_buckets_iff [OF assms] slot_list_def)
  with len show ?L
    unfolding detect_authority_equivocation_def p by (intro image_set [THEN equalityD1, THEN subsetD]) force
qed

lemma detect_validator_iff:
  "p \<in> set (detect_validator_double_vote votes) \<longleftrightarrow>
    (\<exists>v cs. cs = foldl add_candidate [] (filter (\<lambda>x. v_validator x = v) votes) \<and> 2 \<le> length cs \<and>
       p = \<lparr>vp_validator = v, vp_candidate_a = sort cs ! 0, vp_candidate_b = sort cs ! 1\<rparr>)"
  (is "?L \<longleftrightarrow> ?R")
proof
  assume ?L
  then show ?R
    by (auto simp: detect_validator_double_vote_def validator_buckets_iff)
next
  assume ?R
  then obtain v cs where cs: "cs = foldl add_candidate [] (filter (\<lambda>x. v_validator x = v) votes)" "2 \<le> length cs"
    and p: "p = \<lparr>vp_validator = v, vp_candidate_a = sort cs ! 0, vp_candidate_b = sort cs ! 1\<rparr>"
    by blast
  then have "(v, cs) \<in> set (bt_entries (validator_buckets votes))"
    by (auto simp: validator_buckets_iff)
  with cs(2) show ?L
    unfolding detect_validator_double_vote_def p by (intro image_set [THEN equalityD1, THEN subsetD]) force
qed

section \<open>Properties\<close>

text \<open>C26. Authority equivocation detection is sound and complete on a well-formed store.  Each proof
  carries the two smallest of the different certificates its author has at its round; every author
  with two certificates for one round gets a proof for that round; and no (author, round) is
  reported twice.\<close>

theorem detect_authority_sound_complete:
  assumes wf: "dag_wf H d"
  shows "(\<forall>p\<in>set (detect_authority_equivocation d).
       smallest_two (ep_cert_a p) (ep_cert_b p) (slot_certs d (ep_author p) (ep_round p))) \<and>
    (\<forall>a r h1 h2. h1 \<in> slot_certs d a r \<longrightarrow> h2 \<in> slot_certs d a r \<longrightarrow> h1 \<noteq> h2 \<longrightarrow>
       (\<exists>p\<in>set (detect_authority_equivocation d). ep_author p = a \<and> ep_round p = r)) \<and>
    distinct (map (\<lambda>p. (ep_author p, ep_round p)) (detect_authority_equivocation d))"
proof (intro conjI ballI allI impI)
  fix p assume "p \<in> set (detect_authority_equivocation d)"
  then obtain a r where "2 \<le> length (slot_list d a r)" and
    "p = \<lparr>ep_author = a, ep_round = r, ep_cert_a = sort (slot_list d a r) ! 0, ep_cert_b = sort (slot_list d a r) ! 1\<rparr>"
    unfolding detect_authority_iff [OF wf] by blast
  then show "smallest_two (ep_cert_a p) (ep_cert_b p) (slot_certs d (ep_author p) (ep_round p))"
    using sort_smallest_two [OF distinct_slot_list [OF wf]] by (simp add: set_slot_list [OF wf])
next
  fix a r h1 h2 assume "h1 \<in> slot_certs d a r" "h2 \<in> slot_certs d a r" "h1 \<noteq> h2"
  then have "2 \<le> length (slot_list d a r)"
    unfolding set_slot_list [OF wf, symmetric] by (rule two_elements)
  then show "\<exists>p\<in>set (detect_authority_equivocation d). ep_author p = a \<and> ep_round p = r"
    unfolding Bex_def detect_authority_iff [OF wf] by fastforce
next
  have "map (\<lambda>p. (ep_author p, ep_round p)) (detect_authority_equivocation d) =
      map fst (filter (\<lambda>(_, hashes). 2 \<le> length hashes) (bt_entries (authority_buckets d)))"
    by (auto simp: detect_authority_equivocation_def)
  then show "distinct (map (\<lambda>p. (ep_author p, ep_round p)) (detect_authority_equivocation d))"
    by (simp only: distinct_map_filter bt.keys_distinct)
qed

theorem detect_authority_sound_complete_witness:
  "dag_wf demo_hash both_dag \<and> (\<exists>p\<in>set (detect_authority_equivocation both_dag). ep_author p = 0 \<and> ep_round p = 0)"
proof -
  have wf: "dag_wf demo_hash both_dag"
    by (rule insert_all_wf [OF dag_wf_new both_insert])
  have "65536 \<in> slot_certs both_dag 0 0" "0 \<in> slot_certs both_dag 0 0"
    by (simp_all add: slot_certs_def both_dag_def backed_certs_def rival_certs_def)
  moreover have "(65536 :: CertHash) \<noteq> 0"
    by simp
  ultimately have "\<exists>p\<in>set (detect_authority_equivocation both_dag). ep_author p = 0 \<and> ep_round p = 0"
    using detect_authority_sound_complete [OF wf] by blast
  with wf show ?thesis ..
qed

text \<open>C27. Double-vote detection is sound and complete.  Each proof carries the two smallest of the
  different candidates its validator voted for; every validator that voted for two different
  candidates gets exactly one proof; repeated votes for one candidate give none.\<close>

theorem detect_validator_sound_complete:
  "(\<forall>p\<in>set (detect_validator_double_vote votes).
       smallest_two (vp_candidate_a p) (vp_candidate_b p) (voted_for votes (vp_validator p))) \<and>
    (\<forall>v. (\<exists>a b. a \<in> voted_for votes v \<and> b \<in> voted_for votes v \<and> a \<noteq> b) \<longleftrightarrow>
       v \<in> vp_validator ` set (detect_validator_double_vote votes)) \<and>
    distinct (map vp_validator (detect_validator_double_vote votes))"
proof -
  let ?cs = "\<lambda>v. foldl add_candidate [] (filter (\<lambda>x. v_validator x = v) votes)"
  have cs: "distinct (?cs v)" "set (?cs v) = voted_for votes v" for v
    using candidates_fold [of "filter (\<lambda>x. v_validator x = v) votes"] by (simp_all add: voted_for_def)
  have sound: "smallest_two (vp_candidate_a p) (vp_candidate_b p) (voted_for votes (vp_validator p))"
    if mem: "p \<in> set (detect_validator_double_vote votes)" for p
  proof -
    obtain v where "2 \<le> length (?cs v)" and
      "p = \<lparr>vp_validator = v, vp_candidate_a = sort (?cs v) ! 0, vp_candidate_b = sort (?cs v) ! 1\<rparr>"
      using mem unfolding detect_validator_iff by blast
    then show ?thesis
      using sort_smallest_two [OF cs(1)] by (simp add: cs(2))
  qed
  have "v \<in> vp_validator ` set (detect_validator_double_vote votes)"
    if "a \<in> voted_for votes v" "b \<in> voted_for votes v" "a \<noteq> b" for v a b
  proof -
    have "2 \<le> length (?cs v)"
      using that unfolding cs(2) [symmetric] by (rule two_elements)
    then show ?thesis
      unfolding image_iff Bex_def detect_validator_iff by fastforce
  qed
  moreover have "distinct (map vp_validator (detect_validator_double_vote votes))"
  proof -
    have "map vp_validator (detect_validator_double_vote votes) =
        map fst (filter (\<lambda>(_, candidates). 2 \<le> length candidates) (bt_entries (validator_buckets votes)))"
      by (auto simp: detect_validator_double_vote_def)
    then show ?thesis
      by (simp only: distinct_map_filter bt.keys_distinct)
  qed
  moreover have "\<exists>a b. a \<in> voted_for votes v \<and> b \<in> voted_for votes v \<and> a \<noteq> b"
    if "v \<in> vp_validator ` set (detect_validator_double_vote votes)" for v
    using that sound unfolding smallest_two_def by (metis imageE less_irrefl)
  ultimately show ?thesis
    using sound by blast
qed

theorem detect_validator_sound_complete_witness:
  "7 \<in> vp_validator ` set (detect_validator_double_vote
     [\<lparr>v_validator = 7, v_candidate = 5\<rparr>, \<lparr>v_validator = 8, v_candidate = 5\<rparr>, \<lparr>v_validator = 7, v_candidate = 4\<rparr>])"
proof -
  let ?votes = "[\<lparr>v_validator = 7, v_candidate = 5\<rparr>, \<lparr>v_validator = 8, v_candidate = 5\<rparr>, \<lparr>v_validator = 7, v_candidate = 4\<rparr>]"
  have "5 \<in> voted_for ?votes 7" "4 \<in> voted_for ?votes 7"
    by (force simp: voted_for_def)+
  moreover have "(5 :: CertHash) \<noteq> 4"
    by simp
  ultimately show ?thesis
    using detect_validator_sound_complete [of ?votes] by blast
qed

end
