(* ===== verification/Bridge_Header.thy ===== *)
theory Bridge_Header
  imports Crypto
begin

text \<open>
  Bridge header attestations, \<open>suwappu-consensus/src/bridge_header.rs\<close>: the packed 148-byte
  preimage, its digest, and the signed attestation a validator hands to a relayer.
\<close>

definition HEADER_PREIMAGE_LEN :: nat where
  "HEADER_PREIMAGE_LEN = 148"

definition HEADER_DOMAIN :: bytes where
  "HEADER_DOMAIN =
    [0x7b, 0xea, 0x45, 0x3e, 0xa9, 0xa9, 0x2b, 0xb4, 0x6a, 0x6a, 0x6e, 0xcb, 0xcb, 0xa6, 0x70, 0xfd,
     0x52, 0xd3, 0x84, 0x88, 0x65, 0x7c, 0x9a, 0x93, 0x73, 0x78, 0x6e, 0xcb, 0x2b, 0x5c, 0x35, 0xf0]"

definition header_preimage :: "hash32 \<Rightarrow> address \<Rightarrow> u64 \<Rightarrow> hash32 \<Rightarrow> bytes" where
  "header_preimage network_id oracle block_number state_root =
     HEADER_DOMAIN @ be_bytes 32 network_id @ be_bytes 20 oracle @
     (replicate 24 0 @ be_bytes 8 block_number) @ be_bytes 32 state_root"

definition header_digest :: "hasher \<Rightarrow> hash32 \<Rightarrow> address \<Rightarrow> u64 \<Rightarrow> hash32 \<Rightarrow> hash32" where
  "header_digest H network_id oracle block_number state_root =
     H (header_preimage network_id oracle block_number state_root)"

text \<open>\<open>sign_header\<close> panics on a secret key that does not parse; the result is then \<open>None\<close>.\<close>

definition sign_header :: "mldsa65 \<Rightarrow> hash32 \<Rightarrow> SecretKey \<Rightarrow> bytes option" where
  "sign_header M digest sk =
     (case mldsa_sign M (be_bytes 32 digest) sk of Inl _ \<Rightarrow> None | Inr sg \<Rightarrow> Some (sig_bytes sg))"

record HeaderAttestation =
  ha_block_number :: u64
  ha_state_root :: hash32
  ha_authority_id :: u32
  ha_pubkey :: bytes
  ha_signature :: bytes

definition attestation_create ::
  "hasher \<Rightarrow> mldsa65 \<Rightarrow> hash32 \<Rightarrow> address \<Rightarrow> u64 \<Rightarrow> hash32 \<Rightarrow> u32 \<Rightarrow> PublicKey \<Rightarrow> SecretKey \<Rightarrow>
    HeaderAttestation option" where
  "attestation_create H M network_id oracle block_number state_root authority_id pubkey sk =
     (case sign_header M (header_digest H network_id oracle block_number state_root) sk of
        None \<Rightarrow> None
      | Some sg \<Rightarrow> Some \<lparr>ha_block_number = block_number, ha_state_root = state_root,
          ha_authority_id = authority_id, ha_pubkey = pk_bytes pubkey, ha_signature = sg\<rparr>)"

definition attestation_verify ::
  "hasher \<Rightarrow> mldsa65 \<Rightarrow> HeaderAttestation \<Rightarrow> hash32 \<Rightarrow> address \<Rightarrow> bool" where
  "attestation_verify H M att network_id oracle =
     (case (pk_from_bytes M (ha_pubkey att), sig_from_bytes M (ha_signature att)) of
        (Inr pk, Inr sg) \<Rightarrow>
          is_ok (mldsa_verify M
            (be_bytes 32 (header_digest H network_id oracle (ha_block_number att) (ha_state_root att))) sg pk)
      | _ \<Rightarrow> False)"

section \<open>Properties\<close>

text \<open>The preimage is always 148 bytes and determines all four fields, so distinct headers,
  oracles or networks never share a signed message unless the hash collides.\<close>

theorem header_preimage_canonical:
  "length (header_preimage n ora b s) = HEADER_PREIMAGE_LEN \<and>
   (header_preimage n ora b s = header_preimage n' ora' b' s' \<longleftrightarrow> n = n' \<and> ora = ora' \<and> b = b' \<and> s = s')"
  by (auto simp: header_preimage_def HEADER_DOMAIN_def HEADER_PREIMAGE_LEN_def be_bytes_inject)

text \<open>An attestation created with a working key pair verifies for the network and oracle it was
  bound to.\<close>

theorem attestation_create_verify:
  assumes "mldsa_correct M pk sk"
  shows "\<exists>att. attestation_create H M n ora b s i pk sk = Some att \<and> ha_block_number att = b \<and>
    ha_state_root att = s \<and> attestation_verify H M att n ora"
proof -
  obtain sg where "mldsa_sign M (be_bytes 32 (header_digest H n ora b s)) sk = Inr sg"
    "sig_from_bytes M (sig_bytes sg) = Inr sg"
    "is_ok (mldsa_verify M (be_bytes 32 (header_digest H n ora b s)) sg pk)"
    using mldsa_sign_verify [OF assms] by blast
  moreover have "pk_from_bytes M (pk_bytes pk) = Inr pk"
    using assms by (simp add: mldsa_correct_def pk_from_bytes_def)
  ultimately show ?thesis
    by (simp add: attestation_create_def sign_header_def attestation_verify_def)
qed

theorem attestation_create_verify_witness:
  "\<exists>att. attestation_create (\<lambda>_. 0) demo_mldsa 1 2 3 4 5 (PublicKey [1]) (SecretKey [1]) = Some att \<and>
     attestation_verify (\<lambda>_. 0) demo_mldsa att 1 2"
  using attestation_create_verify [OF demo_mldsa_correct, of "\<lambda>_. 0" 1 2 3 4 5] by blast

end
