(* ===== verification/Ring_Contract.thy ===== *)
theory Ring_Contract
  imports Ordered_Map
begin

text \<open>
  The contract the authority ring and the validator ring share: a seat map with a stake floor, a
  capacity, unique identifiers, an admission that checks the three in that order, and removal.
  The locale states what a ring promises; both rings interpret it on their own definitions.
\<close>

type_synonym member_id = u32

datatype 'm ring_op = OpAdmit 'm | OpRemove member_id

text \<open>A history of operations; a rejected admission leaves the ring as it was.\<close>

fun run_ring :: "('m \<Rightarrow> 'r \<Rightarrow> 'e + 'r) \<Rightarrow> (member_id \<Rightarrow> 'r \<Rightarrow> 'r) \<Rightarrow> 'm ring_op list \<Rightarrow> 'r \<Rightarrow> 'r" where
  "run_ring adm rmv [] r = r"
| "run_ring adm rmv (OpAdmit m # ops) r =
     run_ring adm rmv ops (case adm m r of Inl _ \<Rightarrow> r | Inr r' \<Rightarrow> r')"
| "run_ring adm rmv (OpRemove i # ops) r = run_ring adm rmv ops (rmv i r)"

definition ring_ok :: "nat \<Rightarrow> nat \<Rightarrow> ('m \<Rightarrow> nat) \<Rightarrow> ('m \<Rightarrow> member_id) \<Rightarrow> (member_id, 'm) btmap \<Rightarrow> bool" where
  "ring_ok cap floor stake ident seats \<longleftrightarrow>
     bt_len seats \<le> cap \<and> (\<forall>i m. bt_get seats i = Some m \<longrightarrow> floor \<le> stake m \<and> ident m = i)"

locale staked_ring =
  fixes seats :: "'r \<Rightarrow> (member_id, 'm) btmap"
    and admit :: "'m \<Rightarrow> 'r \<Rightarrow> 'e + 'r"
    and remove :: "member_id \<Rightarrow> 'r \<Rightarrow> 'r"
    and stake :: "'m \<Rightarrow> nat" and ident :: "'m \<Rightarrow> member_id"
    and floor :: nat and cap :: nat
  assumes admit_ok_iff: "(\<exists>r'. admit m r = Inr r') \<longleftrightarrow>
      floor \<le> stake m \<and> bt_len (seats r) < cap \<and> bt_get (seats r) (ident m) = None"
    and admit_seats: "admit m r = Inr r' \<Longrightarrow> seats r' = bt_insert (ident m) m (seats r)"
    and remove_seats: "seats (remove i r) = bt_remove i (seats r)"
begin

lemma admit_keeps:
  assumes "ring_ok cap floor stake ident (seats r)" "admit m r = Inr r'"
  shows "ring_ok cap floor stake ident (seats r')"
proof -
  have ok: "floor \<le> stake m" "bt_len (seats r) < cap" "bt_get (seats r) (ident m) = None"
    using admit_ok_iff [of m r] assms(2) by auto
  have "bt_len (bt_insert (ident m) m (seats r)) \<le> Suc (bt_len (seats r))"
    by (rule bt_len_insert_le)
  with ok assms(1) show ?thesis
    by (auto simp: ring_ok_def admit_seats [OF assms(2)])
qed

lemma remove_keeps:
  assumes "ring_ok cap floor stake ident (seats r)"
  shows "ring_ok cap floor stake ident (seats (remove i r))"
  using assms bt_len_remove_le [of i "seats r"] by (auto simp: ring_ok_def remove_seats)

lemma run_keeps:
  "ring_ok cap floor stake ident (seats r) \<Longrightarrow>
    ring_ok cap floor stake ident (seats (run_ring admit remove ops r))"
proof (induction ops arbitrary: r)
  case (Cons op ops)
  then show ?case
    by (cases op) (auto split: sum.split intro: admit_keeps remove_keeps)
qed simp

end

end
