(* ===== verification/Validator_Ring.thy ===== *)
theory Validator_Ring
  imports Ring_Contract Joint_Quorum
begin

text \<open>
  The in-memory validator ring, \<open>suwappu-validator/src/registry.rs\<close> and \<open>slashing.rs\<close>.  Stakes are
  \<open>u128\<close>; \<open>current * percent\<close> and the stake total wrap.
\<close>

definition VALIDATOR_STAKE_THRESHOLD_SUWAPPU :: u128 where
  "VALIDATOR_STAKE_THRESHOLD_SUWAPPU = 25000"

definition VALIDATOR_RING_MAX :: nat where
  "VALIDATOR_RING_MAX = 500"

datatype ValidatorAdmissionError =
    ValStakeBelowFloor Stake Stake
  | ValRingFull nat nat
  | ValDuplicateMember ValidatorId

record ValidatorMember =
  vm_id :: ValidatorId
  vm_stake_suwappu :: Stake

record ValidatorRegistry =
  val_members :: "(ValidatorId, ValidatorMember) btmap"

definition validator_new :: ValidatorRegistry where
  "validator_new = \<lparr>val_members = bt_empty\<rparr>"

definition validator_admit ::
  "ValidatorMember \<Rightarrow> ValidatorRegistry \<Rightarrow> ValidatorAdmissionError + ValidatorRegistry" where
  "validator_admit m reg =
     (if vm_stake_suwappu m < VALIDATOR_STAKE_THRESHOLD_SUWAPPU
      then Inl (ValStakeBelowFloor (vm_stake_suwappu m) VALIDATOR_STAKE_THRESHOLD_SUWAPPU)
      else if VALIDATOR_RING_MAX \<le> bt_len (val_members reg)
      then Inl (ValRingFull (bt_len (val_members reg)) VALIDATOR_RING_MAX)
      else if bt_contains (val_members reg) (vm_id m) then Inl (ValDuplicateMember (vm_id m))
      else Inr (reg\<lparr>val_members := bt_insert (vm_id m) m (val_members reg)\<rparr>))"

definition validator_remove :: "ValidatorId \<Rightarrow> ValidatorRegistry \<Rightarrow> ValidatorMember option \<times> ValidatorRegistry" where
  "validator_remove i reg =
     (bt_get (val_members reg) i, reg\<lparr>val_members := bt_remove i (val_members reg)\<rparr>)"

definition validator_len :: "ValidatorRegistry \<Rightarrow> nat" where
  "validator_len reg = bt_len (val_members reg)"

definition validator_contains :: "ValidatorRegistry \<Rightarrow> ValidatorId \<Rightarrow> bool" where
  "validator_contains reg i = bt_contains (val_members reg) i"

definition validator_get :: "ValidatorRegistry \<Rightarrow> ValidatorId \<Rightarrow> ValidatorMember option" where
  "validator_get reg i = bt_get (val_members reg) i"

definition validator_total_stake :: "ValidatorRegistry \<Rightarrow> Stake" where
  "validator_total_stake reg = sum_list (map vm_stake_suwappu (bt_values (val_members reg)))"

definition quorum_threshold_stake :: "ValidatorRegistry \<Rightarrow> Stake" where
  "quorum_threshold_stake reg = (2 * validator_total_stake reg) div 3 + 1"

section \<open>Slashing\<close>

datatype SlashSeverity = Minor | DoubleVote

fun slash_percent :: "SlashSeverity \<Rightarrow> u32" where
  "slash_percent Minor = 5"
| "slash_percent DoubleVote = 30"

record ValidatorSlash =
  vs_stake_lost :: Stake
  vs_remaining_stake :: Stake

definition slash_validator ::
  "ValidatorId \<Rightarrow> SlashSeverity \<Rightarrow> ValidatorRegistry \<Rightarrow> ValidatorSlash option \<times> ValidatorRegistry" where
  "slash_validator voter severity reg =
     (case validator_get reg voter of
        None \<Rightarrow> (None, reg)
      | Some m \<Rightarrow>
          (let current = vm_stake_suwappu m;
               percent = ucast (slash_percent severity);
               stake_lost = current * percent div 100;
               remaining = current - stake_lost;
               reg1 = snd (validator_remove voter reg);
               reg2 = (if 0 < remaining
                       then (case validator_admit \<lparr>vm_id = voter, vm_stake_suwappu = remaining\<rparr> reg1 of
                               Inl _ \<Rightarrow> reg1 | Inr reg' \<Rightarrow> reg')
                       else reg1)
           in (Some \<lparr>vs_stake_lost = stake_lost, vs_remaining_stake = remaining\<rparr>, reg2)))"

definition slash_validator_double_vote ::
  "ValidatorId \<Rightarrow> ValidatorRegistry \<Rightarrow> ValidatorSlash option \<times> ValidatorRegistry" where
  "slash_validator_double_vote voter reg = slash_validator voter DoubleVote reg"

section \<open>The ring contract\<close>

abbreviation validator_ring_ok :: "ValidatorRegistry \<Rightarrow> bool" where
  "validator_ring_ok reg \<equiv>
     ring_ok VALIDATOR_RING_MAX (unat VALIDATOR_STAKE_THRESHOLD_SUWAPPU) (\<lambda>m. unat (vm_stake_suwappu m)) vm_id
       (val_members reg)"

interpretation vring: staked_ring val_members validator_admit "\<lambda>i reg. snd (validator_remove i reg)"
  "\<lambda>m. unat (vm_stake_suwappu m)" vm_id "unat VALIDATOR_STAKE_THRESHOLD_SUWAPPU" VALIDATOR_RING_MAX
  by unfold_locales
    (auto simp: validator_admit_def validator_remove_def bt_contains_get not_less not_le word_le_nat_alt
      word_less_nat_alt split: if_splits)

lemma validator_new_ok: "validator_ring_ok validator_new"
  by (simp add: ring_ok_def validator_new_def)

text \<open>A stake table with the stakes of the seated members has the ring's quorum threshold.\<close>

lemma ring_stake_agrees:
  assumes "\<And>i. bt_get (weights t) i = map_option vm_stake_suwappu (validator_get reg i)"
  shows "validator_quorum_threshold t = quorum_threshold_stake reg"
proof -
  let ?ms = "val_members reg"
  have ids: "set (stake_ids t) = set (bt_keys ?ms)"
    using assms by (simp add: stake_ids_def set_bt_keys validator_get_def)
  have "map vm_stake_suwappu (bt_values ?ms) = map (stake_weight t) (bt_keys ?ms)"
    using assms by (auto simp: bt_values_def bt_keys_def stake_weight_def validator_get_def bt.entries_get)
  then have "stake_total t = validator_total_stake reg"
    by (simp add: stake_total_sum ids validator_total_stake_def sum_list_distinct_conv_sum_set bt_keys_distinct)
  then show ?thesis
    by (simp add: validator_quorum_threshold_def quorum_threshold_stake_def)
qed

lemma slash_lost_le:
  fixes s :: u128
  assumes "unat s * 100 < 2 ^ 128"
  shows "unat (s * ucast (slash_percent sev) div 100) = unat s * unat (slash_percent sev) div 100"
proof -
  have p: "unat (ucast (slash_percent sev) :: u128) = unat (slash_percent sev)"
    and le: "unat (slash_percent sev) \<le> 100"
    by (cases sev; simp)+
  have "unat s * unat (slash_percent sev) < 2 ^ 128"
    using assms le by (meson le_less_trans mult_le_mono2)
  then have "unat (s * ucast (slash_percent sev)) = unat s * unat (slash_percent sev)"
    by (simp add: unat_word_ariths p)
  then show ?thesis
    by (simp only: unat_div) simp
qed

section \<open>Properties\<close>

text \<open>C29. Slashing a seated validator, in a ring within its invariant and with a stake below
  \<open>2 ^ 128 / 100\<close>.  The loss is \<open>percent\<close> of the stake rounded down, and loss and remainder add up to
  the stake.  The validator keeps its seat with the remainder only when the remainder still reaches
  the admission floor of 25,000; otherwise it is no longer seated.  Nobody else is affected and the
  ring invariant holds afterwards.\<close>

theorem slash_validator_effect:
  assumes ok: "validator_ring_ok reg" and seated: "validator_get reg voter = Some m"
    and small: "unat (vm_stake_suwappu m) * 100 < 2 ^ 128"
  shows "\<exists>sl reg'. slash_validator voter sev reg = (Some sl, reg') \<and>
    unat (vs_stake_lost sl) = unat (vm_stake_suwappu m) * unat (slash_percent sev) div 100 \<and>
    unat (vs_stake_lost sl) + unat (vs_remaining_stake sl) = unat (vm_stake_suwappu m) \<and>
    validator_get reg' voter =
      (if 25000 \<le> vs_remaining_stake sl then Some \<lparr>vm_id = voter, vm_stake_suwappu = vs_remaining_stake sl\<rparr> else None) \<and>
    (\<forall>i. i \<noteq> voter \<longrightarrow> validator_get reg' i = validator_get reg i) \<and> validator_ring_ok reg'"
proof -
  let ?s = "vm_stake_suwappu m"
  let ?lost = "?s * ucast (slash_percent sev) div 100"
  let ?reg1 = "snd (validator_remove voter reg)"
  let ?mem = "\<lparr>vm_id = voter, vm_stake_suwappu = ?s - ?lost\<rparr>"
  have lost: "unat ?lost = unat ?s * unat (slash_percent sev) div 100"
    using small by (rule slash_lost_le)
  moreover have "unat (slash_percent sev) \<le> 100"
    by (cases sev) simp_all
  ultimately have le: "?lost \<le> ?s"
    unfolding word_le_nat_alt by (metis div_le_mono mult_le_mono2 nonzero_mult_div_cancel_right zero_neq_numeral)
  then have sum: "unat ?lost + unat (?s - ?lost) = unat ?s"
    by (simp add: unat_sub word_le_nat_alt)
  have len: "bt_len (val_members ?reg1) < VALIDATOR_RING_MAX"
    using ok bt_len_remove_less [of "val_members reg" voter m] seated
    by (simp add: ring_ok_def validator_remove_def validator_get_def)
  have ok1: "validator_ring_ok ?reg1"
    using ok by (rule vring.remove_keeps)
  have free: "bt_get (val_members ?reg1) voter = None"
    by (simp add: validator_remove_def)
  show ?thesis
  proof (cases "25000 \<le> ?s - ?lost")
    case True
    then have "0 < ?s - ?lost"
      by (simp add: word_le_nat_alt word_less_nat_alt)
    moreover obtain reg2 where reg2: "validator_admit ?mem ?reg1 = Inr reg2"
      using vring.admit_ok_iff [of ?mem ?reg1] len free True
      by (auto simp: VALIDATOR_STAKE_THRESHOLD_SUWAPPU_def word_le_nat_alt)
    ultimately have "slash_validator voter sev reg = (Some \<lparr>vs_stake_lost = ?lost, vs_remaining_stake = ?s - ?lost\<rparr>, reg2)"
      using seated by (simp add: slash_validator_def Let_def)
    then show ?thesis
      using True lost sum vring.admit_seats [OF reg2] vring.admit_keeps [OF ok1 reg2]
      by (simp add: validator_get_def validator_remove_def)
  next
    case False
    then have "\<exists>e. validator_admit ?mem ?reg1 = Inl e"
      by (simp add: validator_admit_def VALIDATOR_STAKE_THRESHOLD_SUWAPPU_def not_le)
    then have "slash_validator voter sev reg = (Some \<lparr>vs_stake_lost = ?lost, vs_remaining_stake = ?s - ?lost\<rparr>, ?reg1)"
      using seated by (auto simp: slash_validator_def Let_def)
    then show ?thesis
      using False lost sum ok1 by (simp add: validator_get_def validator_remove_def)
  qed
qed

theorem slash_validator_effect_witness:
  "\<exists>sl reg'. slash_validator 7 DoubleVote \<lparr>val_members = bt_insert 7 \<lparr>vm_id = 7, vm_stake_suwappu = 30000\<rparr> bt_empty\<rparr> =
       (Some sl, reg') \<and> unat (vs_stake_lost sl) = 9000 \<and> validator_get reg' 7 = None"
proof -
  let ?m = "\<lparr>vm_id = 7, vm_stake_suwappu = 30000\<rparr> :: ValidatorMember"
  let ?reg = "\<lparr>val_members = bt_insert 7 ?m bt_empty\<rparr> :: ValidatorRegistry"
  have "validator_ring_ok ?reg"
    by (simp add: ring_ok_def VALIDATOR_RING_MAX_def VALIDATOR_STAKE_THRESHOLD_SUWAPPU_def bt_len_insert bt_contains_get)
  moreover have "validator_get ?reg 7 = Some ?m"
    by (simp add: validator_get_def)
  ultimately obtain sl reg' where r: "slash_validator 7 DoubleVote ?reg = (Some sl, reg')" "unat (vs_stake_lost sl) = 9000"
    "unat (vs_stake_lost sl) + unat (vs_remaining_stake sl) = 30000"
    "validator_get reg' 7 = (if 25000 \<le> vs_remaining_stake sl then Some \<lparr>vm_id = 7, vm_stake_suwappu = vs_remaining_stake sl\<rparr> else None)"
    using slash_validator_effect [of ?reg 7 ?m DoubleVote] by auto
  then have "\<not> 25000 \<le> vs_remaining_stake sl"
    by (simp add: word_le_nat_alt)
  with r show ?thesis by auto
qed

text \<open>C30. Whatever sequence of admissions and removals a validator ring goes through, starting empty,
  it holds at most 500 members, none below the stake floor and each under its own identifier; and
  its stake quorum is the one the joint-quorum gate computes from a stake table of the same members.\<close>

theorem validator_ring_invariant:
  assumes reg: "reg = run_ring validator_admit (\<lambda>i reg. snd (validator_remove i reg)) ops validator_new"
    and table: "\<forall>i. bt_get (weights t) i = map_option vm_stake_suwappu (validator_get reg i)"
  shows "validator_len reg \<le> 500 \<and>
    (\<forall>i m. validator_get reg i = Some m \<longrightarrow> 25000 \<le> vm_stake_suwappu m \<and> vm_id m = i) \<and>
    quorum_threshold_stake reg = validator_quorum_threshold t"
proof -
  have "validator_ring_ok reg"
    unfolding reg by (rule vring.run_keeps [OF validator_new_ok])
  then show ?thesis
    using ring_stake_agrees [of t reg] table
    by (auto simp: ring_ok_def validator_len_def validator_get_def VALIDATOR_RING_MAX_def
        VALIDATOR_STAKE_THRESHOLD_SUWAPPU_def word_le_nat_alt)
qed

theorem validator_ring_invariant_witness:
  "\<exists>reg. reg = run_ring validator_admit (\<lambda>i reg. snd (validator_remove i reg))
       [OpAdmit \<lparr>vm_id = 7, vm_stake_suwappu = 30000\<rparr>, OpAdmit \<lparr>vm_id = 8, vm_stake_suwappu = 3\<rparr>] validator_new \<and>
     validator_get reg 8 = None \<and>
     quorum_threshold_stake reg = validator_quorum_threshold (stake_from_entries [(7, 30000)])"
proof -
  let ?ops = "[OpAdmit \<lparr>vm_id = 7, vm_stake_suwappu = 30000\<rparr>, OpAdmit \<lparr>vm_id = 8, vm_stake_suwappu = 3\<rparr>]"
  let ?reg = "run_ring validator_admit (\<lambda>i reg. snd (validator_remove i reg)) ?ops validator_new"
  have reg: "?reg = \<lparr>val_members = bt_insert 7 \<lparr>vm_id = 7, vm_stake_suwappu = 30000\<rparr> bt_empty\<rparr>"
    by (simp add: validator_admit_def validator_new_def VALIDATOR_STAKE_THRESHOLD_SUWAPPU_def VALIDATOR_RING_MAX_def
        bt_contains_get)
  then show ?thesis
    using validator_ring_invariant [OF refl, of "stake_from_entries [(7, 30000)]" ?ops]
    by (simp add: stake_from_entries_def stake_insert_def stake_new_def validator_get_def)
qed

end
