(* ===== verification/Authority_Ring.thy ===== *)
theory Authority_Ring
  imports Ring_Contract Commit_Rule
begin

text \<open>
  The in-memory authority ring, \<open>suwappu-authority/src/registry.rs\<close> and \<open>slashing.rs\<close>.
\<close>

definition AUTHORITY_STAKE_THRESHOLD_SUWAPPU :: u64 where
  "AUTHORITY_STAKE_THRESHOLD_SUWAPPU = 100000"

definition AUTHORITY_RING_MAX :: nat where
  "AUTHORITY_RING_MAX = 50"

datatype AuthorityAdmissionError =
    AuthStakeBelowFloor u64 u64
  | AuthRingFull nat nat
  | AuthDuplicateMember AuthorityId

record AuthorityMember =
  am_id :: AuthorityId
  am_stake_suwappu :: u64
  am_public_key_bytes :: bytes

record AuthorityRegistry =
  auth_members :: "(AuthorityId, AuthorityMember) btmap"

definition authority_new :: AuthorityRegistry where
  "authority_new = \<lparr>auth_members = bt_empty\<rparr>"

definition authority_admit ::
  "AuthorityMember \<Rightarrow> AuthorityRegistry \<Rightarrow> AuthorityAdmissionError + AuthorityRegistry" where
  "authority_admit m reg =
     (if am_stake_suwappu m < AUTHORITY_STAKE_THRESHOLD_SUWAPPU
      then Inl (AuthStakeBelowFloor (am_stake_suwappu m) AUTHORITY_STAKE_THRESHOLD_SUWAPPU)
      else if AUTHORITY_RING_MAX \<le> bt_len (auth_members reg)
      then Inl (AuthRingFull (bt_len (auth_members reg)) AUTHORITY_RING_MAX)
      else if bt_contains (auth_members reg) (am_id m) then Inl (AuthDuplicateMember (am_id m))
      else Inr (reg\<lparr>auth_members := bt_insert (am_id m) m (auth_members reg)\<rparr>))"

definition authority_remove :: "AuthorityId \<Rightarrow> AuthorityRegistry \<Rightarrow> AuthorityMember option \<times> AuthorityRegistry" where
  "authority_remove i reg =
     (bt_get (auth_members reg) i, reg\<lparr>auth_members := bt_remove i (auth_members reg)\<rparr>)"

definition authority_len :: "AuthorityRegistry \<Rightarrow> nat" where
  "authority_len reg = bt_len (auth_members reg)"

definition authority_contains :: "AuthorityRegistry \<Rightarrow> AuthorityId \<Rightarrow> bool" where
  "authority_contains reg i = bt_contains (auth_members reg) i"

definition authority_get :: "AuthorityRegistry \<Rightarrow> AuthorityId \<Rightarrow> AuthorityMember option" where
  "authority_get reg i = bt_get (auth_members reg) i"

definition authority_quorum_threshold :: "AuthorityRegistry \<Rightarrow> u32" where
  "authority_quorum_threshold reg =
     (let n = word_of_nat (bt_len (auth_members reg)) :: u32 in if n = 0 then 1 else n - (n - 1) div 3)"

record AuthoritySlash =
  as_stake_lost :: u64
  as_expelled :: bool

definition slash_authority :: "AuthorityId \<Rightarrow> AuthorityRegistry \<Rightarrow> AuthoritySlash option \<times> AuthorityRegistry" where
  "slash_authority author reg =
     (case authority_remove author reg of
        (None, reg') \<Rightarrow> (None, reg')
      | (Some m, reg') \<Rightarrow> (Some \<lparr>as_stake_lost = am_stake_suwappu m, as_expelled = True\<rparr>, reg'))"

definition readmit_authority ::
  "AuthorityId \<Rightarrow> u64 \<Rightarrow> bytes \<Rightarrow> AuthorityRegistry \<Rightarrow> AuthorityAdmissionError + AuthorityRegistry" where
  "readmit_authority i stake pk reg =
     authority_admit \<lparr>am_id = i, am_stake_suwappu = stake, am_public_key_bytes = pk\<rparr> reg"

section \<open>The ring contract\<close>

abbreviation authority_ring_ok :: "AuthorityRegistry \<Rightarrow> bool" where
  "authority_ring_ok reg \<equiv>
     ring_ok AUTHORITY_RING_MAX (unat AUTHORITY_STAKE_THRESHOLD_SUWAPPU) (\<lambda>m. unat (am_stake_suwappu m)) am_id
       (auth_members reg)"

interpretation auth: staked_ring auth_members authority_admit "\<lambda>i reg. snd (authority_remove i reg)"
  "\<lambda>m. unat (am_stake_suwappu m)" am_id "unat AUTHORITY_STAKE_THRESHOLD_SUWAPPU" AUTHORITY_RING_MAX
  by unfold_locales
    (auto simp: authority_admit_def authority_remove_def bt_contains_get not_less not_le word_le_nat_alt
      word_less_nat_alt split: if_splits)

lemma authority_new_ok: "authority_ring_ok authority_new"
  by (simp add: ring_ok_def authority_new_def)

lemma authority_quorum_eq:
  assumes "authority_ring_ok reg"
  shows "authority_quorum_threshold reg = quorum_threshold (word_of_nat (bt_len (auth_members reg)))"
  by (simp add: authority_quorum_threshold_def quorum_threshold_def Let_def)

section \<open>Properties\<close>

text \<open>C28. Whatever sequence of admissions and removals a ring goes through, starting empty, it never
  holds more than 50 members, never seats one below the stake floor and files each under its own
  identifier.  Its quorum is then exact (no truncation of the size to 32 bits): \<open>n - (n - 1) div 3\<close>
  of the true size, the threshold of the commit rule.\<close>

theorem authority_ring_invariant:
  assumes reg_def: "reg = run_ring authority_admit (\<lambda>i reg. snd (authority_remove i reg)) ops authority_new"
  shows "authority_len reg \<le> 50 \<and>
    (\<forall>i m. authority_get reg i = Some m \<longrightarrow> 100000 \<le> am_stake_suwappu m \<and> am_id m = i) \<and>
    authority_quorum_threshold reg = quorum_threshold (word_of_nat (authority_len reg)) \<and>
    (0 < authority_len reg \<longrightarrow>
      unat (authority_quorum_threshold reg) = authority_len reg - (authority_len reg - 1) div 3)"
proof -
  have ok: "authority_ring_ok reg"
    unfolding reg_def by (rule auth.run_keeps [OF authority_new_ok])
  then have len: "bt_len (auth_members reg) \<le> 50"
    by (simp add: ring_ok_def AUTHORITY_RING_MAX_def)
  then have "unat (word_of_nat (bt_len (auth_members reg)) :: u32) = bt_len (auth_members reg)"
    by (simp add: unsigned_of_nat take_bit_nat_eq_self)
  then have "0 < bt_len (auth_members reg) \<Longrightarrow>
      unat (quorum_threshold (word_of_nat (bt_len (auth_members reg)))) =
      bt_len (auth_members reg) - (bt_len (auth_members reg) - 1) div 3"
    using unat_quorum_threshold [of "word_of_nat (bt_len (auth_members reg))"] by (simp add: word_less_nat_alt)
  then show ?thesis
    using ok len authority_quorum_eq [OF ok]
    by (auto simp: ring_ok_def authority_len_def authority_get_def AUTHORITY_STAKE_THRESHOLD_SUWAPPU_def word_le_nat_alt)
qed

theorem authority_ring_invariant_witness:
  "\<exists>reg. reg = run_ring authority_admit (\<lambda>i reg. snd (authority_remove i reg))
       [OpAdmit \<lparr>am_id = 3, am_stake_suwappu = 100000, am_public_key_bytes = []\<rparr>] authority_new \<and>
     authority_len reg = 1 \<and> unat (authority_quorum_threshold reg) = 1"
proof -
  let ?m = "\<lparr>am_id = 3, am_stake_suwappu = 100000, am_public_key_bytes = []\<rparr>"
  let ?reg = "run_ring authority_admit (\<lambda>i reg. snd (authority_remove i reg)) [OpAdmit ?m] authority_new"
  have "?reg = \<lparr>auth_members = bt_insert 3 ?m bt_empty\<rparr>"
    by (simp add: authority_admit_def authority_new_def AUTHORITY_STAKE_THRESHOLD_SUWAPPU_def
        AUTHORITY_RING_MAX_def bt_contains_get)
  then have "authority_len ?reg = 1"
    by (simp add: authority_len_def bt_len_insert bt_contains_get)
  then show ?thesis
    using authority_ring_invariant [OF refl, of "[OpAdmit ?m]"] by auto
qed

end
