(* ===== verification/Fast_Path.thy ===== *)
theory Fast_Path
  imports Authority_Ring
begin

text \<open>
  The fast-path lane, \<open>suwappu-fastpath/src\<close>: quorum certificates over single-object transactions,
  the main-lane binding window, equivocation detection and the slashing of every signer.
\<close>

type_synonym OwnedObjectId = hash32
type_synonym OwnerAddress = hash32

record FastPathTx =
  fp_object :: OwnedObjectId
  fp_owner :: OwnerAddress
  fp_nonce :: u64
  fp_lineage :: CertHash
  fp_lineage_round :: Round
  fp_payload_digest :: hash32

record FastPathCert =
  fc_tx :: FastPathTx
  fc_signers :: "AuthorityId btset"

datatype FastPathError =
    BelowQuorum (bq_have: u32) (bq_need: u32)
  | UnknownSigner AuthorityId

definition fast_path_quorum_size :: "u32 \<Rightarrow> u32" where
  "fast_path_quorum_size n = (if n = 0 then 1 else n - (n - 1) div 3)"

definition certify :: "FastPathTx \<Rightarrow> AuthorityId btset \<Rightarrow> u32 \<Rightarrow> FastPathError + FastPathCert" where
  "certify tx signers n =
     (case find (\<lambda>s. n \<le> s) (bt_keys signers) of
        Some s \<Rightarrow> Inl (UnknownSigner s)
      | None \<Rightarrow>
          (let need = fast_path_quorum_size n; have_n = word_of_nat (bt_len signers)
           in if have_n < need then Inl (BelowQuorum have_n need)
              else Inr \<lparr>fc_tx = tx, fc_signers = signers\<rparr>))"

section \<open>Binding window\<close>


record MainLaneTx =
  ml_round :: Round
  ml_object :: OwnedObjectId
  ml_payload_digest :: hash32
  ml_lineage :: CertHash


record FastPathEquivocationProof =
  fe_cert :: FastPathCert
  fe_conflicting_tx :: MainLaneTx


section \<open>Slashing\<close>

record FastPathSlashOutcome =
  fo_slashed :: "(AuthorityId \<times> AuthoritySlash) list"
  fo_missing :: "AuthorityId list"

definition total_stake_lost :: "FastPathSlashOutcome \<Rightarrow> u64" where
  "total_stake_lost outcome = sum_list (map (\<lambda>(_, s). as_stake_lost s) (fo_slashed outcome))"

definition slash_signer ::
  "FastPathSlashOutcome \<times> AuthorityRegistry \<Rightarrow> AuthorityId \<Rightarrow> FastPathSlashOutcome \<times> AuthorityRegistry" where
  "slash_signer st author =
     (case slash_authority author (snd st) of
        (Some s, reg) \<Rightarrow> ((fst st)\<lparr>fo_slashed := fo_slashed (fst st) @ [(author, s)]\<rparr>, reg)
      | (None, reg) \<Rightarrow> ((fst st)\<lparr>fo_missing := fo_missing (fst st) @ [author]\<rparr>, reg))"

definition slash_fast_path_signers ::
  "AuthorityRegistry \<Rightarrow> FastPathEquivocationProof \<Rightarrow> FastPathSlashOutcome \<times> AuthorityRegistry" where
  "slash_fast_path_signers reg prf =
     foldl slash_signer (\<lparr>fo_slashed = [], fo_missing = []\<rparr>, reg) (bt_keys (fc_signers (fe_cert prf)))"

section \<open>Reference notions\<close>


definition signer_slash :: "AuthorityRegistry \<Rightarrow> AuthorityId \<Rightarrow> AuthorityId \<times> AuthoritySlash" where
  "signer_slash reg i = (i, \<lparr>as_stake_lost = am_stake_suwappu (the (authority_get reg i)), as_expelled = True\<rparr>)"

section \<open>Lemmas\<close>

lemma certify_Inr:
  assumes "certify tx signers n = Inr cert"
  shows "cert = \<lparr>fc_tx = tx, fc_signers = signers\<rparr>" "set (bt_keys signers) \<subseteq> {a. a < n}"
    "unat (quorum_threshold n) \<le> card (set (bt_keys signers))"
proof -
  have eq: "fast_path_quorum_size n = quorum_threshold n"
    by (simp add: fast_path_quorum_size_def quorum_threshold_def)
  show "cert = \<lparr>fc_tx = tx, fc_signers = signers\<rparr>"
    using assms by (auto simp: certify_def Let_def split: option.splits if_splits)
  show "set (bt_keys signers) \<subseteq> {a. a < n}"
    using assms by (auto simp: certify_def find_None_iff not_le split: option.splits)
  have "quorum_threshold n \<le> word_of_nat (bt_len signers)"
    using assms by (auto simp: certify_def Let_def eq not_less split: option.splits if_splits)
  then have "unat (quorum_threshold n) \<le> unat (word_of_nat (bt_len signers) :: u32)"
    by (simp add: word_le_nat_alt)
  also have "\<dots> \<le> bt_len signers"
    by (simp add: unsigned_of_nat)
  finally show "unat (quorum_threshold n) \<le> card (set (bt_keys signers))"
    by (simp add: bt_len_keys)
qed


lemma slash_signer_step:
  "slash_signer (o0, reg) i =
     (if authority_contains reg i then o0\<lparr>fo_slashed := fo_slashed o0 @ [signer_slash reg i]\<rparr>
      else o0\<lparr>fo_missing := fo_missing o0 @ [i]\<rparr>,
      reg\<lparr>auth_members := bt_remove i (auth_members reg)\<rparr>)"
  by (cases "bt_get (auth_members reg) i")
    (simp_all add: slash_signer_def slash_authority_def authority_remove_def signer_slash_def
      authority_get_def authority_contains_def bt_contains_get)

lemma slash_signer_fold:
  "distinct ids \<Longrightarrow>
   foldl slash_signer (o0, reg) ids =
     (\<lparr>fo_slashed = fo_slashed o0 @ map (signer_slash reg) (filter (authority_contains reg) ids),
       fo_missing = fo_missing o0 @ filter (\<lambda>i. \<not> authority_contains reg i) ids\<rparr>,
      reg\<lparr>auth_members := foldl (\<lambda>m i. bt_remove i m) (auth_members reg) ids\<rparr>)"
proof (induction ids arbitrary: o0 reg)
  case (Cons i ids)
  let ?reg' = "reg\<lparr>auth_members := bt_remove i (auth_members reg)\<rparr>"
  have same: "authority_get ?reg' j = authority_get reg j" "authority_contains ?reg' j = authority_contains reg j"
    if "j \<in> set ids" for j
    using Cons.prems that by (auto simp: authority_get_def authority_contains_def bt_contains_get)
  have "filter (authority_contains ?reg') ids = filter (authority_contains reg) ids"
    "filter (\<lambda>j. \<not> authority_contains ?reg' j) ids = filter (\<lambda>j. \<not> authority_contains reg j) ids"
    by (intro filter_cong refl; simp add: same)+
  moreover have "map (signer_slash ?reg') (filter (authority_contains reg) ids) =
      map (signer_slash reg) (filter (authority_contains reg) ids)"
    by (auto simp: signer_slash_def same)
  ultimately show ?case
    using Cons by (simp add: slash_signer_step)
qed simp

lemma get_fold_remove: "bt_get (foldl (\<lambda>m i. bt_remove i m) m ids) k = (if k \<in> set ids then None else bt_get m k)"
  by (induction ids arbitrary: m) auto

section \<open>Properties\<close>

text \<open>C31. A fast-path certificate is only issued to a quorum of committee members, and the signer sets
  of any two certificates of one committee share more than \<open>f = (n - 1) div 3\<close> members, so two
  certificates for conflicting transactions expose at least one faulty signer.\<close>

theorem certify_quorum_intersection:
  assumes "0 < n" "certify tx1 s1 n = Inr c1" "certify tx2 s2 n = Inr c2"
  shows "fc_tx c1 = tx1 \<and> fc_signers c1 = s1 \<and> set (bt_keys s1) \<subseteq> {a. a < n} \<and>
    unat (quorum_threshold n) \<le> card (set (bt_keys s1)) \<and>
    (unat n - 1) div 3 < card (set (bt_keys s1) \<inter> set (bt_keys s2))"
proof -
  have "2 * unat (quorum_threshold n) - card {a :: u32. a < n} \<le> card (set (bt_keys s1) \<inter> set (bt_keys s2))"
    using certify_Inr [OF assms(2)] certify_Inr [OF assms(3)] by (intro card_inter_ge) simp_all
  moreover have "unat (quorum_threshold n) = unat n - (unat n - 1) div 3" "0 < unat n"
    using assms(1) by (simp_all add: unat_quorum_threshold unat_gt_0)
  ultimately have "(unat n - 1) div 3 < card (set (bt_keys s1) \<inter> set (bt_keys s2))"
    unfolding card_below by linarith
  then show ?thesis
    using certify_Inr [OF assms(2)] by simp
qed

theorem certify_quorum_intersection_witness:
  "certify \<lparr>fp_object = 1, fp_owner = 2, fp_nonce = 3, fp_lineage = 4, fp_lineage_round = 5, fp_payload_digest = 6\<rparr>
       (bt_of_list [(0, ()), (1, ()), (2, ())]) 4 =
     Inr \<lparr>fc_tx = \<lparr>fp_object = 1, fp_owner = 2, fp_nonce = 3, fp_lineage = 4, fp_lineage_round = 5, fp_payload_digest = 6\<rparr>,
       fc_signers = bt_of_list [(0, ()), (1, ()), (2, ())]\<rparr> \<and>
   1 < card (set (bt_keys (bt_of_list [(0 :: u32, ()), (1, ()), (2, ())])) \<inter>
             set (bt_keys (bt_of_list [(1, ()), (2, ()), (3, ())])))"
proof -
  let ?tx = "\<lparr>fp_object = 1, fp_owner = 2, fp_nonce = 3, fp_lineage = 4, fp_lineage_round = 5, fp_payload_digest = 6\<rparr>"
  let ?s1 = "bt_of_list [(0, ()), (1, ()), (2, ())] :: u32 btset" and ?s2 = "bt_of_list [(1, ()), (2, ()), (3, ())] :: u32 btset"
  have c: "certify ?tx ?s1 4 = Inr \<lparr>fc_tx = ?tx, fc_signers = ?s1\<rparr>" "certify ?tx ?s2 4 = Inr \<lparr>fc_tx = ?tx, fc_signers = ?s2\<rparr>"
    by (simp_all add: certify_def bt_of_list_def bt_keys_def bt_len_def bt_insert.rep_eq fast_path_quorum_size_def Let_def)
  then show ?thesis
    using certify_quorum_intersection [OF _ c] by simp
qed



text \<open>Slashing a fast-path proof expels every signer and nobody else.  The outcome lists each
  signer exactly once, as slashed with its full bonded stake if it was seated and as missing
  otherwise; repeating the call slashes nobody and leaves the ring unchanged.\<close>

theorem slash_fast_path_signers_effect:
  assumes "slash_fast_path_signers reg prf = (out, reg')"
  shows "fo_slashed out = map (signer_slash reg) (filter (authority_contains reg) (bt_keys (fc_signers (fe_cert prf)))) \<and>
    fo_missing out = filter (\<lambda>i. \<not> authority_contains reg i) (bt_keys (fc_signers (fe_cert prf))) \<and>
    (\<forall>i. authority_get reg' i =
       (if i \<in> set (bt_keys (fc_signers (fe_cert prf))) then None else authority_get reg i)) \<and>
    slash_fast_path_signers reg' prf = (\<lparr>fo_slashed = [], fo_missing = bt_keys (fc_signers (fe_cert prf))\<rparr>, reg')"
proof -
  let ?ids = "bt_keys (fc_signers (fe_cert prf))"
  have fold: "slash_fast_path_signers r prf =
      (\<lparr>fo_slashed = map (signer_slash r) (filter (authority_contains r) ?ids),
        fo_missing = filter (\<lambda>i. \<not> authority_contains r i) ?ids\<rparr>,
       r\<lparr>auth_members := foldl (\<lambda>m i. bt_remove i m) (auth_members r) ?ids\<rparr>)" for r
    by (simp add: slash_fast_path_signers_def slash_signer_fold bt_keys_distinct)
  have out: "out = \<lparr>fo_slashed = map (signer_slash reg) (filter (authority_contains reg) ?ids),
        fo_missing = filter (\<lambda>i. \<not> authority_contains reg i) ?ids\<rparr>"
    and reg': "reg' = reg\<lparr>auth_members := foldl (\<lambda>m i. bt_remove i m) (auth_members reg) ?ids\<rparr>"
    using assms fold [of reg] by simp_all
  have get: "authority_get reg' i = (if i \<in> set ?ids then None else authority_get reg i)" for i
    by (simp add: reg' authority_get_def get_fold_remove)
  have gone: "\<not> authority_contains reg' i" if "i \<in> set ?ids" for i
    using get [of i] that by (simp add: authority_contains_def bt_contains_get authority_get_def)
  have "foldl (\<lambda>m i. bt_remove i m) (auth_members reg') ?ids = auth_members reg'"
    using get by (intro bt.map_ext) (auto simp: get_fold_remove authority_get_def)
  then have "slash_fast_path_signers reg' prf = (\<lparr>fo_slashed = [], fo_missing = ?ids\<rparr>, reg')"
    unfolding fold [of reg'] by (simp add: gone)
  with out get show ?thesis by simp
qed

theorem slash_fast_path_signers_effect_witness:
  "\<exists>out reg'. slash_fast_path_signers
       \<lparr>auth_members = bt_insert 3 \<lparr>am_id = 3, am_stake_suwappu = 100000, am_public_key_bytes = []\<rparr> bt_empty\<rparr>
       \<lparr>fe_cert = \<lparr>fc_tx = \<lparr>fp_object = 1, fp_owner = 2, fp_nonce = 3, fp_lineage = 4, fp_lineage_round = 5, fp_payload_digest = 6\<rparr>,
          fc_signers = bt_insert 3 () bt_empty\<rparr>,
        fe_conflicting_tx = \<lparr>ml_round = 9, ml_object = 1, ml_payload_digest = 7, ml_lineage = 0\<rparr>\<rparr> = (out, reg') \<and>
     map fst (fo_slashed out) = [3] \<and> authority_get reg' 3 = None"
proof -
  let ?reg = "\<lparr>auth_members = bt_insert 3 \<lparr>am_id = 3, am_stake_suwappu = 100000, am_public_key_bytes = []\<rparr> bt_empty\<rparr> :: AuthorityRegistry"
  let ?pf = "\<lparr>fe_cert = \<lparr>fc_tx = \<lparr>fp_object = 1, fp_owner = 2, fp_nonce = 3, fp_lineage = 4, fp_lineage_round = 5, fp_payload_digest = 6\<rparr>,
          fc_signers = bt_insert 3 () bt_empty\<rparr>,
        fe_conflicting_tx = \<lparr>ml_round = 9, ml_object = 1, ml_payload_digest = 7, ml_lineage = 0\<rparr>\<rparr>"
  obtain out reg' where r: "slash_fast_path_signers ?reg ?pf = (out, reg')"
    by fastforce
  then show ?thesis
    using slash_fast_path_signers_effect [OF r]
    by (simp add: bt_keys_def bt_insert.rep_eq signer_slash_def authority_contains_def bt_contains_get)
qed

end
