(* ===== verification/Exec_Error.thy ===== *)
theory Exec_Error
  imports Prelude
begin

text \<open>
  The error type of the execution layer (\<open>suwappu-execution/src/error.rs\<close>) with the status
  enumerations its variants carry (\<open>authority_registry.rs\<close>, \<open>validator_registry.rs\<close>,
  \<open>asset_registry.rs\<close>, \<open>force_include.rs\<close>, \<open>equivocation_registry.rs\<close>) and the verifier error
  of \<open>suwappu-l2-verifier-precompile\<close>.  Constructors of enumerations that share a variant name
  carry a prefix.  \<open>L2VerifierRejected\<close> carries the verifier error itself where the source carries
  its rendered text.
\<close>

type_synonym Balance = u128

datatype AuthorityStatus = AuthActive | AuthExiting | AuthEjected

datatype ValidatorStatus = ValActive | ValExiting | ValEjected

datatype AssetStatus = AssetActive | AssetPaused | AssetRemoved

datatype ObligationStatus = Pending | Honored | Slashed

datatype OffenseKind = Equivocation_Offense | InvalidBatch_Offense

datatype VerifyError =
    BadProofLength nat nat
  | BadPublicInputsLength nat nat
  | UnpinnedVerifyingKey
  | Groth16Failed

datatype ExecutionError =
    InsufficientBalance address Balance Balance
  | BalanceOverflow address
  | ReservedAddressTransferDenied address
  | ReservedAddressInCounterparties address
  | DistributionOverflow address
  | L2VerifierRejected VerifyError
  | CorruptStateRecord address string
  | ForceIncludeAlreadyRegistered hash32
  | ForceIncludeNotFound hash32
  | ForceIncludeNotPending hash32 ObligationStatus
  | L2VkPinMismatch hash32 hash32
  | SetL2VkAllZeros
  | BridgeAssetAlreadyRegistered hash32
  | BridgeAssetNotFound hash32
  | BridgeAssetFieldTooLong string nat nat
  | ForceIncludeNotSlashed hash32 ObligationStatus
  | SequencerEjectionAlreadyRecorded hash32
  | BridgeAssetNotActive hash32 AssetStatus
  | L2BatchNotCommitted hash32 u64
  | L2BurnAlreadyClaimed hash32
  | EquivocationAlreadyRecorded hash32 OffenseKind
  | AuthoritySlotAlreadyOccupied u32
  | AuthorityNotFound u32
  | AuthorityNotActive u32 AuthorityStatus
  | AuthorityFieldTooLong string nat nat
  | ValidatorSlotAlreadyOccupied u32
  | ValidatorNotFound u32
  | ValidatorNotActive u32 ValidatorStatus
  | ValidatorFieldTooLong string nat nat
  | DepositedStakeOverflow string u32
  | SlotNotExiting string u32 string
  | WithdrawalExceedsDeposit string u32 Balance Balance
  | ExitCooldownNotElapsed string u32 u64 u64
  | GenesisAfterBootstrap u64
  | InflationEpochAlreadyMinted u64 u64
  | RewardsEpochAlreadyDistributed string u64 u64

end
