(* ===== verification/Reserved.thy ===== *)
theory Reserved
  imports Exec_Error
begin

text \<open>
  Reserved protocol accounts, \<open>suwappu-execution/src/reserved.rs\<close>: each address is the first 20 bytes
  of the BLAKE3 digest of a pinned domain tag.  BLAKE3 is the parameter \<open>H\<close>.  That the twenty tags
  give twenty different addresses is the hypothesis \<open>reserved_distinct H\<close> of the theorems that need
  it; \<open>demo_blake\<close> is a concrete function that satisfies it.
\<close>

definition L2_REGISTRY_DOMAIN :: bytes where
  "L2_REGISTRY_DOMAIN = string_bytes ''suwappu-l2-registry-v1''"

definition INSURANCE_POOL_DOMAIN :: bytes where
  "INSURANCE_POOL_DOMAIN = string_bytes ''suwappu-insurance-pool-v1''"

definition TREASURY_DOMAIN :: bytes where
  "TREASURY_DOMAIN = string_bytes ''suwappu-treasury-v1''"

definition BRIDGE_ESCROW_DOMAIN :: bytes where
  "BRIDGE_ESCROW_DOMAIN = string_bytes ''suwappu-bridge-escrow-v1''"

definition FORCE_INCLUDE_REGISTRY_DOMAIN :: bytes where
  "FORCE_INCLUDE_REGISTRY_DOMAIN = string_bytes ''suwappu-force-include-registry-v1''"

definition SEQUENCER_BOND_DOMAIN :: bytes where
  "SEQUENCER_BOND_DOMAIN = string_bytes ''suwappu-sequencer-bond-v1''"

definition SAFETY_BOND_DOMAIN :: bytes where
  "SAFETY_BOND_DOMAIN = string_bytes ''suwappu-safety-bond-v1''"

definition ASSET_REGISTRY_DOMAIN :: bytes where
  "ASSET_REGISTRY_DOMAIN = string_bytes ''suwappu-asset-registry-v1''"

definition EJECTION_REGISTRY_DOMAIN :: bytes where
  "EJECTION_REGISTRY_DOMAIN = string_bytes ''suwappu-ejection-registry-v1''"

definition BURN_NULLIFIER_REGISTRY_DOMAIN :: bytes where
  "BURN_NULLIFIER_REGISTRY_DOMAIN = string_bytes ''suwappu-burn-nullifier-registry-v1''"

definition EQUIVOCATION_REGISTRY_DOMAIN :: bytes where
  "EQUIVOCATION_REGISTRY_DOMAIN = string_bytes ''suwappu-equivocation-registry-v1''"

definition AUTHORITY_REGISTRY_DOMAIN :: bytes where
  "AUTHORITY_REGISTRY_DOMAIN = string_bytes ''suwappu-authority-registry-v1''"

definition VALIDATOR_REGISTRY_DOMAIN :: bytes where
  "VALIDATOR_REGISTRY_DOMAIN = string_bytes ''suwappu-validator-registry-v1''"

definition AUTHORITY_STAKE_POOL_DOMAIN :: bytes where
  "AUTHORITY_STAKE_POOL_DOMAIN = string_bytes ''suwappu-authority-stake-pool-v1''"

definition VALIDATOR_STAKE_POOL_DOMAIN :: bytes where
  "VALIDATOR_STAKE_POOL_DOMAIN = string_bytes ''suwappu-validator-stake-pool-v1''"

definition AUTHORITY_REWARDS_POOL_DOMAIN :: bytes where
  "AUTHORITY_REWARDS_POOL_DOMAIN = string_bytes ''suwappu-authority-rewards-pool-v1''"

definition VALIDATOR_REWARDS_POOL_DOMAIN :: bytes where
  "VALIDATOR_REWARDS_POOL_DOMAIN = string_bytes ''suwappu-validator-rewards-pool-v1''"

definition INFLATION_REGISTRY_DOMAIN :: bytes where
  "INFLATION_REGISTRY_DOMAIN = string_bytes ''suwappu-inflation-registry-v1''"

definition REWARDS_DISTRIBUTION_REGISTRY_DOMAIN :: bytes where
  "REWARDS_DISTRIBUTION_REGISTRY_DOMAIN = string_bytes ''suwappu-rewards-distribution-registry-v1''"

definition VALIDATOR_DELEGATION_REGISTRY_DOMAIN :: bytes where
  "VALIDATOR_DELEGATION_REGISTRY_DOMAIN = string_bytes ''suwappu-validator-delegation-registry-v1''"

definition derive :: "hasher \<Rightarrow> bytes \<Rightarrow> address" where
  "derive H domain = of_be (take 20 (be_bytes 32 (H domain)))"

definition l2_registry_address :: "hasher \<Rightarrow> address" where
  "l2_registry_address H = derive H L2_REGISTRY_DOMAIN"

definition insurance_pool_address :: "hasher \<Rightarrow> address" where
  "insurance_pool_address H = derive H INSURANCE_POOL_DOMAIN"

definition treasury_address :: "hasher \<Rightarrow> address" where
  "treasury_address H = derive H TREASURY_DOMAIN"

definition bridge_escrow_address :: "hasher \<Rightarrow> address" where
  "bridge_escrow_address H = derive H BRIDGE_ESCROW_DOMAIN"

definition force_include_registry_address :: "hasher \<Rightarrow> address" where
  "force_include_registry_address H = derive H FORCE_INCLUDE_REGISTRY_DOMAIN"

definition sequencer_bond_address :: "hasher \<Rightarrow> address" where
  "sequencer_bond_address H = derive H SEQUENCER_BOND_DOMAIN"

definition safety_bond_address :: "hasher \<Rightarrow> address" where
  "safety_bond_address H = derive H SAFETY_BOND_DOMAIN"

definition asset_registry_address :: "hasher \<Rightarrow> address" where
  "asset_registry_address H = derive H ASSET_REGISTRY_DOMAIN"

definition ejection_registry_address :: "hasher \<Rightarrow> address" where
  "ejection_registry_address H = derive H EJECTION_REGISTRY_DOMAIN"

definition burn_nullifier_registry_address :: "hasher \<Rightarrow> address" where
  "burn_nullifier_registry_address H = derive H BURN_NULLIFIER_REGISTRY_DOMAIN"

definition equivocation_registry_address :: "hasher \<Rightarrow> address" where
  "equivocation_registry_address H = derive H EQUIVOCATION_REGISTRY_DOMAIN"

definition authority_registry_address :: "hasher \<Rightarrow> address" where
  "authority_registry_address H = derive H AUTHORITY_REGISTRY_DOMAIN"

definition validator_registry_address :: "hasher \<Rightarrow> address" where
  "validator_registry_address H = derive H VALIDATOR_REGISTRY_DOMAIN"

definition authority_stake_pool_address :: "hasher \<Rightarrow> address" where
  "authority_stake_pool_address H = derive H AUTHORITY_STAKE_POOL_DOMAIN"

definition validator_stake_pool_address :: "hasher \<Rightarrow> address" where
  "validator_stake_pool_address H = derive H VALIDATOR_STAKE_POOL_DOMAIN"

definition authority_rewards_pool_address :: "hasher \<Rightarrow> address" where
  "authority_rewards_pool_address H = derive H AUTHORITY_REWARDS_POOL_DOMAIN"

definition validator_rewards_pool_address :: "hasher \<Rightarrow> address" where
  "validator_rewards_pool_address H = derive H VALIDATOR_REWARDS_POOL_DOMAIN"

definition inflation_registry_address :: "hasher \<Rightarrow> address" where
  "inflation_registry_address H = derive H INFLATION_REGISTRY_DOMAIN"

definition rewards_distribution_registry_address :: "hasher \<Rightarrow> address" where
  "rewards_distribution_registry_address H = derive H REWARDS_DISTRIBUTION_REGISTRY_DOMAIN"

definition validator_delegation_registry_address :: "hasher \<Rightarrow> address" where
  "validator_delegation_registry_address H = derive H VALIDATOR_DELEGATION_REGISTRY_DOMAIN"

definition is_reserved :: "hasher \<Rightarrow> address \<Rightarrow> bool" where
  "is_reserved H addr \<longleftrightarrow>
     addr = l2_registry_address H \<or> addr = insurance_pool_address H \<or> addr = treasury_address H \<or>
     addr = bridge_escrow_address H \<or> addr = force_include_registry_address H \<or>
     addr = sequencer_bond_address H \<or> addr = safety_bond_address H \<or> addr = asset_registry_address H \<or>
     addr = ejection_registry_address H \<or> addr = burn_nullifier_registry_address H \<or>
     addr = equivocation_registry_address H \<or> addr = authority_registry_address H \<or>
     addr = validator_registry_address H \<or> addr = authority_stake_pool_address H \<or>
     addr = validator_stake_pool_address H \<or> addr = authority_rewards_pool_address H \<or>
     addr = validator_rewards_pool_address H \<or> addr = inflation_registry_address H \<or>
     addr = rewards_distribution_registry_address H \<or> addr = validator_delegation_registry_address H"

section \<open>Distinct addresses\<close>

definition reserved_addresses :: "hasher \<Rightarrow> address list" where
  "reserved_addresses H =
     [l2_registry_address H, insurance_pool_address H, treasury_address H, bridge_escrow_address H,
      force_include_registry_address H, sequencer_bond_address H, safety_bond_address H,
      asset_registry_address H, ejection_registry_address H, burn_nullifier_registry_address H,
      equivocation_registry_address H, authority_registry_address H, validator_registry_address H,
      authority_stake_pool_address H, validator_stake_pool_address H, authority_rewards_pool_address H,
      validator_rewards_pool_address H, inflation_registry_address H,
      rewards_distribution_registry_address H, validator_delegation_registry_address H]"

definition reserved_distinct :: "hasher \<Rightarrow> bool" where
  "reserved_distinct H \<longleftrightarrow> distinct (reserved_addresses H)"

text \<open>A function under which the addresses differ: it reads the input backwards.\<close>

definition demo_blake :: hasher where
  "demo_blake bs = of_be (take 32 (rev bs @ replicate 32 0))"

lemma is_reserved_iff: "is_reserved H a \<longleftrightarrow> a \<in> set (reserved_addresses H)"
  by (auto simp: is_reserved_def reserved_addresses_def)

lemmas reserved_address_defs =
  l2_registry_address_def insurance_pool_address_def treasury_address_def bridge_escrow_address_def
   force_include_registry_address_def sequencer_bond_address_def safety_bond_address_def
   asset_registry_address_def ejection_registry_address_def burn_nullifier_registry_address_def
   equivocation_registry_address_def authority_registry_address_def validator_registry_address_def
   authority_stake_pool_address_def validator_stake_pool_address_def
   authority_rewards_pool_address_def validator_rewards_pool_address_def
   inflation_registry_address_def rewards_distribution_registry_address_def
   validator_delegation_registry_address_def

lemmas reserved_domain_defs =
  L2_REGISTRY_DOMAIN_def INSURANCE_POOL_DOMAIN_def TREASURY_DOMAIN_def BRIDGE_ESCROW_DOMAIN_def
   FORCE_INCLUDE_REGISTRY_DOMAIN_def SEQUENCER_BOND_DOMAIN_def SAFETY_BOND_DOMAIN_def
   ASSET_REGISTRY_DOMAIN_def EJECTION_REGISTRY_DOMAIN_def BURN_NULLIFIER_REGISTRY_DOMAIN_def
   EQUIVOCATION_REGISTRY_DOMAIN_def AUTHORITY_REGISTRY_DOMAIN_def VALIDATOR_REGISTRY_DOMAIN_def
   AUTHORITY_STAKE_POOL_DOMAIN_def VALIDATOR_STAKE_POOL_DOMAIN_def
   AUTHORITY_REWARDS_POOL_DOMAIN_def VALIDATOR_REWARDS_POOL_DOMAIN_def
   INFLATION_REGISTRY_DOMAIN_def REWARDS_DISTRIBUTION_REGISTRY_DOMAIN_def
   VALIDATOR_DELEGATION_REGISTRY_DOMAIN_def

definition reserved_domains :: "bytes list" where
  "reserved_domains =
     [L2_REGISTRY_DOMAIN, INSURANCE_POOL_DOMAIN, TREASURY_DOMAIN, BRIDGE_ESCROW_DOMAIN,
 FORCE_INCLUDE_REGISTRY_DOMAIN, SEQUENCER_BOND_DOMAIN, SAFETY_BOND_DOMAIN, ASSET_REGISTRY_DOMAIN,
 EJECTION_REGISTRY_DOMAIN, BURN_NULLIFIER_REGISTRY_DOMAIN, EQUIVOCATION_REGISTRY_DOMAIN,
 AUTHORITY_REGISTRY_DOMAIN, VALIDATOR_REGISTRY_DOMAIN, AUTHORITY_STAKE_POOL_DOMAIN,
 VALIDATOR_STAKE_POOL_DOMAIN, AUTHORITY_REWARDS_POOL_DOMAIN, VALIDATOR_REWARDS_POOL_DOMAIN,
 INFLATION_REGISTRY_DOMAIN, REWARDS_DISTRIBUTION_REGISTRY_DOMAIN,
 VALIDATOR_DELEGATION_REGISTRY_DOMAIN]"

lemma reserved_addresses_derive: "reserved_addresses H = map (derive H) reserved_domains"
  by (simp add: reserved_addresses_def reserved_domains_def reserved_address_defs)

lemma demo_derive: "derive demo_blake domain = of_be (take 20 (rev domain @ replicate 32 0))"
proof -
  have "be_bytes 32 (demo_blake domain) = take 32 (rev domain @ replicate 32 0)"
    unfolding demo_blake_def by (rule be_bytes_of_be) simp_all
  then show ?thesis
    by (simp only: derive_def take_take) simp
qed

lemma demo_domains_distinct:
  "distinct (map (\<lambda>d. take 20 (rev d @ replicate 32 (0 :: byte))) reserved_domains)"
  by (simp add: reserved_domains_def reserved_domain_defs string_bytes_def)

lemma demo_reserved_distinct: "reserved_distinct demo_blake"
proof -
  let ?pre = "\<lambda>d. take 20 (rev d @ replicate 32 (0 :: byte))"
  have "inj_on (of_be :: bytes \<Rightarrow> address) (set (map ?pre reserved_domains))"
    by (rule inj_onI) (auto simp: of_be_inject [of _ 20, where ?'a = 160])
  then have "distinct (map (of_be :: bytes \<Rightarrow> address) (map ?pre reserved_domains))"
    using demo_domains_distinct by (simp only: distinct_map [of of_be])
  then show ?thesis
    unfolding reserved_distinct_def reserved_addresses_derive
    by (simp only: map_map comp_def demo_derive [abs_def])
qed

lemma demo_domain_heads:
  "\<forall>d \<in> set reserved_domains. hd (take 20 (rev d @ replicate 32 (0 :: byte))) \<noteq> 0"
  by (simp add: reserved_domains_def reserved_domain_defs string_bytes_def)

lemma demo_not_reserved:
  assumes "hd (be_bytes 20 a) = 0"
  shows "\<not> is_reserved demo_blake a"
proof
  assume "is_reserved demo_blake a"
  then obtain d where d: "d \<in> set reserved_domains" "a = of_be (take 20 (rev d @ replicate 32 0))"
    by (auto simp: is_reserved_iff reserved_addresses_derive demo_derive)
  then have "be_bytes 20 a = take 20 (rev d @ replicate 32 0)"
    by (simp add: be_bytes_of_be)
  then show False
    using assms demo_domain_heads d(1) by simp
qed

end
