(* ===== verification/Registry_Codec.thy ===== *)
theory Registry_Codec
  imports Ordered_Map Reserved
begin

text \<open>
  What the registry encodings of \<open>suwappu-execution\<close> share.  Every registry is a \<open>BTreeMap\<close> written as
  a header and a sequence of entries; every decoder is a loop that reads one entry at a cursor and
  inserts it, failing on a duplicate key where the source tests the result of \<open>insert\<close>.

  The locale \<open>entry_codec\<close> is the contract between an entry encoder and an entry reader; the loop's
  round trip and the validity of decoded maps are proved once from it, and every registry
  interprets it on its own encoder and reader.
\<close>

section \<open>Reading fields\<close>

definition read_u32 :: "bytes \<Rightarrow> nat \<Rightarrow> u32" where
  "read_u32 bs cursor = of_be (slice bs cursor 4)"

definition read_u64 :: "bytes \<Rightarrow> nat \<Rightarrow> u64" where
  "read_u64 bs cursor = of_be (slice bs cursor 8)"

definition read_address :: "bytes \<Rightarrow> nat \<Rightarrow> address" where
  "read_address bs cursor = of_be (slice bs cursor 20)"

definition read_hash32 :: "bytes \<Rightarrow> nat \<Rightarrow> hash32" where
  "read_hash32 bs cursor = of_be (slice bs cursor 32)"

lemmas read_defs = read_u32_def read_u64_def read_address_def read_hash32_def

lemma slice_pre [codec_simps]: "slice (pre @ xs) (length pre + k) n = slice xs k n"
  by (simp add: slice_def)

lemma slice_pre0 [codec_simps]: "slice (pre @ xs) (length pre) n = slice xs 0 n"
  by (simp add: slice_def)

lemma slice_Cons [codec_simps]: "0 < k \<Longrightarrow> slice (x # xs) k n = slice xs (k - 1) n"
  by (cases k) (simp_all add: slice_def)

section \<open>The decoding loop\<close>

text \<open>\<open>dup\<close> is the error of a repeated key, \<open>None\<close> where the source ignores the result of \<open>insert\<close>.\<close>

fun decode_entries ::
  "(bytes \<Rightarrow> nat \<Rightarrow> 'e + ('k::linorder \<times> 'v \<times> nat)) \<Rightarrow> 'e option \<Rightarrow> nat \<Rightarrow> bytes \<Rightarrow> nat \<Rightarrow>
   ('k, 'v) btmap \<Rightarrow> 'e + (('k, 'v) btmap \<times> nat)" where
  "decode_entries rd dup 0 bs cursor m = Inr (m, cursor)"
| "decode_entries rd dup (Suc n) bs cursor m =
     res_bind (rd bs cursor) (\<lambda>(k, v, cursor').
       case dup of
         Some e \<Rightarrow> if bt_contains m k then Inl e
                   else decode_entries rd dup n bs cursor' (bt_insert k v m)
       | None \<Rightarrow> decode_entries rd dup n bs cursor' (bt_insert k v m))"

definition encode_entries :: "('k \<Rightarrow> 'v \<Rightarrow> bytes) \<Rightarrow> ('k \<times> 'v) list \<Rightarrow> bytes" where
  "encode_entries enc es = concat (map (\<lambda>(k, v). enc k v) es)"

text \<open>The registries whose entries have a fixed size and whose header is a version and a count.\<close>

definition decode_fixed ::
  "address \<Rightarrow> string \<Rightarrow> string \<Rightarrow> string \<Rightarrow> u32 \<Rightarrow> nat \<Rightarrow>
   (bytes \<Rightarrow> nat \<Rightarrow> ExecutionError + ('k::linorder \<times> 'v \<times> nat)) \<Rightarrow> ExecutionError option \<Rightarrow> bytes \<Rightarrow>
   ExecutionError + ('k, 'v) btmap" where
  "decode_fixed addr header_missing version_mismatch size_mismatch version entry_bytes rd dup bs =
     (if bs = [] then Inr bt_empty
      else if length bs < 8 then Inl (CorruptStateRecord addr header_missing)
      else if read_u32 bs 0 \<noteq> version then Inl (CorruptStateRecord addr version_mismatch)
      else let count = unat (read_u32 bs 4)
           in if length bs \<noteq> 8 + count * entry_bytes then Inl (CorruptStateRecord addr size_mismatch)
              else res_bind (decode_entries rd dup count bs 8 bt_empty) (\<lambda>(m, cursor). Inr m))"

definition encode_fixed :: "u32 \<Rightarrow> ('k \<Rightarrow> 'v \<Rightarrow> bytes) \<Rightarrow> ('k::linorder, 'v) btmap \<Rightarrow> bytes" where
  "encode_fixed version enc m =
     be_bytes 4 version @ be_bytes 4 (word_of_nat (bt_len m) :: u32) @ encode_entries enc (bt_entries m)"

definition bt_all :: "('k::linorder \<Rightarrow> 'v \<Rightarrow> bool) \<Rightarrow> ('k, 'v) btmap \<Rightarrow> bool" where
  "bt_all P m \<longleftrightarrow> list_all (\<lambda>(k, v). P k v) (bt_entries m)"

lemma encode_entries_simps [simp]:
  "encode_entries enc [] = []"
  "encode_entries enc ((k, v) # es) = enc k v @ encode_entries enc es"
  by (simp_all add: encode_entries_def)

lemma length_encode_entries:
  "(\<And>k v. length (enc k v) = w) \<Longrightarrow> length (encode_entries enc es) = length es * w"
  by (induction es) auto

lemma bt_all_iff: "bt_all P m \<longleftrightarrow> (\<forall>k v. bt_get m k = Some v \<longrightarrow> P k v)"
  by (auto simp: bt_all_def list_all_iff bt.entries_get)

lemma bt_all_empty [simp]: "bt_all P bt_empty"
  by (simp add: bt_all_iff bt.get_empty)

lemma bt_all_insert: "bt_all P m \<Longrightarrow> P k v \<Longrightarrow> bt_all P (bt_insert k v m)"
  by (simp add: bt_all_iff bt.get_insert)

lemma bt_all_get: "bt_all P m \<Longrightarrow> bt_get m k = Some v \<Longrightarrow> P k v"
  by (simp add: bt_all_iff)

lemma decode_entries_len:
  "decode_entries rd dup n bs c m = Inr (m', c') \<Longrightarrow> bt_len m' \<le> bt_len m + n"
proof (induction n arbitrary: c m)
  case (Suc n)
  then obtain k v c1 where rd: "decode_entries rd dup n bs c1 (bt_insert k v m) = Inr (m', c')"
    by (auto simp: outcome_simps split: option.splits if_splits)
  then show ?case
    using Suc.IH [OF rd] bt_len_insert_le [of k v m] by simp
qed simp

section \<open>The contract of an entry codec\<close>

locale entry_codec =
  fixes rd :: "bytes \<Rightarrow> nat \<Rightarrow> ExecutionError + ('k::linorder \<times> 'v \<times> nat)"
    and enc :: "'k \<Rightarrow> 'v \<Rightarrow> bytes"
    and valid :: "'k \<Rightarrow> 'v \<Rightarrow> bool"
  assumes rd_enc: "valid k v \<Longrightarrow>
      rd (pre @ enc k v @ rest) (length pre) = Inr (k, v, length pre + length (enc k v))"
    and rd_valid: "rd bs c = Inr (k, v, c') \<Longrightarrow> valid k v"
begin

lemma loop_valid:
  "decode_entries rd dup n bs c m = Inr (m', c') \<Longrightarrow> bt_all valid m \<Longrightarrow> bt_all valid m'"
proof (induction n arbitrary: c m)
  case (Suc n)
  then obtain k v c1 where step: "rd bs c = Inr (k, v, c1)"
    and rest: "decode_entries rd dup n bs c1 (bt_insert k v m) = Inr (m', c')"
    by (auto simp: outcome_simps split: option.splits if_splits)
  show ?case
    using Suc.IH [OF rest] bt_all_insert [OF Suc.prems(2) rd_valid [OF step]] by blast
qed simp

lemma loop_entries:
  "list_all (\<lambda>(k, v). valid k v) es \<Longrightarrow> distinct (map fst es) \<Longrightarrow> fst ` set es \<inter> set (bt_keys m) = {} \<Longrightarrow>
   decode_entries rd dup (length es) (pre @ encode_entries enc es @ rest) (length pre) m =
     Inr (foldl (\<lambda>m (k, v). bt_insert k v m) m es, length pre + length (encode_entries enc es))"
proof (induction es arbitrary: pre m)
  case (Cons e es)
  obtain k v where e: "e = (k, v)" by fastforce
  have fresh: "\<not> bt_contains m k"
    using Cons.prems(3) by (simp add: e bt_contains_def bt_keys_def)
  have keys: "fst ` set es \<inter> set (bt_keys (bt_insert k v m)) = {}"
    using Cons.prems(2,3) by (auto simp: e set_bt_keys bt.get_insert)
  have "rd (pre @ enc k v @ encode_entries enc es @ rest) (length pre) = Inr (k, v, length pre + length (enc k v))"
    using rd_enc [of k v pre "encode_entries enc es @ rest"] Cons.prems(1) by (simp add: e)
  moreover have "decode_entries rd dup (length es) ((pre @ enc k v) @ encode_entries enc es @ rest)
      (length (pre @ enc k v)) (bt_insert k v m) =
    Inr (foldl (\<lambda>m (k, v). bt_insert k v m) (bt_insert k v m) es,
         length (pre @ enc k v) + length (encode_entries enc es))"
    using Cons.prems keys by (intro Cons.IH) (simp_all add: e)
  ultimately show ?case
    by (cases dup) (simp_all add: e fresh ac_simps)
qed simp

lemma loop_round_trip:
  assumes "bt_all valid m"
  shows "decode_entries rd dup (bt_len m) (pre @ encode_entries enc (bt_entries m) @ rest) (length pre) bt_empty =
    Inr (m, length pre + length (encode_entries enc (bt_entries m)))"
  using loop_entries [of "bt_entries m" bt_empty dup pre rest] assms bt.keys_distinct [of m] bt.rebuild [of m]
  by (simp add: bt_all_def bt_len_def set_bt_keys bt.get_empty)

lemma fixed_round_trip:
  assumes width: "\<And>k v. length (enc k v) = w" and m: "bt_all valid m" "bt_len m < 2 ^ 32"
  shows "decode_fixed addr h v z version w rd dup (encode_fixed version enc m) = Inr m"
proof -
  let ?bs = "encode_fixed version enc m"
  have count: "unat (read_u32 ?bs 4) = bt_len m"
    using m(2) by (simp add: encode_fixed_def read_u32_def codec_simps unsigned_of_nat take_bit_nat_eq_self)
  have version: "read_u32 ?bs 0 = version"
    by (simp add: encode_fixed_def read_u32_def codec_simps)
  have len: "length ?bs = 8 + bt_len m * w"
    by (simp add: encode_fixed_def length_encode_entries [of enc, OF width] bt_len_def)
  have "decode_entries rd dup (bt_len m) ?bs 8 bt_empty = Inr (m, length ?bs)"
    using loop_round_trip [OF m(1), of dup "be_bytes 4 version @ be_bytes 4 (word_of_nat (bt_len m) :: u32)" "[]"]
    by (simp add: encode_fixed_def)
  moreover have "?bs \<noteq> []"
    using len by auto
  ultimately show ?thesis
    by (simp add: decode_fixed_def version count len)
qed

lemma fixed_valid:
  assumes "decode_fixed addr h v z version w rd dup bs = Inr m"
  shows "bt_all valid m \<and> bt_len m < 2 ^ 32"
proof (cases "bs = []")
  case False
  with assms obtain c where loop: "decode_entries rd dup (unat (read_u32 bs 4)) bs 8 bt_empty = Inr (m, c)"
    by (auto simp: decode_fixed_def Let_def outcome_simps split: if_splits)
  show ?thesis
    using loop_valid [OF loop] decode_entries_len [OF loop] unsigned_less [of "read_u32 bs 4", where ?'a = nat]
    by simp
qed (use assms in \<open>simp add: decode_fixed_def\<close>)

end

section \<open>The contract of a stored registry\<close>

text \<open>What an intent that decodes a registry, changes one entry and writes the encoding back relies on.\<close>

locale map_store =
  fixes dec :: "bytes \<Rightarrow> ExecutionError + ('k::linorder, 'v) btmap"
    and enc :: "('k, 'v) btmap \<Rightarrow> bytes"
    and valid :: "'k \<Rightarrow> 'v \<Rightarrow> bool"
  assumes round_trip: "bt_all valid m \<Longrightarrow> bt_len m < 2 ^ 32 \<Longrightarrow> dec (enc m) = Inr m"
    and decoded_valid: "dec bs = Inr m \<Longrightarrow> bt_all valid m \<and> bt_len m < 2 ^ 32"
begin

lemma store_insert:
  assumes "dec bs = Inr m" "valid k v" "Suc (bt_len m) < 2 ^ 32"
  shows "dec (enc (bt_insert k v m)) = Inr (bt_insert k v m)"
  using decoded_valid [OF assms(1)] assms(2,3) bt_len_insert_le [of k v m]
  by (intro round_trip bt_all_insert) auto

lemma store_again: "dec bs = Inr m \<Longrightarrow> dec (enc m) = Inr m"
  using decoded_valid [of bs m] by (intro round_trip) auto

end

end
