(* ===== verification/Slot_Registry.thy ===== *)
theory Slot_Registry
  imports Registry_Codec
begin

text \<open>
  The on-chain ring registries, \<open>suwappu-execution/src/authority_registry.rs\<close> and
  \<open>validator_registry.rs\<close>.  The two files are the same code over the words ``authority'' and
  ``validator'', so the record, the entry layout and the decoder are written once over the ring's
  name, its reserved address and its status byte, and \<open>authority_encode\<close>, \<open>authority_decode\<close>,
  \<open>validator_encode\<close>, \<open>validator_decode\<close> are the functions of the two files.

  Version 3 is what the encoder writes; the decoder also accepts versions 1 and 2, which lack the
  last one or two of the fields \<open>deposited_stake\<close> and \<open>exit_block_height\<close>.
\<close>

section \<open>Records\<close>

definition MAX_MLDSA_PK_BYTES :: nat where "MAX_MLDSA_PK_BYTES = 2048"
definition MAX_BLS_PK_BYTES :: nat where "MAX_BLS_PK_BYTES = 128"
definition SLOT_HEADER_BYTES :: nat where "SLOT_HEADER_BYTES = 8"
definition ENTRY_FIXED_BYTES_V1 :: nat where "ENTRY_FIXED_BYTES_V1 = 4 + 8 + 1 + 4 + 4"
definition ENTRY_FIXED_BYTES_V2 :: nat where "ENTRY_FIXED_BYTES_V2 = ENTRY_FIXED_BYTES_V1 + 8"
definition ENTRY_FIXED_BYTES :: nat where "ENTRY_FIXED_BYTES = ENTRY_FIXED_BYTES_V2 + 8"

lemmas slot_size_defs = MAX_MLDSA_PK_BYTES_def MAX_BLS_PK_BYTES_def SLOT_HEADER_BYTES_def
  ENTRY_FIXED_BYTES_V1_def ENTRY_FIXED_BYTES_V2_def ENTRY_FIXED_BYTES_def

record 's slot_record =
  sr_mldsa_public_key :: bytes
  sr_bls_public_key :: bytes
  sr_stake_suwappu :: u64
  sr_deposited_stake :: u64
  sr_exit_block_height :: u64
  sr_status :: 's

type_synonym AuthorityRecord = "AuthorityStatus slot_record"
type_synonym ValidatorRecord = "ValidatorStatus slot_record"

fun auth_as_byte :: "AuthorityStatus \<Rightarrow> u8" where
  "auth_as_byte AuthActive = 0"
| "auth_as_byte AuthExiting = 1"
| "auth_as_byte AuthEjected = 2"

definition auth_from_byte :: "hasher \<Rightarrow> u8 \<Rightarrow> ExecutionError + AuthorityStatus" where
  "auth_from_byte H b =
     (if b = 0 then Inr AuthActive else if b = 1 then Inr AuthExiting else if b = 2 then Inr AuthEjected
      else Inl (CorruptStateRecord (authority_registry_address H) ''authority status out of range''))"

fun val_as_byte :: "ValidatorStatus \<Rightarrow> u8" where
  "val_as_byte ValActive = 0"
| "val_as_byte ValExiting = 1"
| "val_as_byte ValEjected = 2"

definition val_from_byte :: "hasher \<Rightarrow> u8 \<Rightarrow> ExecutionError + ValidatorStatus" where
  "val_from_byte H b =
     (if b = 0 then Inr ValActive else if b = 1 then Inr ValExiting else if b = 2 then Inr ValEjected
      else Inl (CorruptStateRecord (validator_registry_address H) ''validator status out of range''))"

section \<open>Encoding\<close>

definition slot_enc :: "('s \<Rightarrow> u8) \<Rightarrow> u32 \<Rightarrow> 's slot_record \<Rightarrow> bytes" where
  "slot_enc as_byte slot rec =
     be_bytes 4 slot @ be_bytes 8 (sr_stake_suwappu rec) @ be_bytes 8 (sr_deposited_stake rec) @
     be_bytes 8 (sr_exit_block_height rec) @ [as_byte (sr_status rec)] @
     be_bytes 4 (len_u32 (sr_mldsa_public_key rec)) @ sr_mldsa_public_key rec @
     be_bytes 4 (len_u32 (sr_bls_public_key rec)) @ sr_bls_public_key rec"

definition slot_encode :: "('s \<Rightarrow> u8) \<Rightarrow> (u32, 's slot_record) btmap \<Rightarrow> bytes" where
  "slot_encode as_byte m =
     be_bytes 4 (3 :: u32) @ be_bytes 4 (word_of_nat (bt_len m) :: u32) @
     encode_entries (slot_enc as_byte) (bt_entries m)"

definition authority_encode :: "(u32, AuthorityRecord) btmap \<Rightarrow> bytes" where
  "authority_encode = slot_encode auth_as_byte"

definition validator_encode :: "(u32, ValidatorRecord) btmap \<Rightarrow> bytes" where
  "validator_encode = slot_encode val_as_byte"

section \<open>Decoding\<close>

type_synonym slot_layout = "bool \<times> bool \<times> nat"

definition slot_layout_of :: "string \<Rightarrow> address \<Rightarrow> u32 \<Rightarrow> ExecutionError + slot_layout" where
  "slot_layout_of ring addr version =
     (if version = 3 then Inr (True, True, ENTRY_FIXED_BYTES)
      else if version = 2 then Inr (True, False, ENTRY_FIXED_BYTES_V2)
      else if version = 1 then Inr (False, False, ENTRY_FIXED_BYTES_V1)
      else Inl (CorruptStateRecord addr (ring @ '' registry version mismatch'')))"

definition read_slot ::
  "string \<Rightarrow> address \<Rightarrow> (u8 \<Rightarrow> ExecutionError + 's) \<Rightarrow> slot_layout \<Rightarrow> bytes \<Rightarrow> nat \<Rightarrow>
   ExecutionError + (u32 \<times> 's slot_record \<times> nat)" where
  "read_slot ring addr from_byte layout bs cursor =
     (case layout of (has_deposited, has_exit_height, entry_fixed_bytes) \<Rightarrow>
       if length bs < cursor + entry_fixed_bytes
       then Inl (CorruptStateRecord addr (ring @ '' registry entry truncated''))
       else
         let slot = read_u32 bs cursor;
             cursor = cursor + 4;
             stake_suwappu = read_u64 bs cursor;
             cursor = cursor + 8;
             deposited_stake = (if has_deposited then read_u64 bs cursor else 0);
             cursor = (if has_deposited then cursor + 8 else cursor);
             exit_block_height = (if has_exit_height then read_u64 bs cursor else 0);
             cursor = (if has_exit_height then cursor + 8 else cursor)
         in res_bind (from_byte (bs ! cursor)) (\<lambda>status.
              let cursor = cursor + 1;
                  mldsa_len = unat (read_u32 bs cursor);
                  cursor = cursor + 4
              in if MAX_MLDSA_PK_BYTES < mldsa_len \<or> length bs < cursor + mldsa_len
                 then Inl (CorruptStateRecord addr (ring @ '' mldsa_pk length invalid''))
                 else
                   let mldsa_public_key = slice bs cursor mldsa_len;
                       cursor = cursor + mldsa_len
                   in if length bs < cursor + 4
                      then Inl (CorruptStateRecord addr (ring @ '' bls_pk length missing''))
                      else
                        let bls_len = unat (read_u32 bs cursor);
                            cursor = cursor + 4
                        in if MAX_BLS_PK_BYTES < bls_len \<or> length bs < cursor + bls_len
                           then Inl (CorruptStateRecord addr (ring @ '' bls_pk length invalid''))
                           else Inr (slot,
                                \<lparr>sr_mldsa_public_key = mldsa_public_key,
                                 sr_bls_public_key = slice bs cursor bls_len,
                                 sr_stake_suwappu = stake_suwappu,
                                 sr_deposited_stake = deposited_stake,
                                 sr_exit_block_height = exit_block_height,
                                 sr_status = status\<rparr>,
                                cursor + bls_len)))"

definition slot_decode ::
  "string \<Rightarrow> address \<Rightarrow> (u8 \<Rightarrow> ExecutionError + 's) \<Rightarrow> bytes \<Rightarrow> ExecutionError + (u32, 's slot_record) btmap" where
  "slot_decode ring addr from_byte bs =
     (if bs = [] then Inr bt_empty
      else if length bs < SLOT_HEADER_BYTES
      then Inl (CorruptStateRecord addr (ring @ '' registry header missing''))
      else res_bind (slot_layout_of ring addr (read_u32 bs 0)) (\<lambda>layout.
        res_bind (decode_entries (read_slot ring addr from_byte layout)
                    (Some (CorruptStateRecord addr (ring @ '' registry has duplicate '' @ ring @ ''_id'')))
                    (unat (read_u32 bs 4)) bs SLOT_HEADER_BYTES bt_empty) (\<lambda>(m, cursor).
          if cursor \<noteq> length bs then Inl (CorruptStateRecord addr (ring @ '' registry trailing bytes''))
          else Inr m)))"

definition authority_decode :: "hasher \<Rightarrow> bytes \<Rightarrow> ExecutionError + (u32, AuthorityRecord) btmap" where
  "authority_decode H = slot_decode ''authority'' (authority_registry_address H) (auth_from_byte H)"

definition validator_decode :: "hasher \<Rightarrow> bytes \<Rightarrow> ExecutionError + (u32, ValidatorRecord) btmap" where
  "validator_decode H = slot_decode ''validator'' (validator_registry_address H) (val_from_byte H)"

section \<open>Reference definitions\<close>

text \<open>Records that fit the field limits, and the layouts of the two older versions.\<close>

definition slot_fits :: "u32 \<Rightarrow> 's slot_record \<Rightarrow> bool" where
  "slot_fits slot rec \<longleftrightarrow>
     length (sr_mldsa_public_key rec) \<le> MAX_MLDSA_PK_BYTES \<and> length (sr_bls_public_key rec) \<le> MAX_BLS_PK_BYTES"

definition slot_enc_with :: "bool \<Rightarrow> bool \<Rightarrow> ('s \<Rightarrow> u8) \<Rightarrow> u32 \<Rightarrow> 's slot_record \<Rightarrow> bytes" where
  "slot_enc_with dep ex as_byte slot rec =
     be_bytes 4 slot @ be_bytes 8 (sr_stake_suwappu rec) @
     (if dep then be_bytes 8 (sr_deposited_stake rec) else []) @
     (if ex then be_bytes 8 (sr_exit_block_height rec) else []) @ [as_byte (sr_status rec)] @
     be_bytes 4 (len_u32 (sr_mldsa_public_key rec)) @ sr_mldsa_public_key rec @
     be_bytes 4 (len_u32 (sr_bls_public_key rec)) @ sr_bls_public_key rec"

definition slot_fits_with :: "bool \<Rightarrow> bool \<Rightarrow> u32 \<Rightarrow> 's slot_record \<Rightarrow> bool" where
  "slot_fits_with dep ex slot rec \<longleftrightarrow> slot_fits slot rec \<and>
     (dep \<or> sr_deposited_stake rec = 0) \<and> (ex \<or> sr_exit_block_height rec = 0)"

definition slot_fixed :: "bool \<Rightarrow> bool \<Rightarrow> nat" where
  "slot_fixed dep ex = 21 + (if dep then 8 else 0) + (if ex then 8 else 0)"

text \<open>The bytes of a registry in any of the three versions.\<close>

definition slot_encode_with :: "u32 \<Rightarrow> bool \<Rightarrow> bool \<Rightarrow> ('s \<Rightarrow> u8) \<Rightarrow> (u32, 's slot_record) btmap \<Rightarrow> bytes" where
  "slot_encode_with version dep ex as_byte m =
     be_bytes 4 version @ be_bytes 4 (word_of_nat (bt_len m) :: u32) @
     encode_entries (slot_enc_with dep ex as_byte) (bt_entries m)"

lemma slot_enc_current: "slot_enc as_byte = slot_enc_with True True as_byte"
  by (simp add: fun_eq_iff slot_enc_def slot_enc_with_def)

lemma read_slot_enc:
  assumes "\<And>s. from_byte (as_byte s) = Inr s" "slot_fits_with dep ex slot rec"
  shows "read_slot ring addr from_byte (dep, ex, slot_fixed dep ex) (pre @ slot_enc_with dep ex as_byte slot rec @ rest)
      (length pre) = Inr (slot, rec, length pre + length (slot_enc_with dep ex as_byte slot rec))"
proof -
  have len: "unat (len_u32 (sr_mldsa_public_key rec)) = length (sr_mldsa_public_key rec)"
    "unat (len_u32 (sr_bls_public_key rec)) = length (sr_bls_public_key rec)"
    using assms(2) by (auto intro!: len_u32_unat simp: slot_fits_with_def slot_fits_def slot_size_defs)
  show ?thesis
    using assms
    by (cases dep; cases ex)
      (simp_all add: read_slot_def slot_enc_with_def slot_fixed_def Let_def read_defs codec_simps len nth_append
        slot_fits_with_def slot_fits_def)
qed

lemma read_slot_fits:
  assumes "read_slot ring addr from_byte (dep, ex, fixed) bs c = Inr (slot, rec, c')"
  shows "slot_fits_with dep ex slot rec"
  using assms
  by (auto simp: read_slot_def Let_def outcome_simps slot_fits_with_def slot_fits_def length_slice split: if_splits)

lemma slot_fits_current: "slot_fits_with True True = slot_fits"
  by (simp add: fun_eq_iff slot_fits_with_def)

lemma slot_entry_codec:
  assumes "\<And>s. from_byte (as_byte s) = Inr s"
  shows "entry_codec (read_slot ring addr from_byte (dep, ex, slot_fixed dep ex)) (slot_enc_with dep ex as_byte)
    (slot_fits_with dep ex)"
  using read_slot_enc [OF assms] read_slot_fits by unfold_locales

interpretation auth_slots: entry_codec
  "read_slot ''authority'' (authority_registry_address H) (auth_from_byte H) (dep, ex, slot_fixed dep ex)"
  "slot_enc_with dep ex auth_as_byte" "slot_fits_with dep ex" for H dep ex
proof (rule slot_entry_codec)
  show "auth_from_byte H (auth_as_byte s) = Inr s" for s
    by (cases s) (simp_all add: auth_from_byte_def)
qed

interpretation val_slots: entry_codec
  "read_slot ''validator'' (validator_registry_address H) (val_from_byte H) (dep, ex, slot_fixed dep ex)"
  "slot_enc_with dep ex val_as_byte" "slot_fits_with dep ex" for H dep ex
proof (rule slot_entry_codec)
  show "val_from_byte H (val_as_byte s) = Inr s" for s
    by (cases s) (simp_all add: val_from_byte_def)
qed

lemma slot_encode_current: "slot_encode as_byte = slot_encode_with 3 True True as_byte"
  by (simp add: fun_eq_iff slot_encode_def slot_encode_with_def slot_enc_current)

lemma slot_layouts:
  "slot_layout_of ring addr 3 = Inr (True, True, slot_fixed True True)"
  "slot_layout_of ring addr 2 = Inr (True, False, slot_fixed True False)"
  "slot_layout_of ring addr 1 = Inr (False, False, slot_fixed False False)"
  by (simp_all add: slot_layout_of_def slot_fixed_def slot_size_defs)

lemma slot_decode_encode_with:
  assumes codec: "entry_codec (read_slot ring addr from_byte (dep, ex, slot_fixed dep ex))
      (slot_enc_with dep ex as_byte) (slot_fits_with dep ex)"
    and layout: "slot_layout_of ring addr version = Inr (dep, ex, slot_fixed dep ex)"
    and m: "bt_all (slot_fits_with dep ex) m" "bt_len m < 2 ^ 32"
  shows "slot_decode ring addr from_byte (slot_encode_with version dep ex as_byte m) = Inr m"
proof -
  let ?bs = "slot_encode_with version dep ex as_byte m"
  have count: "unat (read_u32 ?bs 4) = bt_len m"
    using m(2) by (simp add: slot_encode_with_def read_u32_def codec_simps unsigned_of_nat take_bit_nat_eq_self)
  have version: "read_u32 ?bs 0 = version"
    by (simp add: slot_encode_with_def read_u32_def codec_simps)
  have "decode_entries (read_slot ring addr from_byte (dep, ex, slot_fixed dep ex)) dup (bt_len m) ?bs 8 bt_empty =
      Inr (m, length ?bs)" for dup
    using entry_codec.loop_round_trip [OF codec m(1), of dup
        "be_bytes 4 version @ be_bytes 4 (word_of_nat (bt_len m) :: u32)" "[]"]
    by (simp add: slot_encode_with_def)
  moreover have "8 \<le> length ?bs" "?bs \<noteq> []"
    by (auto simp: slot_encode_with_def simp flip: length_greater_0_conv)
  ultimately show ?thesis
    by (simp add: slot_decode_def version layout count SLOT_HEADER_BYTES_def)
qed

lemma slot_decode_fits:
  assumes codec: "\<And>dep ex. entry_codec (read_slot ring addr from_byte (dep, ex, slot_fixed dep ex))
      (slot_enc_with dep ex as_byte) (slot_fits_with dep ex)"
    and dec: "slot_decode ring addr from_byte bs = Inr m"
  shows "bt_all slot_fits m \<and> bt_len m < 2 ^ 32"
proof (cases "bs = []")
  case False
  with dec obtain dep ex c where layout: "slot_layout_of ring addr (read_u32 bs 0) = Inr (dep, ex, slot_fixed dep ex)"
    and loop: "decode_entries (read_slot ring addr from_byte (dep, ex, slot_fixed dep ex))
      (Some (CorruptStateRecord addr (ring @ '' registry has duplicate '' @ ring @ ''_id'')))
      (unat (read_u32 bs 4)) bs SLOT_HEADER_BYTES bt_empty = Inr (m, c)"
    by (fastforce simp: slot_decode_def outcome_simps slot_layout_of_def slot_fixed_def slot_size_defs split: if_splits)
  have "bt_all (slot_fits_with dep ex) m"
    using entry_codec.loop_valid [OF codec loop] by simp
  then have "bt_all slot_fits m"
    by (simp add: bt_all_iff slot_fits_with_def)
  moreover have "bt_len m < 2 ^ 32"
    using decode_entries_len [OF loop] unsigned_less [of "read_u32 bs 4", where ?'a = nat] by simp
  ultimately show ?thesis by simp
qed (use dec in \<open>simp add: slot_decode_def\<close>)

lemmas authority_codec = slot_decode_encode_with [OF auth_slots.entry_codec_axioms]
lemmas validator_codec = slot_decode_encode_with [OF val_slots.entry_codec_axioms]

lemma authority_round_trip:
  "bt_all slot_fits m \<Longrightarrow> bt_len m < 2 ^ 32 \<Longrightarrow> authority_decode H (authority_encode m) = Inr m"
  unfolding authority_decode_def authority_encode_def slot_encode_current
  by (rule authority_codec [OF slot_layouts(1)]) (simp_all add: slot_fits_current)

lemma validator_round_trip:
  "bt_all slot_fits m \<Longrightarrow> bt_len m < 2 ^ 32 \<Longrightarrow> validator_decode H (validator_encode m) = Inr m"
  unfolding validator_decode_def validator_encode_def slot_encode_current
  by (rule validator_codec [OF slot_layouts(1)]) (simp_all add: slot_fits_current)

lemma authority_decode_fits: "authority_decode H bs = Inr m \<Longrightarrow> bt_all slot_fits m \<and> bt_len m < 2 ^ 32"
  unfolding authority_decode_def by (rule slot_decode_fits [OF auth_slots.entry_codec_axioms])

lemma validator_decode_fits: "validator_decode H bs = Inr m \<Longrightarrow> bt_all slot_fits m \<and> bt_len m < 2 ^ 32"
  unfolding validator_decode_def by (rule slot_decode_fits [OF val_slots.entry_codec_axioms])

interpretation auth_map: map_store "authority_decode H" authority_encode slot_fits for H
  by unfold_locales (rule authority_round_trip authority_decode_fits; assumption)+

interpretation val_map: map_store "validator_decode H" validator_encode slot_fits for H
  by unfold_locales (rule validator_round_trip validator_decode_fits; assumption)+

end
