(* ===== verification/Offense_Registries.thy ===== *)
theory Offense_Registries
  imports Registry_Codec "HOL-Library.Product_Lexorder"
begin

text \<open>
  The fixed-width registries of sequencer obligations and offences and of delegations:
  \<open>force_include.rs\<close>, \<open>equivocation_registry.rs\<close>, \<open>eject_registry.rs\<close>, \<open>burn_nullifier.rs\<close> and
  \<open>delegation_registry.rs\<close> of \<open>suwappu-execution\<close>, each with its record, its identifier and its
  encoder and decoder.
\<close>

section \<open>Force-include obligations\<close>

record ForceIncludeObligation =
  ob_tx_hash :: hash32
  ob_deadline_l1_height :: u64
  ob_submitter :: address
  ob_l2_nonce :: u64
  ob_status :: ObligationStatus

definition OBLIGATION_ENTRY_BYTES :: nat where "OBLIGATION_ENTRY_BYTES = 32 + (32 + 8 + 20 + 8 + 1)"

fun ob_as_byte :: "ObligationStatus \<Rightarrow> u8" where
  "ob_as_byte Pending = 0"
| "ob_as_byte Honored = 1"
| "ob_as_byte Slashed = 2"

definition ob_from_byte :: "hasher \<Rightarrow> u8 \<Rightarrow> ExecutionError + ObligationStatus" where
  "ob_from_byte H b =
     (if b = 0 then Inr Pending else if b = 1 then Inr Honored else if b = 2 then Inr Slashed
      else Inl (CorruptStateRecord (force_include_registry_address H)
                  ''force-include obligation status out of range''))"

definition obligation_id :: "hasher \<Rightarrow> bytes \<Rightarrow> u64 \<Rightarrow> address \<Rightarrow> u64 \<Rightarrow> hash32" where
  "obligation_id H tx deadline_l1_height submitter l2_nonce =
     H (string_bytes ''suwappu-force-include-v1'' @ be_bytes 4 (len_u32 tx) @ tx @
        be_bytes 8 deadline_l1_height @ be_bytes 20 submitter @ be_bytes 8 l2_nonce)"

definition tx_hash :: "hasher \<Rightarrow> bytes \<Rightarrow> hash32" where
  "tx_hash H tx = H tx"

definition obligation_enc :: "hash32 \<Rightarrow> ForceIncludeObligation \<Rightarrow> bytes" where
  "obligation_enc i ob =
     be_bytes 32 i @ be_bytes 32 (ob_tx_hash ob) @ be_bytes 8 (ob_deadline_l1_height ob) @
     be_bytes 20 (ob_submitter ob) @ be_bytes 8 (ob_l2_nonce ob) @ [ob_as_byte (ob_status ob)]"

definition encode_map :: "(hash32, ForceIncludeObligation) btmap \<Rightarrow> bytes" where
  "encode_map m = be_bytes 4 (word_of_nat (bt_len m) :: u32) @ encode_entries obligation_enc (bt_entries m)"

definition read_obligation ::
  "hasher \<Rightarrow> bytes \<Rightarrow> nat \<Rightarrow> ExecutionError + (hash32 \<times> ForceIncludeObligation \<times> nat)" where
  "read_obligation H bs cursor =
     res_bind (ob_from_byte H (bs ! (cursor + 100))) (\<lambda>status.
       Inr (read_hash32 bs cursor,
            \<lparr>ob_tx_hash = read_hash32 bs (cursor + 32), ob_deadline_l1_height = read_u64 bs (cursor + 64),
             ob_submitter = read_address bs (cursor + 72), ob_l2_nonce = read_u64 bs (cursor + 92),
             ob_status = status\<rparr>,
            cursor + 101))"

definition decode_map :: "hasher \<Rightarrow> bytes \<Rightarrow> ExecutionError + (hash32, ForceIncludeObligation) btmap" where
  "decode_map H bs =
     (if bs = [] then Inr bt_empty
      else if length bs < 4
      then Inl (CorruptStateRecord (force_include_registry_address H) ''force-include map header missing'')
      else let count = unat (read_u32 bs 0)
           in if length bs \<noteq> 4 + count * OBLIGATION_ENTRY_BYTES
              then Inl (CorruptStateRecord (force_include_registry_address H) ''force-include map size mismatch'')
              else res_bind (decode_entries (read_obligation H)
                     (Some (CorruptStateRecord (force_include_registry_address H) ''force-include map has duplicate ids''))
                     count bs 4 bt_empty) (\<lambda>(m, cursor). Inr m))"

section \<open>Equivocation and invalid-batch offences\<close>

record EquivocationRecord =
  eq_kind :: OffenseKind
  eq_slashed_at_l1_height :: u64

fun offense_as_byte :: "OffenseKind \<Rightarrow> u8" where
  "offense_as_byte Equivocation_Offense = 0"
| "offense_as_byte InvalidBatch_Offense = 1"

definition offense_from_byte :: "hasher \<Rightarrow> u8 \<Rightarrow> ExecutionError + OffenseKind" where
  "offense_from_byte H b =
     (if b = 0 then Inr Equivocation_Offense else if b = 1 then Inr InvalidBatch_Offense
      else Inl (CorruptStateRecord (equivocation_registry_address H) ''equivocation offense kind out of range''))"

definition equivocation_enc :: "hash32 \<Rightarrow> EquivocationRecord \<Rightarrow> bytes" where
  "equivocation_enc i r = be_bytes 32 i @ [offense_as_byte (eq_kind r)] @ be_bytes 8 (eq_slashed_at_l1_height r)"

definition equivocation_encode :: "(hash32, EquivocationRecord) btmap \<Rightarrow> bytes" where
  "equivocation_encode m = encode_fixed 1 equivocation_enc m"

definition read_equivocation ::
  "hasher \<Rightarrow> bytes \<Rightarrow> nat \<Rightarrow> ExecutionError + (hash32 \<times> EquivocationRecord \<times> nat)" where
  "read_equivocation H bs cursor =
     res_bind (offense_from_byte H (bs ! (cursor + 32))) (\<lambda>kind.
       Inr (read_hash32 bs cursor, \<lparr>eq_kind = kind, eq_slashed_at_l1_height = read_u64 bs (cursor + 33)\<rparr>,
            cursor + 41))"

definition equivocation_decode :: "hasher \<Rightarrow> bytes \<Rightarrow> ExecutionError + (hash32, EquivocationRecord) btmap" where
  "equivocation_decode H =
     decode_fixed (equivocation_registry_address H) ''equivocation registry header missing''
       ''equivocation registry version mismatch'' ''equivocation registry size mismatch'' 1 41
       (read_equivocation H)
       (Some (CorruptStateRecord (equivocation_registry_address H) ''equivocation registry has duplicate keys''))"

section \<open>Sequencer ejections\<close>

record EjectionRecord =
  ej_ejector :: address

definition ejection_enc :: "hash32 \<Rightarrow> EjectionRecord \<Rightarrow> bytes" where
  "ejection_enc i r = be_bytes 32 i @ be_bytes 20 (ej_ejector r)"

definition ejection_encode :: "(hash32, EjectionRecord) btmap \<Rightarrow> bytes" where
  "ejection_encode m = encode_fixed 1 ejection_enc m"

definition read_ejection :: "bytes \<Rightarrow> nat \<Rightarrow> ExecutionError + (hash32 \<times> EjectionRecord \<times> nat)" where
  "read_ejection bs cursor =
     Inr (read_hash32 bs cursor, \<lparr>ej_ejector = read_address bs (cursor + 32)\<rparr>, cursor + 52)"

definition ejection_decode :: "hasher \<Rightarrow> bytes \<Rightarrow> ExecutionError + (hash32, EjectionRecord) btmap" where
  "ejection_decode H =
     decode_fixed (ejection_registry_address H) ''ejection registry header missing''
       ''ejection registry version mismatch'' ''ejection registry size mismatch'' 1 52 read_ejection None"

section \<open>Burn nullifiers\<close>

definition burn_preimage ::
  "hash32 \<Rightarrow> u64 \<Rightarrow> address \<Rightarrow> Balance \<Rightarrow> bytes \<Rightarrow> hash32 option \<Rightarrow> bytes" where
  "burn_preimage l2_chain_id_hash batch_id recipient amount merkle_path asset_id =
     string_bytes ''suwappu-burn-v1'' @ be_bytes 32 l2_chain_id_hash @ be_bytes 8 batch_id @
     be_bytes 20 recipient @ be_bytes 16 amount @ be_bytes 4 (len_u32 merkle_path) @ merkle_path @
     (case asset_id of Some i \<Rightarrow> [1] @ be_bytes 32 i | None \<Rightarrow> [0])"

definition burn_id ::
  "hasher \<Rightarrow> hash32 \<Rightarrow> u64 \<Rightarrow> address \<Rightarrow> Balance \<Rightarrow> bytes \<Rightarrow> hash32 option \<Rightarrow> hash32" where
  "burn_id H l2_chain_id_hash batch_id recipient amount merkle_path asset_id =
     H (burn_preimage l2_chain_id_hash batch_id recipient amount merkle_path asset_id)"

definition nullifier_enc :: "hash32 \<Rightarrow> unit \<Rightarrow> bytes" where
  "nullifier_enc i u = be_bytes 32 i"

definition nullifier_encode :: "hash32 btset \<Rightarrow> bytes" where
  "nullifier_encode m = encode_fixed 1 nullifier_enc m"

definition read_nullifier :: "bytes \<Rightarrow> nat \<Rightarrow> ExecutionError + (hash32 \<times> unit \<times> nat)" where
  "read_nullifier bs cursor = Inr (read_hash32 bs cursor, (), cursor + 32)"

definition nullifier_decode :: "hasher \<Rightarrow> bytes \<Rightarrow> ExecutionError + hash32 btset" where
  "nullifier_decode H =
     decode_fixed (burn_nullifier_registry_address H) ''burn nullifier header missing''
       ''burn nullifier version mismatch'' ''burn nullifier size mismatch'' 1 32 read_nullifier None"

section \<open>Delegations\<close>

type_synonym DelegationMap = "(u32 \<times> address, u64) btmap"

definition delegation_enc :: "u32 \<times> address \<Rightarrow> u64 \<Rightarrow> bytes" where
  "delegation_enc k amount = be_bytes 4 (fst k) @ be_bytes 20 (snd k) @ be_bytes 8 amount"

definition delegation_encode :: "DelegationMap \<Rightarrow> bytes" where
  "delegation_encode m =
     (let es = filter (\<lambda>(k, amt). 0 < amt) (bt_entries m)
      in be_bytes 4 (1 :: u32) @ be_bytes 4 (len_u32 es) @ encode_entries delegation_enc es)"

definition read_delegation :: "hasher \<Rightarrow> bytes \<Rightarrow> nat \<Rightarrow> ExecutionError + ((u32 \<times> address) \<times> u64 \<times> nat)" where
  "read_delegation H bs cursor =
     (let amount = read_u64 bs (cursor + 24)
      in if amount = 0
         then Inl (CorruptStateRecord (validator_delegation_registry_address H)
                     ''delegation registry has zero-amount entry'')
         else Inr ((read_u32 bs cursor, read_address bs (cursor + 4)), amount, cursor + 32))"

definition delegation_decode :: "hasher \<Rightarrow> bytes \<Rightarrow> ExecutionError + DelegationMap" where
  "delegation_decode H =
     decode_fixed (validator_delegation_registry_address H) ''delegation registry header missing''
       ''delegation registry version mismatch'' ''delegation registry length mismatch'' 1 32 (read_delegation H)
       (Some (CorruptStateRecord (validator_delegation_registry_address H)
                ''delegation registry has duplicate (validator, delegator) pair''))"

section \<open>Entry codecs\<close>

definition any_entry :: "'k \<Rightarrow> 'v \<Rightarrow> bool" where
  "any_entry k v \<longleftrightarrow> True"

lemma any_entry_all [simp]: "any_entry k v" "bt_all any_entry m"
  by (simp_all add: any_entry_def bt_all_iff)

lemma ob_from_as_byte [simp]: "ob_from_byte H (ob_as_byte s) = Inr s"
  by (cases s) (simp_all add: ob_from_byte_def)

lemma offense_from_as_byte [simp]: "offense_from_byte H (offense_as_byte s) = Inr s"
  by (cases s) (simp_all add: offense_from_byte_def)

interpretation obligations: entry_codec "read_obligation H" obligation_enc any_entry for H
  by unfold_locales
    (simp_all add: read_obligation_def obligation_enc_def read_defs codec_simps nth_append)

interpretation equivocations: entry_codec "read_equivocation H" equivocation_enc any_entry for H
  by unfold_locales
    (simp_all add: read_equivocation_def equivocation_enc_def read_defs codec_simps nth_append)

interpretation ejections: entry_codec read_ejection ejection_enc any_entry
  by unfold_locales (simp_all add: read_ejection_def ejection_enc_def read_defs codec_simps)

interpretation nullifiers: entry_codec read_nullifier nullifier_enc any_entry
  by unfold_locales (simp_all add: read_nullifier_def nullifier_enc_def read_defs codec_simps)

interpretation delegations: entry_codec "read_delegation H" delegation_enc "\<lambda>k amt. 0 < amt" for H
  by unfold_locales
    (auto simp: read_delegation_def delegation_enc_def read_defs codec_simps Let_def word_neq_0_conv split: if_splits)

section \<open>Round trips\<close>

lemma obligation_round_trip:
  assumes "bt_len m < 2 ^ 32"
  shows "decode_map H (encode_map m) = Inr m"
proof -
  have count: "unat (read_u32 (encode_map m) 0) = bt_len m"
    using assms by (simp add: encode_map_def read_u32_def codec_simps unsigned_of_nat take_bit_nat_eq_self)
  have "length (obligation_enc i ob) = OBLIGATION_ENTRY_BYTES" for i ob
    by (simp add: obligation_enc_def OBLIGATION_ENTRY_BYTES_def)
  then have len: "length (encode_map m) = 4 + bt_len m * OBLIGATION_ENTRY_BYTES"
    by (simp add: encode_map_def length_encode_entries bt_len_def)
  have "decode_entries (read_obligation H) dup (bt_len m) (encode_map m) 4 bt_empty = Inr (m, length (encode_map m))"
    for dup
    using obligations.loop_round_trip [of m H dup "be_bytes 4 (word_of_nat (bt_len m) :: u32)" "[]"]
    by (simp add: encode_map_def)
  moreover have "encode_map m \<noteq> []"
    using len by auto
  ultimately show ?thesis
    by (simp add: decode_map_def count len Let_def)
qed

lemma obligation_decode_len:
  assumes "decode_map H bs = Inr m"
  shows "bt_len m < 2 ^ 32"
proof (cases "bs = []")
  case False
  with assms obtain dup c where loop: "decode_entries (read_obligation H) dup (unat (read_u32 bs 0)) bs 4 bt_empty = Inr (m, c)"
    by (auto simp: decode_map_def Let_def outcome_simps split: if_splits)
  show ?thesis
    using decode_entries_len [OF loop] unsigned_less [of "read_u32 bs 0", where ?'a = nat] by simp
qed (use assms in \<open>simp add: decode_map_def\<close>)

lemma equivocation_round_trip: "bt_len m < 2 ^ 32 \<Longrightarrow> equivocation_decode H (equivocation_encode m) = Inr m"
  unfolding equivocation_decode_def equivocation_encode_def
  by (rule equivocations.fixed_round_trip) (simp_all add: equivocation_enc_def)

lemma ejection_round_trip: "bt_len m < 2 ^ 32 \<Longrightarrow> ejection_decode H (ejection_encode m) = Inr m"
  unfolding ejection_decode_def ejection_encode_def
  by (rule ejections.fixed_round_trip) (simp_all add: ejection_enc_def)

lemma nullifier_round_trip: "bt_len m < 2 ^ 32 \<Longrightarrow> nullifier_decode H (nullifier_encode m) = Inr m"
  unfolding nullifier_decode_def nullifier_encode_def
  by (rule nullifiers.fixed_round_trip) (simp_all add: nullifier_enc_def)

lemma delegation_encode_nonzero:
  assumes "bt_all (\<lambda>k amt. 0 < amt) m"
  shows "delegation_encode m = encode_fixed 1 delegation_enc m"
proof -
  have "filter (\<lambda>(k, amt). 0 < amt) (bt_entries m) = bt_entries m"
    using assms by (simp add: bt_all_def list_all_iff filter_id_conv)
  then show ?thesis
    by (simp add: delegation_encode_def encode_fixed_def len_u32_def bt_len_def Let_def)
qed

lemma delegation_round_trip:
  "bt_all (\<lambda>k amt. 0 < amt) m \<Longrightarrow> bt_len m < 2 ^ 32 \<Longrightarrow> delegation_decode H (delegation_encode m) = Inr m"
  unfolding delegation_decode_def
  by (simp only: delegation_encode_nonzero) (rule delegations.fixed_round_trip, simp_all add: delegation_enc_def)

lemma equivocation_decode_len: "equivocation_decode H bs = Inr m \<Longrightarrow> bt_len m < 2 ^ 32"
  unfolding equivocation_decode_def by (drule equivocations.fixed_valid) simp

lemma ejection_decode_len: "ejection_decode H bs = Inr m \<Longrightarrow> bt_len m < 2 ^ 32"
  unfolding ejection_decode_def by (drule ejections.fixed_valid) simp

lemma nullifier_decode_len: "nullifier_decode H bs = Inr m \<Longrightarrow> bt_len m < 2 ^ 32"
  unfolding nullifier_decode_def by (drule nullifiers.fixed_valid) simp

lemma delegation_decode_valid:
  "delegation_decode H bs = Inr m \<Longrightarrow> bt_all (\<lambda>k amt. 0 < amt) m \<and> bt_len m < 2 ^ 32"
  unfolding delegation_decode_def by (rule delegations.fixed_valid)

interpretation obligation_map: map_store "decode_map H" encode_map any_entry for H
  using obligation_round_trip obligation_decode_len by unfold_locales simp_all

interpretation equivocation_map: map_store "equivocation_decode H" equivocation_encode any_entry for H
  using equivocation_round_trip equivocation_decode_len by unfold_locales simp_all

interpretation ejection_map: map_store "ejection_decode H" ejection_encode any_entry for H
  using ejection_round_trip ejection_decode_len by unfold_locales simp_all

interpretation nullifier_map: map_store "nullifier_decode H" nullifier_encode any_entry for H
  using nullifier_round_trip nullifier_decode_len by unfold_locales simp_all

interpretation delegation_map: map_store "delegation_decode H" delegation_encode "\<lambda>k amt. 0 < amt" for H
  by unfold_locales (rule delegation_round_trip delegation_decode_valid; assumption)+

end
