(* ===== verification/Asset_Registry.thy ===== *)
theory Asset_Registry
  imports Registry_Codec
begin

text \<open>
  The bridge-asset whitelist, \<open>suwappu-execution/src/asset_registry.rs\<close>: records with three
  length-prefixed fields, keyed by the hash of the source chain and contract.
\<close>

definition MAX_SOURCE_CONTRACT_BYTES :: nat where "MAX_SOURCE_CONTRACT_BYTES = 64"
definition MAX_ASSET_NAME_BYTES :: nat where "MAX_ASSET_NAME_BYTES = 64"
definition MAX_ASSET_SYMBOL_BYTES :: nat where "MAX_ASSET_SYMBOL_BYTES = 16"

lemmas asset_size_defs = MAX_SOURCE_CONTRACT_BYTES_def MAX_ASSET_NAME_BYTES_def MAX_ASSET_SYMBOL_BYTES_def

record AssetRecord =
  as_source_chain :: u64
  as_source_contract :: bytes
  as_decimals :: u8
  as_name :: bytes
  as_symbol :: bytes
  as_status :: AssetStatus

record AssetRegistry =
  assets :: "(hash32, AssetRecord) btmap"

fun asset_as_byte :: "AssetStatus \<Rightarrow> u8" where
  "asset_as_byte AssetActive = 0"
| "asset_as_byte AssetPaused = 1"
| "asset_as_byte AssetRemoved = 2"

definition asset_from_byte :: "hasher \<Rightarrow> u8 \<Rightarrow> ExecutionError + AssetStatus" where
  "asset_from_byte H b =
     (if b = 0 then Inr AssetActive else if b = 1 then Inr AssetPaused else if b = 2 then Inr AssetRemoved
      else Inl (CorruptStateRecord (asset_registry_address H) ''asset status out of range''))"

definition asset_id :: "hasher \<Rightarrow> u64 \<Rightarrow> bytes \<Rightarrow> hash32" where
  "asset_id H source_chain source_contract =
     H (string_bytes ''suwappu-asset-v1'' @ be_bytes 8 source_chain @
        be_bytes 4 (len_u32 source_contract) @ source_contract)"

definition asset_enc :: "hash32 \<Rightarrow> AssetRecord \<Rightarrow> bytes" where
  "asset_enc i r =
     be_bytes 32 i @ be_bytes 8 (as_source_chain r) @ [as_decimals r] @ [asset_as_byte (as_status r)] @
     be_bytes 4 (len_u32 (as_source_contract r)) @ as_source_contract r @
     be_bytes 4 (len_u32 (as_name r)) @ as_name r @
     be_bytes 4 (len_u32 (as_symbol r)) @ as_symbol r"

definition asset_encode :: "AssetRegistry \<Rightarrow> bytes" where
  "asset_encode reg =
     be_bytes 4 (1 :: u32) @ be_bytes 4 (word_of_nat (bt_len (assets reg)) :: u32) @
     encode_entries asset_enc (bt_entries (assets reg))"

definition read_length_prefixed :: "hasher \<Rightarrow> bytes \<Rightarrow> nat \<Rightarrow> nat \<Rightarrow> ExecutionError + (bytes \<times> nat)" where
  "read_length_prefixed H bs cursor max_len =
     (if length bs < cursor + 4
      then Inl (CorruptStateRecord (asset_registry_address H) ''asset registry field length-prefix truncated'')
      else let len = unat (read_u32 bs cursor);
               cursor = cursor + 4
           in if max_len < len
              then Inl (CorruptStateRecord (asset_registry_address H) ''asset registry field exceeds maximum length'')
              else if length bs < cursor + len
              then Inl (CorruptStateRecord (asset_registry_address H) ''asset registry field data truncated'')
              else Inr (slice bs cursor len, cursor + len))"

definition read_asset :: "hasher \<Rightarrow> bytes \<Rightarrow> nat \<Rightarrow> ExecutionError + (hash32 \<times> AssetRecord \<times> nat)" where
  "read_asset H bs cursor =
     (if length bs < cursor + 42 + 4
      then Inl (CorruptStateRecord (asset_registry_address H) ''asset registry entry truncated (fixed header)'')
      else res_bind (asset_from_byte H (bs ! (cursor + 41))) (\<lambda>status.
        res_bind (read_length_prefixed H bs (cursor + 42) MAX_SOURCE_CONTRACT_BYTES) (\<lambda>(source_contract, c1).
        res_bind (read_length_prefixed H bs c1 MAX_ASSET_NAME_BYTES) (\<lambda>(name, c2).
        res_bind (read_length_prefixed H bs c2 MAX_ASSET_SYMBOL_BYTES) (\<lambda>(symbol, c3).
          Inr (read_hash32 bs cursor,
               \<lparr>as_source_chain = read_u64 bs (cursor + 32), as_source_contract = source_contract,
                as_decimals = bs ! (cursor + 40), as_name = name, as_symbol = symbol, as_status = status\<rparr>,
               c3))))))"

definition asset_decode :: "hasher \<Rightarrow> bytes \<Rightarrow> ExecutionError + AssetRegistry" where
  "asset_decode H bs =
     (if bs = [] then Inr \<lparr>assets = bt_empty\<rparr>
      else if length bs < 8
      then Inl (CorruptStateRecord (asset_registry_address H) ''asset registry header missing'')
      else if read_u32 bs 0 \<noteq> 1
      then Inl (CorruptStateRecord (asset_registry_address H) ''asset registry version mismatch'')
      else res_bind (decode_entries (read_asset H)
             (Some (CorruptStateRecord (asset_registry_address H) ''asset registry has duplicate ids''))
             (unat (read_u32 bs 4)) bs 8 bt_empty) (\<lambda>(m, cursor).
           if cursor \<noteq> length bs
           then Inl (CorruptStateRecord (asset_registry_address H) ''asset registry has trailing bytes'')
           else Inr \<lparr>assets = m\<rparr>))"

section \<open>Round trip\<close>

definition asset_fits :: "hash32 \<Rightarrow> AssetRecord \<Rightarrow> bool" where
  "asset_fits i r \<longleftrightarrow> length (as_source_contract r) \<le> MAX_SOURCE_CONTRACT_BYTES \<and>
     length (as_name r) \<le> MAX_ASSET_NAME_BYTES \<and> length (as_symbol r) \<le> MAX_ASSET_SYMBOL_BYTES"

lemma asset_from_as_byte [simp]: "asset_from_byte H (asset_as_byte s) = Inr s"
  by (cases s) (simp_all add: asset_from_byte_def)

lemma read_length_prefixed_field:
  assumes "length field \<le> max_len" "max_len < 2 ^ 32"
  shows "read_length_prefixed H (pre @ be_bytes 4 (len_u32 field) @ field @ rest) (length pre) max_len =
    Inr (field, length pre + 4 + length field)"
proof -
  have "unat (len_u32 field) = length field"
    using assms by (intro len_u32_unat) simp
  with assms show ?thesis
    by (simp add: read_length_prefixed_def read_u32_def codec_simps Let_def)
qed

lemma read_length_prefixed_len:
  "read_length_prefixed H bs c max_len = Inr (field, c') \<Longrightarrow> length field \<le> max_len"
  by (auto simp: read_length_prefixed_def Let_def length_slice split: if_splits)

lemma read_asset_enc:
  assumes fits: "asset_fits i r"
  shows "read_asset H (pre @ asset_enc i r @ rest) (length pre) = Inr (i, r, length pre + length (asset_enc i r))"
proof -
  let ?fixed = "be_bytes 32 i @ be_bytes 8 (as_source_chain r) @ [as_decimals r] @ [asset_as_byte (as_status r)]"
  let ?f = "\<lambda>x. be_bytes 4 (len_u32 x) @ x"
  let ?bs = "pre @ asset_enc i r @ rest"
  have split1: "?bs = (pre @ ?fixed) @ ?f (as_source_contract r) @ (?f (as_name r) @ ?f (as_symbol r) @ rest)"
    and split2: "?bs = (pre @ ?fixed @ ?f (as_source_contract r)) @ ?f (as_name r) @ (?f (as_symbol r) @ rest)"
    and split3: "?bs = (pre @ ?fixed @ ?f (as_source_contract r) @ ?f (as_name r)) @ ?f (as_symbol r) @ rest"
    by (simp_all add: asset_enc_def)
  have c: "read_length_prefixed H ?bs (length pre + 42) 64 = Inr (as_source_contract r, length pre + 46 + length (as_source_contract r))"
    using read_length_prefixed_field [of "as_source_contract r" 64 H "pre @ ?fixed" "?f (as_name r) @ ?f (as_symbol r) @ rest"] fits
    unfolding split1 by (simp add: asset_fits_def asset_size_defs)
  have n: "read_length_prefixed H ?bs (length pre + 46 + length (as_source_contract r)) 64 =
      Inr (as_name r, length pre + 50 + length (as_source_contract r) + length (as_name r))"
    using read_length_prefixed_field [of "as_name r" 64 H "pre @ ?fixed @ ?f (as_source_contract r)" "?f (as_symbol r) @ rest"] fits
    unfolding split2 by (simp add: asset_fits_def asset_size_defs ac_simps)
  have s: "read_length_prefixed H ?bs (length pre + 50 + length (as_source_contract r) + length (as_name r)) 16 =
      Inr (as_symbol r, length pre + length (asset_enc i r))"
    using read_length_prefixed_field [of "as_symbol r" 16 H "pre @ ?fixed @ ?f (as_source_contract r) @ ?f (as_name r)" rest] fits
    unfolding split3 by (simp add: asset_fits_def asset_size_defs ac_simps asset_enc_def)
  have fields: "read_hash32 ?bs (length pre) = i" "read_u64 ?bs (length pre + 32) = as_source_chain r"
    "?bs ! (length pre + 40) = as_decimals r" "?bs ! (length pre + 41) = asset_as_byte (as_status r)"
    "\<not> length ?bs < length pre + 42 + 4"
    by (simp_all add: asset_enc_def read_defs codec_simps nth_append)
  show ?thesis
    by (simp only: read_asset_def fields c n s if_False asset_from_as_byte res_bind.simps prod.case asset_size_defs) simp
qed

lemma read_asset_fits: "read_asset H bs c = Inr (i, r, c') \<Longrightarrow> asset_fits i r"
  by (auto simp: read_asset_def outcome_simps asset_fits_def dest!: read_length_prefixed_len split: if_splits)

interpretation asset_entries: entry_codec "read_asset H" asset_enc asset_fits for H
  using read_asset_enc read_asset_fits by unfold_locales

lemma asset_round_trip:
  assumes m: "bt_all asset_fits (assets reg)" "bt_len (assets reg) < 2 ^ 32"
  shows "asset_decode H (asset_encode reg) = Inr reg"
proof -
  let ?bs = "asset_encode reg" and ?n = "bt_len (assets reg)"
  have count: "unat (read_u32 ?bs 4) = ?n" and version: "read_u32 ?bs 0 = 1"
    using m(2) by (simp_all add: asset_encode_def read_u32_def codec_simps unsigned_of_nat take_bit_nat_eq_self)
  have "decode_entries (read_asset H) dup ?n ?bs 8 bt_empty = Inr (assets reg, length ?bs)" for dup
    using asset_entries.loop_round_trip [OF m(1), of H dup
        "be_bytes 4 (1 :: u32) @ be_bytes 4 (word_of_nat ?n :: u32)" "[]"]
    by (simp add: asset_encode_def)
  moreover have "8 \<le> length ?bs" "?bs \<noteq> []"
    by (auto simp: asset_encode_def simp flip: length_greater_0_conv)
  ultimately show ?thesis
    by (simp add: asset_decode_def version count)
qed

lemma asset_decode_fits:
  assumes "asset_decode H bs = Inr reg"
  shows "bt_all asset_fits (assets reg) \<and> bt_len (assets reg) < 2 ^ 32"
proof (cases "bs = []")
  case False
  with assms obtain c where loop: "decode_entries (read_asset H)
      (Some (CorruptStateRecord (asset_registry_address H) ''asset registry has duplicate ids''))
      (unat (read_u32 bs 4)) bs 8 bt_empty = Inr (assets reg, c)"
    by (auto simp: asset_decode_def outcome_simps split: if_splits)
  show ?thesis
    using asset_entries.loop_valid [OF loop] decode_entries_len [OF loop]
      unsigned_less [of "read_u32 bs 4", where ?'a = nat] by simp
qed (use assms in \<open>auto simp: asset_decode_def\<close>)

end
