(* ===== verification/L2_State.thy ===== *)
theory L2_State
  imports Registry_Codec "HOL-Library.Product_Lexorder"
begin

text \<open>
  The L2 registry, \<open>suwappu-execution/src/l2_state.rs\<close> (verifying keys per chain, state roots per batch,
  the current encoding and the migration from version 1), and the format gates of
  \<open>suwappu-l2-verifier-precompile/src/lib.rs\<close>.
\<close>

section \<open>The verifier precompile\<close>

definition SP1_GROTH16_BN254_PROOF_BYTES :: nat where "SP1_GROTH16_BN254_PROOF_BYTES = 260"
definition L2_PUBLIC_INPUTS_BYTES :: nat where "L2_PUBLIC_INPUTS_BYTES = 240"
definition DA_COMMITMENT_OFFSET :: nat where "DA_COMMITMENT_OFFSET = 72"
definition L1_ANCHOR_HEIGHT_OFFSET :: nat where "L1_ANCHOR_HEIGHT_OFFSET = 104"
definition L2_CHAIN_ID_HASH_OFFSET :: nat where "L2_CHAIN_ID_HASH_OFFSET = 176"

definition verify_l2_batch :: "bytes \<Rightarrow> bytes \<Rightarrow> hash32 \<Rightarrow> VerifyError + unit" where
  "verify_l2_batch proof_bytes public_inputs vk_hash =
     (if length proof_bytes \<noteq> SP1_GROTH16_BN254_PROOF_BYTES
      then Inl (BadProofLength SP1_GROTH16_BN254_PROOF_BYTES (length proof_bytes))
      else if length public_inputs \<noteq> L2_PUBLIC_INPUTS_BYTES
      then Inl (BadPublicInputsLength L2_PUBLIC_INPUTS_BYTES (length public_inputs))
      else if vk_hash = 0 then Inl UnpinnedVerifyingKey
      else Inr ())"

section \<open>The registry\<close>

record ChainVks =
  cv_aggregation_vk_hash :: hash32
  cv_range_vk_commitment :: hash32

record L2StateRootRecord =
  l2_state_root :: hash32
  l2_committed_at_l1_height :: u64
  l2_vk_hash :: hash32
  l2_da_commitment :: hash32

text \<open>\<open>(l2_chain_id_hash, batch_id)\<close>, ordered as the derived \<open>Ord\<close> of the struct.\<close>

type_synonym L2BatchKey = "hash32 \<times> u64"

record L2Registry =
  chain_vks :: "(hash32, ChainVks) btmap"
  state_roots :: "(L2BatchKey, L2StateRootRecord) btmap"

definition l2_registry_default :: L2Registry where
  "l2_registry_default = \<lparr>chain_vks = bt_empty, state_roots = bt_empty\<rparr>"

definition aggregation_vk_hash :: "L2Registry \<Rightarrow> hash32 \<Rightarrow> hash32" where
  "aggregation_vk_hash reg chain_id_hash =
     unwrap_or 0 (map_option cv_aggregation_vk_hash (bt_get (chain_vks reg) chain_id_hash))"

definition range_vk_commitment :: "L2Registry \<Rightarrow> hash32 \<Rightarrow> hash32" where
  "range_vk_commitment reg chain_id_hash =
     unwrap_or 0 (map_option cv_range_vk_commitment (bt_get (chain_vks reg) chain_id_hash))"

definition set_chain_vks :: "hash32 \<Rightarrow> hash32 \<Rightarrow> hash32 \<Rightarrow> L2Registry \<Rightarrow> L2Registry" where
  "set_chain_vks chain_id_hash agg rng reg =
     reg\<lparr>chain_vks := bt_insert chain_id_hash
            \<lparr>cv_aggregation_vk_hash = agg, cv_range_vk_commitment = rng\<rparr> (chain_vks reg)\<rparr>"

section \<open>Encoding\<close>

definition vks_enc :: "hash32 \<Rightarrow> ChainVks \<Rightarrow> bytes" where
  "vks_enc chain vks = be_bytes 32 chain @ be_bytes 32 (cv_aggregation_vk_hash vks) @ be_bytes 32 (cv_range_vk_commitment vks)"

definition root_enc :: "L2BatchKey \<Rightarrow> L2StateRootRecord \<Rightarrow> bytes" where
  "root_enc key r =
     be_bytes 32 (fst key) @ be_bytes 8 (snd key) @ be_bytes 32 (l2_state_root r) @
     be_bytes 8 (l2_committed_at_l1_height r) @ be_bytes 32 (l2_vk_hash r) @ be_bytes 32 (l2_da_commitment r)"

definition l2_encode :: "L2Registry \<Rightarrow> bytes" where
  "l2_encode reg =
     be_bytes 4 (2 :: u32) @ be_bytes 4 (word_of_nat (bt_len (chain_vks reg)) :: u32) @
     encode_entries vks_enc (bt_entries (chain_vks reg)) @
     be_bytes 4 (word_of_nat (bt_len (state_roots reg)) :: u32) @
     encode_entries root_enc (bt_entries (state_roots reg))"

section \<open>Decoding\<close>

text \<open>\<open>usize::checked_mul\<close> on a 64-bit target.\<close>

definition usize_checked_mul :: "nat \<Rightarrow> nat \<Rightarrow> nat option" where
  "usize_checked_mul a b = (if a * b < 2 ^ 64 then Some (a * b) else None)"

definition ENCODED_STATE_ROOT_ENTRY_BYTES :: nat where
  "ENCODED_STATE_ROOT_ENTRY_BYTES = 32 + 8 + (32 + 8 + 32 + 32)"

definition ENCODED_CHAIN_VKS_ENTRY_BYTES :: nat where
  "ENCODED_CHAIN_VKS_ENTRY_BYTES = 32 + 32 + 32"

definition read_vks :: "bytes \<Rightarrow> nat \<Rightarrow> ExecutionError + (hash32 \<times> ChainVks \<times> nat)" where
  "read_vks bs cursor =
     Inr (read_hash32 bs cursor,
          \<lparr>cv_aggregation_vk_hash = read_hash32 bs (cursor + 32),
           cv_range_vk_commitment = read_hash32 bs (cursor + 64)\<rparr>, cursor + 96)"

definition read_root :: "bytes \<Rightarrow> nat \<Rightarrow> ExecutionError + (L2BatchKey \<times> L2StateRootRecord \<times> nat)" where
  "read_root bs cursor =
     Inr ((read_hash32 bs cursor, read_u64 bs (cursor + 32)),
          \<lparr>l2_state_root = read_hash32 bs (cursor + 40), l2_committed_at_l1_height = read_u64 bs (cursor + 72),
           l2_vk_hash = read_hash32 bs (cursor + 80), l2_da_commitment = read_hash32 bs (cursor + 112)\<rparr>,
          cursor + 144)"

definition l2_corrupt :: "hasher \<Rightarrow> string \<Rightarrow> ExecutionError" where
  "l2_corrupt H reason = CorruptStateRecord (l2_registry_address H) reason"

definition decode_state_roots ::
  "hasher \<Rightarrow> bytes \<Rightarrow> nat \<Rightarrow> nat \<Rightarrow> ExecutionError + (L2BatchKey, L2StateRootRecord) btmap" where
  "decode_state_roots H bs start count =
     res_bind (decode_entries read_root (Some (l2_corrupt H ''L2 registry has duplicate keys'')) count bs start bt_empty)
       (\<lambda>(m, cursor). Inr m)"

definition decode_v2 :: "hasher \<Rightarrow> bytes \<Rightarrow> ExecutionError + L2Registry" where
  "decode_v2 H bs =
     (if length bs < 8 then Inl (l2_corrupt H ''L2 registry v2 header missing'')
      else let chain_vk_count = unat (read_u32 bs 4) in
        res_bind (ok_or (l2_corrupt H ''L2 registry chain_vks size overflow'')
                    (usize_checked_mul chain_vk_count ENCODED_CHAIN_VKS_ENTRY_BYTES)) (\<lambda>chain_vks_bytes.
        if length bs < 8 + chain_vks_bytes + 4 then Inl (l2_corrupt H ''L2 registry chain_vks truncated'')
        else
          res_bind (decode_entries read_vks (Some (l2_corrupt H ''L2 registry has duplicate chain_vks''))
                      chain_vk_count bs 8 bt_empty) (\<lambda>(vks, cursor).
          let state_root_count = unat (read_u32 bs cursor); cursor = cursor + 4 in
          res_bind (ok_or (l2_corrupt H ''L2 registry state_roots size overflow'')
                      (usize_checked_mul state_root_count ENCODED_STATE_ROOT_ENTRY_BYTES)) (\<lambda>state_roots_bytes.
          if length bs \<noteq> cursor + state_roots_bytes then Inl (l2_corrupt H ''L2 registry size mismatch'')
          else res_bind (decode_state_roots H bs cursor state_root_count) (\<lambda>roots.
            Inr \<lparr>chain_vks = vks, state_roots = roots\<rparr>)))))"

definition decode_v1 :: "hasher \<Rightarrow> bytes \<Rightarrow> ExecutionError + L2Registry" where
  "decode_v1 H bs =
     (if length bs < 72 then Inl (l2_corrupt H ''L2 registry v1 header missing'')
      else let agg = read_hash32 bs 4; rng = read_hash32 bs 36; state_root_count = unat (read_u32 bs 68) in
        res_bind (ok_or (l2_corrupt H ''L2 registry v1 state_roots size overflow'')
                    (usize_checked_mul state_root_count ENCODED_STATE_ROOT_ENTRY_BYTES)) (\<lambda>state_roots_bytes.
        if length bs \<noteq> 72 + state_roots_bytes then Inl (l2_corrupt H ''L2 registry v1 size mismatch'')
        else
          let vks = (if agg \<noteq> 0 \<or> rng \<noteq> 0
                     then bt_insert 0 \<lparr>cv_aggregation_vk_hash = agg, cv_range_vk_commitment = rng\<rparr> bt_empty
                     else bt_empty) in
          res_bind (decode_state_roots H bs 72 state_root_count) (\<lambda>roots.
            Inr \<lparr>chain_vks = vks, state_roots = roots\<rparr>)))"

definition l2_decode :: "hasher \<Rightarrow> bytes \<Rightarrow> ExecutionError + L2Registry" where
  "l2_decode H bs =
     (if bs = [] then Inr l2_registry_default
      else if length bs < 4 then Inl (l2_corrupt H ''L2 registry header missing'')
      else let version = read_u32 bs 0 in
        if version = 2 then decode_v2 H bs
        else if version = 1 then decode_v1 H bs
        else Inl (l2_corrupt H ''L2 registry version mismatch''))"

section \<open>Round trips\<close>

text \<open>The version 1 layout, for the migration: one global key pair and the state roots.\<close>

definition l2_encode_v1 :: "hash32 \<Rightarrow> hash32 \<Rightarrow> (L2BatchKey, L2StateRootRecord) btmap \<Rightarrow> bytes" where
  "l2_encode_v1 agg rng roots =
     be_bytes 4 (1 :: u32) @ be_bytes 32 agg @ be_bytes 32 rng @
     be_bytes 4 (word_of_nat (bt_len roots) :: u32) @ encode_entries root_enc (bt_entries roots)"

definition any_vks :: "hash32 \<Rightarrow> ChainVks \<Rightarrow> bool" where "any_vks k v \<longleftrightarrow> True"
definition any_root :: "L2BatchKey \<Rightarrow> L2StateRootRecord \<Rightarrow> bool" where "any_root k v \<longleftrightarrow> True"

lemma any_l2 [simp]: "bt_all any_vks m" "bt_all any_root n"
  by (simp_all add: bt_all_iff any_vks_def any_root_def)

interpretation vks_entries: entry_codec read_vks vks_enc any_vks
  by unfold_locales (simp_all add: read_vks_def vks_enc_def read_defs codec_simps any_vks_def)

interpretation root_entries: entry_codec read_root root_enc any_root
  by unfold_locales (simp_all add: read_root_def root_enc_def read_defs codec_simps any_root_def)

lemma count_mul: "n < 2 ^ 32 \<Longrightarrow> w \<le> 2 ^ 32 \<Longrightarrow> usize_checked_mul n w = Some (n * w)"
  using mult_less_le_imp_less [of n "2 ^ 32" w "2 ^ 32"]
  by (cases "w = 0") (simp_all add: usize_checked_mul_def)

lemma l2_enc_widths:
  "length (encode_entries vks_enc (bt_entries m)) = bt_len m * ENCODED_CHAIN_VKS_ENTRY_BYTES"
  "length (encode_entries root_enc (bt_entries n)) = bt_len n * ENCODED_STATE_ROOT_ENTRY_BYTES"
  by (simp_all add: length_encode_entries vks_enc_def root_enc_def bt_len_def
      ENCODED_CHAIN_VKS_ENTRY_BYTES_def ENCODED_STATE_ROOT_ENTRY_BYTES_def)

lemma decode_state_roots_enc:
  assumes "length pre = start"
  shows "decode_state_roots H (pre @ encode_entries root_enc (bt_entries roots)) start (bt_len roots) = Inr roots"
  using root_entries.loop_round_trip [of roots "Some (l2_corrupt H ''L2 registry has duplicate keys'')" pre "[]"] assms
  by (simp add: decode_state_roots_def)

lemma count_field:
  assumes "n < 2 ^ 32" "length pre = c"
  shows "unat (read_u32 (pre @ be_bytes 4 (word_of_nat n :: u32) @ rest) c) = n"
  using assms by (auto simp: read_u32_def codec_simps unsigned_of_nat take_bit_nat_eq_self)

lemma l2_round_trip:
  assumes "bt_len (chain_vks reg) < 2 ^ 32" "bt_len (state_roots reg) < 2 ^ 32"
  shows "l2_decode H (l2_encode reg) = Inr reg"
proof -
  let ?vks = "encode_entries vks_enc (bt_entries (chain_vks reg))"
  let ?roots = "encode_entries root_enc (bt_entries (state_roots reg))"
  let ?n = "bt_len (chain_vks reg)" and ?k = "bt_len (state_roots reg)"
  let ?head = "be_bytes 4 (2 :: u32) @ be_bytes 4 (word_of_nat ?n :: u32)"
  let ?mid = "be_bytes 4 (word_of_nat ?k :: u32)"
  let ?bs = "l2_encode reg"
  let ?cursor = "8 + ?n * ENCODED_CHAIN_VKS_ENTRY_BYTES"
  have version: "read_u32 ?bs 0 = 2"
    by (simp add: l2_encode_def read_u32_def codec_simps)
  have n: "unat (read_u32 ?bs 4) = ?n"
    using count_field [OF assms(1), of "be_bytes 4 (2 :: u32)"] by (simp add: l2_encode_def)
  have k: "unat (read_u32 ?bs ?cursor) = ?k"
    using count_field [OF assms(2), of "?head @ ?vks"] by (simp add: l2_encode_def l2_enc_widths)
  have vks: "decode_entries read_vks dup ?n ?bs 8 bt_empty = Inr (chain_vks reg, ?cursor)" for dup
    using vks_entries.loop_round_trip [of "chain_vks reg" dup ?head "?mid @ ?roots"]
    by (simp add: l2_encode_def l2_enc_widths)
  have roots: "decode_state_roots H ?bs (12 + ?n * ENCODED_CHAIN_VKS_ENTRY_BYTES) ?k = Inr (state_roots reg)"
    using decode_state_roots_enc [of "?head @ ?vks @ ?mid" "?cursor + 4" H "state_roots reg"]
    by (simp add: l2_encode_def l2_enc_widths)
  have len: "length ?bs = ?cursor + 4 + ?k * ENCODED_STATE_ROOT_ENTRY_BYTES"
    by (simp add: l2_encode_def l2_enc_widths)
  have mul: "usize_checked_mul ?n ENCODED_CHAIN_VKS_ENTRY_BYTES = Some (?n * ENCODED_CHAIN_VKS_ENTRY_BYTES)"
    "usize_checked_mul ?k ENCODED_STATE_ROOT_ENTRY_BYTES = Some (?k * ENCODED_STATE_ROOT_ENTRY_BYTES)"
    using assms by (auto intro!: count_mul simp: ENCODED_CHAIN_VKS_ENTRY_BYTES_def ENCODED_STATE_ROOT_ENTRY_BYTES_def)
  have "decode_v2 H ?bs = Inr reg"
    by (simp add: decode_v2_def n k vks roots len mul Let_def)
  moreover have "?bs \<noteq> []" "4 \<le> length ?bs"
    using len by auto
  ultimately show ?thesis
    by (simp add: l2_decode_def version)
qed

lemma l2_migration:
  assumes "bt_len roots < 2 ^ 32"
  shows "l2_decode H (l2_encode_v1 agg rng roots) =
    Inr \<lparr>chain_vks = (if agg \<noteq> 0 \<or> rng \<noteq> 0
           then bt_insert 0 \<lparr>cv_aggregation_vk_hash = agg, cv_range_vk_commitment = rng\<rparr> bt_empty else bt_empty),
         state_roots = roots\<rparr>"
proof -
  let ?bs = "l2_encode_v1 agg rng roots" and ?k = "bt_len roots"
  let ?head = "be_bytes 4 (1 :: u32) @ be_bytes 32 agg @ be_bytes 32 rng"
  have fields: "read_u32 ?bs 0 = 1" "read_hash32 ?bs 4 = agg" "read_hash32 ?bs 36 = rng"
    by (simp_all add: l2_encode_v1_def read_defs codec_simps)
  have k: "unat (read_u32 ?bs 68) = ?k"
    using count_field [OF assms, of ?head] by (simp add: l2_encode_v1_def)
  have roots: "decode_state_roots H ?bs 72 ?k = Inr roots"
    using decode_state_roots_enc [of "?head @ be_bytes 4 (word_of_nat ?k :: u32)" 72 H roots]
    by (simp add: l2_encode_v1_def)
  have len: "length ?bs = 72 + ?k * ENCODED_STATE_ROOT_ENTRY_BYTES"
    by (simp add: l2_encode_v1_def l2_enc_widths)
  have mul: "usize_checked_mul ?k ENCODED_STATE_ROOT_ENTRY_BYTES = Some (?k * ENCODED_STATE_ROOT_ENTRY_BYTES)"
    using assms by (auto intro!: count_mul simp: ENCODED_STATE_ROOT_ENTRY_BYTES_def)
  have "?bs \<noteq> []" "\<not> length ?bs < 4" "\<not> length ?bs < 72"
    using len by auto
  then show ?thesis
    by (simp add: l2_decode_def decode_v1_def fields k roots len mul Let_def)
qed

lemma decode_state_roots_len:
  assumes "decode_state_roots H bs start n = Inr m"
  shows "bt_len m \<le> n"
proof -
  obtain c where "decode_entries read_root (Some (l2_corrupt H ''L2 registry has duplicate keys'')) n bs start bt_empty = Inr (m, c)"
    using assms by (auto simp: decode_state_roots_def outcome_simps)
  then show ?thesis
    by (auto dest: decode_entries_len)
qed

lemma decode_v2_len:
  assumes "decode_v2 H bs = Inr reg"
  shows "bt_len (chain_vks reg) < 2 ^ 32 \<and> bt_len (state_roots reg) < 2 ^ 32"
proof -
  obtain c where vks: "decode_entries read_vks (Some (l2_corrupt H ''L2 registry has duplicate chain_vks''))
      (unat (read_u32 bs 4)) bs 8 bt_empty = Inr (chain_vks reg, c)"
    and roots: "decode_state_roots H bs (c + 4) (unat (read_u32 bs c)) = Inr (state_roots reg)"
    using assms by (auto simp: decode_v2_def Let_def outcome_simps split: if_splits)
  show ?thesis
    using decode_entries_len [OF vks] decode_state_roots_len [OF roots]
      unsigned_less [of "read_u32 bs 4", where ?'a = nat] unsigned_less [of "read_u32 bs c", where ?'a = nat]
    by simp
qed

lemma decode_v1_len:
  assumes "decode_v1 H bs = Inr reg"
  shows "bt_len (chain_vks reg) < 2 ^ 32 \<and> bt_len (state_roots reg) < 2 ^ 32"
proof -
  have "decode_state_roots H bs 72 (unat (read_u32 bs 68)) = Inr (state_roots reg)"
    using assms by (auto simp: decode_v1_def Let_def outcome_simps split: if_splits)
  from decode_state_roots_len [OF this] have "bt_len (state_roots reg) < 2 ^ 32"
    using unsigned_less [of "read_u32 bs 68", where ?'a = nat] by simp
  moreover have "chain_vks reg = bt_empty \<or> (\<exists>v. chain_vks reg = bt_insert 0 v bt_empty)"
    using assms by (auto simp: decode_v1_def Let_def outcome_simps split: if_splits)
  then have "bt_len (chain_vks reg) \<le> 1"
    by (auto simp: bt_len_insert bt.get_empty)
  ultimately show ?thesis by simp
qed

lemma l2_decode_len:
  assumes "l2_decode H bs = Inr reg"
  shows "bt_len (chain_vks reg) < 2 ^ 32 \<and> bt_len (state_roots reg) < 2 ^ 32"
proof -
  have "reg = l2_registry_default \<or> decode_v2 H bs = Inr reg \<or> decode_v1 H bs = Inr reg"
    using assms by (simp add: l2_decode_def Let_def split: if_splits)
  then consider "reg = l2_registry_default" | "decode_v2 H bs = Inr reg" | "decode_v1 H bs = Inr reg"
    by blast
  then show ?thesis
  proof cases
    case 1
    then show ?thesis by (simp add: l2_registry_default_def)
  next
    case 2
    then show ?thesis by (rule decode_v2_len)
  next
    case 3
    then show ?thesis by (rule decode_v1_len)
  qed
qed

end
