(* ===== verification/Substrate_State.thy ===== *)
theory Substrate_State
  imports Slot_Registry Offense_Registries Asset_Registry L2_State
begin

text \<open>
  The in-memory substrate of \<open>suwappu-execution/src/substrate.rs\<close>: its state, the balance primitives
  every intent is built from, and the accessors.  Registries are byte strings in \<open>bytes_state\<close>, as in
  the source; \<open>stored s a\<close> is \<open>read_bytes(a).unwrap_or_default()\<close>.

  The second half shows that the atomic primitives are what their names say: crediting many accounts
  atomically, draining an account into many and moving between two accounts are the plain
  one-account credits and debits, rolled back when one of them fails.  The properties of the whole
  substrate then only reason about one-account credits, one-account debits and byte writes.
\<close>

section \<open>State\<close>

record InMemorySubstrate =
  balances :: "(address, Balance) btmap"
  bytes_state :: "(address, bytes) btmap"
  current_block_height :: u64

type_synonym result = "(ExecutionError, InMemorySubstrate) outcome"

definition substrate_new :: InMemorySubstrate where
  "substrate_new = \<lparr>balances = bt_empty, bytes_state = bt_empty, current_block_height = 0\<rparr>"

definition from_balances :: "(address \<times> Balance) list \<Rightarrow> InMemorySubstrate" where
  "from_balances entries =
     foldl (\<lambda>s (addr, bal). if 0 < bal then s\<lparr>balances := bt_insert addr bal (balances s)\<rparr> else s)
       substrate_new entries"

definition total_supply :: "InMemorySubstrate \<Rightarrow> Balance" where
  "total_supply s = foldl (+) 0 (bt_values (balances s))"

definition balance :: "InMemorySubstrate \<Rightarrow> address \<Rightarrow> Balance" where
  "balance s addr = unwrap_or 0 (bt_get (balances s) addr)"

definition read_bytes :: "InMemorySubstrate \<Rightarrow> address \<Rightarrow> bytes option" where
  "read_bytes s addr = bt_get (bytes_state s) addr"

definition stored :: "InMemorySubstrate \<Rightarrow> address \<Rightarrow> bytes" where
  "stored s addr = unwrap_or [] (read_bytes s addr)"

definition set_current_block_height :: "u64 \<Rightarrow> InMemorySubstrate \<Rightarrow> InMemorySubstrate" where
  "set_current_block_height height s = s\<lparr>current_block_height := height\<rparr>"

definition write_bytes_unchecked :: "address \<Rightarrow> bytes \<Rightarrow> InMemorySubstrate \<Rightarrow> InMemorySubstrate" where
  "write_bytes_unchecked addr bs s =
     s\<lparr>bytes_state := (if bs = [] then bt_remove addr (bytes_state s) else bt_insert addr bs (bytes_state s))\<rparr>"

section \<open>Balance primitives\<close>

text \<open>The update every debit ends with: an account that reaches zero is removed.\<close>

definition put_balance :: "address \<Rightarrow> Balance \<Rightarrow> (address, Balance) btmap \<Rightarrow> (address, Balance) btmap" where
  "put_balance addr new_balance m = (if new_balance = 0 then bt_remove addr m else bt_insert addr new_balance m)"

definition credit_unchecked :: "address \<Rightarrow> Balance \<Rightarrow> InMemorySubstrate \<Rightarrow> result" where
  "credit_unchecked addr amount s =
     (if amount = 0 then Ok s
      else try_value (ok_or (DistributionOverflow addr) (checked_add (balance s addr) amount)) s (\<lambda>new_balance.
        Ok (s\<lparr>balances := bt_insert addr new_balance (balances s)\<rparr>)))"

definition transfer_internal :: "address \<Rightarrow> address \<Rightarrow> Balance \<Rightarrow> InMemorySubstrate \<Rightarrow> result" where
  "transfer_internal frm to amount s =
     (if amount = 0 then Ok s
      else let source = balance s frm in
        if source < amount then Err (InsufficientBalance frm source amount) s
        else if frm = to then Ok s
        else try_value (ok_or (DistributionOverflow to) (checked_add (balance s to) amount)) s (\<lambda>new_dest.
          Ok (s\<lparr>balances := bt_insert to new_dest (put_balance frm (source - amount) (balances s))\<rparr>)))"

text \<open>The staging loop of the two atomic operations; \<open>base\<close> is the balance an account starts from.\<close>

fun stage_credits ::
  "(address \<Rightarrow> Balance) \<Rightarrow> (address \<times> Balance) list \<Rightarrow> (address, Balance) btmap \<Rightarrow>
   ExecutionError + (address, Balance) btmap" where
  "stage_credits base [] staged = Inr staged"
| "stage_credits base ((to, amount) # credits) staged =
     (if amount = 0 then stage_credits base credits staged
      else res_bind (ok_or (DistributionOverflow to)
                       (checked_add (unwrap_or (base to) (bt_get staged to)) amount)) (\<lambda>new.
        stage_credits base credits (bt_insert to new staged)))"

definition commit_staged ::
  "(address, Balance) btmap \<Rightarrow> (address, Balance) btmap \<Rightarrow> (address, Balance) btmap" where
  "commit_staged m staged = foldl (\<lambda>m (to, new_balance). bt_insert to new_balance m) m (bt_entries staged)"

definition credit_many_atomic :: "(address \<times> Balance) list \<Rightarrow> InMemorySubstrate \<Rightarrow> result" where
  "credit_many_atomic credits s =
     try_value (stage_credits (balance s) credits bt_empty) s (\<lambda>staged.
       Ok (s\<lparr>balances := commit_staged (balances s) staged\<rparr>))"

fun sum_credits :: "address \<Rightarrow> Balance \<Rightarrow> (address \<times> Balance) list \<Rightarrow> ExecutionError + Balance" where
  "sum_credits frm tot [] = Inr tot"
| "sum_credits frm tot ((to, amount) # credits) =
     res_bind (ok_or (DistributionOverflow frm) (checked_add tot amount)) (\<lambda>tot. sum_credits frm tot credits)"

definition drain_and_credit_atomic :: "address \<Rightarrow> (address \<times> Balance) list \<Rightarrow> InMemorySubstrate \<Rightarrow> result" where
  "drain_and_credit_atomic frm credits s =
     try_value (sum_credits frm 0 credits) s (\<lambda>tot.
       if tot = 0 then Ok s
       else let source = balance s frm in
         if source < tot then Err (InsufficientBalance frm source tot) s
         else try_value (stage_credits (\<lambda>to. if to = frm then source - tot else balance s to) credits bt_empty) s
           (\<lambda>staged.
             let m = (if bt_contains staged frm then balances s else put_balance frm (source - tot) (balances s))
             in Ok (s\<lparr>balances := commit_staged m staged\<rparr>)))"

definition debit_unchecked :: "address \<Rightarrow> Balance \<Rightarrow> InMemorySubstrate \<Rightarrow> result" where
  "debit_unchecked addr amount s =
     (if amount = 0 then Ok s
      else let source = balance s addr in
        if source < amount then Err (InsufficientBalance addr source amount) s
        else Ok (s\<lparr>balances := put_balance addr (source - amount) (balances s)\<rparr>))"

definition fund_sequencer_bond :: "hasher \<Rightarrow> Balance \<Rightarrow> InMemorySubstrate \<Rightarrow> result" where
  "fund_sequencer_bond H amount s = credit_unchecked (sequencer_bond_address H) amount s"

definition fund_safety_bond :: "hasher \<Rightarrow> Balance \<Rightarrow> InMemorySubstrate \<Rightarrow> result" where
  "fund_safety_bond H amount s = credit_unchecked (safety_bond_address H) amount s"

section \<open>Accessors\<close>

definition l2_registry :: "hasher \<Rightarrow> InMemorySubstrate \<Rightarrow> L2Registry" where
  "l2_registry H s = result_or l2_registry_default (l2_decode H (stored s (l2_registry_address H)))"

definition l2_state_root_record :: "hasher \<Rightarrow> InMemorySubstrate \<Rightarrow> L2BatchKey \<Rightarrow> L2StateRootRecord option" where
  "l2_state_root_record H s key = bt_get (state_roots (l2_registry H s)) key"

definition asset_registry :: "hasher \<Rightarrow> InMemorySubstrate \<Rightarrow> AssetRegistry" where
  "asset_registry H s = result_or \<lparr>assets = bt_empty\<rparr> (asset_decode H (stored s (asset_registry_address H)))"

definition bridge_asset :: "hasher \<Rightarrow> InMemorySubstrate \<Rightarrow> hash32 \<Rightarrow> AssetRecord option" where
  "bridge_asset H s i = bt_get (assets (asset_registry H s)) i"

definition lookup_registry ::
  "(bytes \<Rightarrow> ExecutionError + ('k::linorder, 'v) btmap) \<Rightarrow> InMemorySubstrate \<Rightarrow> address \<Rightarrow> 'k \<Rightarrow> 'v option" where
  "lookup_registry decode s addr k =
     (case read_bytes s addr of
        None \<Rightarrow> None
      | Some bs \<Rightarrow> (case decode bs of Inl _ \<Rightarrow> None | Inr m \<Rightarrow> bt_get m k))"

definition force_include_obligation :: "hasher \<Rightarrow> InMemorySubstrate \<Rightarrow> hash32 \<Rightarrow> ForceIncludeObligation option" where
  "force_include_obligation H s = lookup_registry (decode_map H) s (force_include_registry_address H)"

definition sequencer_ejection :: "hasher \<Rightarrow> InMemorySubstrate \<Rightarrow> hash32 \<Rightarrow> EjectionRecord option" where
  "sequencer_ejection H s = lookup_registry (ejection_decode H) s (ejection_registry_address H)"

definition equivocation_record :: "hasher \<Rightarrow> InMemorySubstrate \<Rightarrow> hash32 \<Rightarrow> EquivocationRecord option" where
  "equivocation_record H s = lookup_registry (equivocation_decode H) s (equivocation_registry_address H)"

definition authority_record :: "hasher \<Rightarrow> InMemorySubstrate \<Rightarrow> u32 \<Rightarrow> AuthorityRecord option" where
  "authority_record H s = lookup_registry (authority_decode H) s (authority_registry_address H)"

definition validator_record :: "hasher \<Rightarrow> InMemorySubstrate \<Rightarrow> u32 \<Rightarrow> ValidatorRecord option" where
  "validator_record H s = lookup_registry (validator_decode H) s (validator_registry_address H)"

definition authority_deposited_stake :: "hasher \<Rightarrow> InMemorySubstrate \<Rightarrow> u32 \<Rightarrow> u64" where
  "authority_deposited_stake H s i = unwrap_or 0 (map_option sr_deposited_stake (authority_record H s i))"

definition validator_deposited_stake :: "hasher \<Rightarrow> InMemorySubstrate \<Rightarrow> u32 \<Rightarrow> u64" where
  "validator_deposited_stake H s i = unwrap_or 0 (map_option sr_deposited_stake (validator_record H s i))"

definition burn_id_claimed :: "hasher \<Rightarrow> InMemorySubstrate \<Rightarrow> hash32 \<Rightarrow> bool" where
  "burn_id_claimed H s i =
     (case nullifier_decode H (stored s (burn_nullifier_registry_address H)) of
        Inl _ \<Rightarrow> False | Inr nf_set \<Rightarrow> bt_contains nf_set i)"

definition last_minted_inflation_epoch :: "hasher \<Rightarrow> InMemorySubstrate \<Rightarrow> u64" where
  "last_minted_inflation_epoch H s =
     (let bs = stored s (inflation_registry_address H) in if length bs = 8 then of_be bs else 0)"

definition delegation :: "hasher \<Rightarrow> InMemorySubstrate \<Rightarrow> u32 \<Rightarrow> address \<Rightarrow> u64" where
  "delegation H s validator_id delegator =
     (case delegation_decode H (stored s (validator_delegation_registry_address H)) of
        Inl _ \<Rightarrow> 0 | Inr m \<Rightarrow> unwrap_or 0 (bt_get m (validator_id, delegator)))"

definition total_delegated_to_validator :: "hasher \<Rightarrow> InMemorySubstrate \<Rightarrow> u32 \<Rightarrow> u64" where
  "total_delegated_to_validator H s validator_id =
     (case delegation_decode H (stored s (validator_delegation_registry_address H)) of
        Inl _ \<Rightarrow> 0
      | Inr m \<Rightarrow> foldl (+) 0 (map snd (filter (\<lambda>((vid, d), amount). vid = validator_id) (bt_entries m))))"

definition assert_bridge_asset_active :: "hasher \<Rightarrow> InMemorySubstrate \<Rightarrow> hash32 \<Rightarrow> ExecutionError + unit" where
  "assert_bridge_asset_active H s i =
     res_bind (ok_or (BridgeAssetNotFound i) (bridge_asset H s i)) (\<lambda>record.
       if as_status record = AssetActive then Inr () else Inl (BridgeAssetNotActive i (as_status record)))"

section \<open>Reading back\<close>

definition coin_supply :: "InMemorySubstrate \<Rightarrow> nat" where
  "coin_supply s = bt_sum unat (balances s)"

text \<open>\<open>rollback m s\<close>: what remains of \<open>m\<close> when an error undoes its changes.\<close>

fun rollback :: "('e, 's) outcome \<Rightarrow> 's \<Rightarrow> ('e, 's) outcome" where
  "rollback (Ok t) s = Ok t"
| "rollback (Err e t) s = Err e s"

fun credit_all :: "(address \<times> Balance) list \<Rightarrow> InMemorySubstrate \<Rightarrow> result" where
  "credit_all [] s = Ok s"
| "credit_all ((to, amount) # credits) s = and_then (credit_unchecked to amount s) (credit_all credits)"

named_theorems frame_simps \<open>what the primitives leave unchanged\<close>

lemma stored_write [simp]:
  "stored (write_bytes_unchecked a bs s) b = (if b = a then bs else stored s b)"
  by (auto simp: stored_def read_bytes_def write_bytes_unchecked_def bt.get_insert bt.get_remove)

lemma read_bytes_write:
  "read_bytes (write_bytes_unchecked a bs s) b =
     (if b = a then (if bs = [] then None else Some bs) else read_bytes s b)"
  by (auto simp: read_bytes_def write_bytes_unchecked_def bt.get_insert bt.get_remove)

lemma write_frame [simp]:
  "balances (write_bytes_unchecked a bs s) = balances s"
  "current_block_height (write_bytes_unchecked a bs s) = current_block_height s"
  "balance (write_bytes_unchecked a bs s) b = balance s b"
  "coin_supply (write_bytes_unchecked a bs s) = coin_supply s"
  by (simp_all add: write_bytes_unchecked_def balance_def coin_supply_def)

lemma balances_update_frame [simp]:
  "stored (s\<lparr>balances := m\<rparr>) a = stored s a"
  "read_bytes (s\<lparr>balances := m\<rparr>) a = read_bytes s a"
  by (simp_all add: stored_def read_bytes_def)

lemma get_put_balance:
  "unwrap_or 0 (bt_get (put_balance a v m) b) = (if b = a then v else unwrap_or 0 (bt_get m b))"
  by (simp add: put_balance_def bt.get_insert bt.get_remove)

lemma put_put_balance: "bt_insert a v (put_balance a w m) = bt_insert a v m"
  by (rule bt.map_ext) (simp add: put_balance_def bt.get_insert bt.get_remove)

lemma get_commit_staged:
  "bt_get (commit_staged m staged) a = (case bt_get staged a of Some v \<Rightarrow> Some v | None \<Rightarrow> bt_get m a)"
  by (simp add: commit_staged_def bt.get_fold_insert [OF bt.keys_distinct] bt.get_eq_map_of [of staged])

lemma commit_staged_empty [simp]: "commit_staged m bt_empty = m"
  by (rule bt.map_ext) (simp add: get_commit_staged bt.get_empty)

lemma commit_staged_insert: "commit_staged m (bt_insert a v staged) = bt_insert a v (commit_staged m staged)"
  by (rule bt.map_ext) (simp add: get_commit_staged bt.get_insert split: option.split)

section \<open>The atomic primitives are rolled-back sequences\<close>

lemma stage_credits_seq:
  assumes "\<And>a. base a = unwrap_or 0 (bt_get m a)"
  shows "(case stage_credits base credits staged of
      Inl e \<Rightarrow> \<exists>t. credit_all credits (s\<lparr>balances := commit_staged m staged\<rparr>) = Err e t
    | Inr staged' \<Rightarrow> credit_all credits (s\<lparr>balances := commit_staged m staged\<rparr>) =
        Ok (s\<lparr>balances := commit_staged m staged'\<rparr>))"
proof (induction credits arbitrary: staged)
  case (Cons c credits)
  obtain to amount where c: "c = (to, amount)" by fastforce
  have bal: "unwrap_or (base to) (bt_get staged to) = balance (s\<lparr>balances := commit_staged m staged\<rparr>) to"
    by (simp add: assms balance_def get_commit_staged split: option.split)
  show ?case
  proof (cases "amount = 0")
    case True
    then show ?thesis
      using Cons.IH [of staged] by (simp add: c credit_unchecked_def split: sum.splits)
  next
    case False
    show ?thesis
    proof (cases "checked_add (unwrap_or (base to) (bt_get staged to)) amount")
      case None
      with False show ?thesis
        by (simp add: c credit_unchecked_def bal)
    next
      case (Some new)
      with False show ?thesis
        using Cons.IH [of "bt_insert to new staged"]
        by (simp add: c credit_unchecked_def bal commit_staged_insert split: sum.splits)
    qed
  qed
qed simp

lemma credit_many_rollback: "credit_many_atomic credits s = rollback (credit_all credits s) s"
proof -
  have eq: "s\<lparr>balances := balances s\<rparr> = s" by simp
  show ?thesis
    using stage_credits_seq [of "balance s" "balances s" credits bt_empty s]
    by (cases "stage_credits (balance s) credits bt_empty")
      (auto simp: credit_many_atomic_def balance_def eq)
qed

lemma transfer_internal_rollback:
  "transfer_internal frm to amount s = rollback (and_then (debit_unchecked frm amount s) (credit_unchecked to amount)) s"
proof (cases "amount = 0 \<or> balance s frm < amount")
  case False
  then have le: "amount \<le> balance s frm" and amt: "amount \<noteq> 0" by auto
  let ?t = "s\<lparr>balances := put_balance frm (balance s frm - amount) (balances s)\<rparr>"
  have debit: "debit_unchecked frm amount s = Ok ?t"
    using False by (simp add: debit_unchecked_def Let_def)
  show ?thesis
  proof (cases "frm = to")
    case True
    have "balance ?t to = balance s frm - amount"
      using True by (simp add: balance_def get_put_balance)
    moreover have "checked_add (balance s frm - amount) amount = Some (balance s frm)"
      using le unsigned_less [of "balance s frm", where ?'a = nat]
      by (simp add: checked_add_eq unat_minus_le unat_le_iff)
    moreover have "bt_get (balances s) frm = Some (balance s frm)"
      using le amt by (cases "bt_get (balances s) frm") (simp_all add: balance_def)
    then have "bt_insert to (balance s frm) (put_balance frm (balance s frm - amount) (balances s)) = balances s"
      using True by (simp add: put_put_balance bt.insert_same)
    ultimately show ?thesis
      using False debit True by (simp add: transfer_internal_def credit_unchecked_def)
  next
    case other: False
    then have "balance ?t to = balance s to"
      by (simp add: balance_def get_put_balance)
    then show ?thesis
      using False debit other
      by (cases "checked_add (balance s to) amount") (simp_all add: transfer_internal_def credit_unchecked_def)
  qed
qed (auto simp: transfer_internal_def debit_unchecked_def credit_unchecked_def Let_def)

lemma sum_credits_unat:
  "sum_credits frm tot credits = Inr t \<Longrightarrow> unat t = unat tot + sum_list (map (unat \<circ> snd) credits)"
proof (induction credits arbitrary: tot)
  case (Cons c credits)
  obtain to amount where c: "c = (to, amount)" by fastforce
  then obtain n where "checked_add tot amount = Some n" "sum_credits frm n credits = Inr t"
    using Cons.prems by (auto simp: outcome_simps)
  then show ?case
    using Cons.IH [of n] by (simp add: c checked_add_SomeD)
qed simp

lemma credit_all_zero: "sum_list (map (unat \<circ> snd) credits) = 0 \<Longrightarrow> credit_all credits s = Ok s"
  by (induction credits) (auto simp: credit_unchecked_def unat_eq_0)

lemma drain_and_credit_rollback:
  "drain_and_credit_atomic frm credits s =
     try_value (sum_credits frm 0 credits) s (\<lambda>tot.
       rollback (and_then (debit_unchecked frm tot s) (credit_all credits)) s)"
proof (cases "sum_credits frm 0 credits")
  case (Inr tot)
  have sum: "unat tot = sum_list (map (unat \<circ> snd) credits)"
    using sum_credits_unat [OF Inr] by simp
  show ?thesis
  proof (cases "tot = 0 \<or> balance s frm < tot")
    case True
    then show ?thesis
      using credit_all_zero [of credits s] sum
      by (auto simp: drain_and_credit_atomic_def Inr debit_unchecked_def Let_def)
  next
    case False
    let ?m = "put_balance frm (balance s frm - tot) (balances s)"
    let ?base = "\<lambda>to. if to = frm then balance s frm - tot else balance s to"
    have base: "?base a = unwrap_or 0 (bt_get ?m a)" for a
      by (simp add: get_put_balance balance_def)
    have "commit_staged (balances s) staged = commit_staged ?m staged" if "bt_contains staged frm" for staged
      using that by (intro bt.map_ext)
        (auto simp: get_commit_staged bt_contains_get put_balance_def bt.get_insert bt.get_remove split: option.split)
    then have commit: "commit_staged (if bt_contains staged frm then balances s else ?m) staged = commit_staged ?m staged"
      for staged by simp
    show ?thesis
      using stage_credits_seq [OF base, of credits bt_empty s] False
      by (cases "stage_credits ?base credits bt_empty")
        (auto simp: drain_and_credit_atomic_def Inr debit_unchecked_def Let_def commit)
  qed
qed (simp add: drain_and_credit_atomic_def)

end
