(* ===== verification/Substrate.thy ===== *)
theory Substrate
  imports Substrate_State
begin

text \<open>
  The intents of \<open>suwappu-execution/src/substrate.rs\<close> and \<open>apply_intent\<close>, one definition per arm of the
  match.  A registry arm reads the registry's bytes, decodes them, tests its guards, changes the map
  and writes the encoding back, in the order of the source; a fallible call before a later error
  keeps what it already did (\<open>outcome\<close> carries the state on both branches).
\<close>

section \<open>Constants\<close>

definition LIVENESS_SLASH_BPS :: Balance where "LIVENESS_SLASH_BPS = 500"
definition EXIT_COOLDOWN_BLOCKS :: u64 where "EXIT_COOLDOWN_BLOCKS = 2419200"
definition SNITCH_BOUNTY_BPS :: Balance where "SNITCH_BOUNTY_BPS = 1000"
definition SNITCH_BOUNTY_CAP :: Balance where "SNITCH_BOUNTY_CAP = 1000000"

definition liveness_slash_amount :: "Balance \<Rightarrow> Balance" where
  "liveness_slash_amount bond_balance = bond_balance * LIVENESS_SLASH_BPS div 10000"

definition snitch_bounty_amount :: "Balance \<Rightarrow> Balance" where
  "snitch_bounty_amount slash_amount =
     (let pct = saturating_mul slash_amount SNITCH_BOUNTY_BPS div 10000
      in if pct < SNITCH_BOUNTY_CAP then pct else SNITCH_BOUNTY_CAP)"

section \<open>Intents\<close>

datatype RewardsRing = AuthorityRing | ValidatorRing

fun rewards_ring_as_str :: "RewardsRing \<Rightarrow> string" where
  "rewards_ring_as_str AuthorityRing = ''authority''"
| "rewards_ring_as_str ValidatorRing = ''validator''"

datatype SlashReason = MissedForceInclude | EquivocationSlash | InvalidBatchSlash | Downtime

text \<open>Constructor arguments in the order of the source's fields.\<close>

datatype Intent =
    Transfer address address Balance
  | GenesisAllocation "(address \<times> Balance) list"
  | DistributeRewards u64 RewardsRing "(address \<times> Balance) list"
  | Delegate address u32 Balance
  | MintInflation u64 Balance Balance Balance
  | AdmitAuthority u32 u64 bytes bytes
  | ExitAuthority u32
  | EjectAuthority u32 hash32
  | AdmitValidator u32 u64 bytes bytes
  | ExitValidator u32
  | EjectValidator u32 hash32
  | CommitL2StateRoot u64 hash32 bytes bytes hash32
  | SetL2VerifyingKey hash32 hash32 hash32
  | L1Lock address address Balance "hash32 option"
  | L2BurnProven u64 address Balance bytes "hash32 option" hash32
  | L2ForceInclude bytes u64 address u64
  | SlashSequencer SlashReason hash32
  | MarkForceIncludeHonored hash32
  | EjectSequencer hash32 address
  | DepositSequencerBond address Balance
  | DepositSafetyBond address Balance
  | DepositAuthorityStake address u32 Balance
  | DepositValidatorStake address u32 Balance
  | WithdrawAuthorityStake address u32 Balance
  | WithdrawValidatorStake address u32 Balance
  | DisburseTreasury address Balance hash32
  | ClaimInsurance address Balance hash32
  | PostL2DA u64 bytes
  | DistributeSlashedFunds hash32 "(address \<times> Balance) list" Balance Balance
  | AddBridgeAsset u64 bytes u8 bytes bytes
  | PauseBridgeAsset hash32
  | RemoveBridgeAsset hash32

section \<open>Transfers, issuance and rewards\<close>

definition apply_transfer :: "hasher \<Rightarrow> address \<Rightarrow> address \<Rightarrow> Balance \<Rightarrow> InMemorySubstrate \<Rightarrow> result" where
  "apply_transfer H frm to amount s =
     (if is_reserved H frm then Err (ReservedAddressTransferDenied frm) s
      else if is_reserved H to then Err (ReservedAddressTransferDenied to) s
      else if amount = 0 then Ok s
      else let source_balance = balance s frm in
        if source_balance < amount then Err (InsufficientBalance frm source_balance amount) s
        else if frm = to then Ok s
        else try_value (ok_or (BalanceOverflow to) (checked_add (balance s to) amount)) s (\<lambda>new_dest.
          Ok (s\<lparr>balances := bt_insert to new_dest (put_balance frm (source_balance - amount) (balances s))\<rparr>)))"

definition apply_genesis :: "(address \<times> Balance) list \<Rightarrow> InMemorySubstrate \<Rightarrow> result" where
  "apply_genesis allocations s =
     (if current_block_height s \<noteq> 0 then Err (GenesisAfterBootstrap (current_block_height s)) s
      else credit_many_atomic allocations s)"

definition apply_mint :: "hasher \<Rightarrow> u64 \<Rightarrow> Balance \<Rightarrow> Balance \<Rightarrow> Balance \<Rightarrow> InMemorySubstrate \<Rightarrow> result" where
  "apply_mint H epoch authority_share validator_share treasury_share s =
     (let registry_addr = inflation_registry_address H; existing = stored s registry_addr in
      try_value (if existing = [] then Inr 0
                 else if length existing = 8 then Inr (of_be existing)
                 else Inl (CorruptStateRecord registry_addr ''inflation registry size mismatch'')) s (\<lambda>last_epoch.
        if epoch \<le> last_epoch then Err (InflationEpochAlreadyMinted epoch last_epoch) s
        else and_then (credit_many_atomic
               [(authority_rewards_pool_address H, authority_share),
                (validator_rewards_pool_address H, validator_share),
                (treasury_address H, treasury_share)] s) (\<lambda>s.
          Ok (write_bytes_unchecked registry_addr (be_bytes 8 epoch) s))))"

definition last_rewards :: "hasher \<Rightarrow> InMemorySubstrate \<Rightarrow> ExecutionError + (u64 \<times> u64)" where
  "last_rewards H s =
     (let registry_addr = rewards_distribution_registry_address H; existing = stored s registry_addr in
      if existing = [] then Inr (0, 0)
      else if length existing = 16 then Inr (read_u64 existing 0, read_u64 existing 8)
      else Inl (CorruptStateRecord registry_addr ''rewards distribution registry size mismatch''))"

definition last_distributed_rewards_epoch :: "hasher \<Rightarrow> InMemorySubstrate \<Rightarrow> RewardsRing \<Rightarrow> u64" where
  "last_distributed_rewards_epoch H s ring =
     (let bs = stored s (rewards_distribution_registry_address H) in
      if length bs = 16 then (case ring of AuthorityRing \<Rightarrow> read_u64 bs 0 | ValidatorRing \<Rightarrow> read_u64 bs 8) else 0)"

definition apply_rewards :: "hasher \<Rightarrow> u64 \<Rightarrow> RewardsRing \<Rightarrow> (address \<times> Balance) list \<Rightarrow> InMemorySubstrate \<Rightarrow> result" where
  "apply_rewards H epoch ring recipients s =
     try_value (last_rewards H s) s (\<lambda>(last_auth, last_val).
       let last_ring = (case ring of AuthorityRing \<Rightarrow> last_auth | ValidatorRing \<Rightarrow> last_val) in
       if epoch \<le> last_ring then Err (RewardsEpochAlreadyDistributed (rewards_ring_as_str ring) epoch last_ring) s
       else
         let pool_addr = (case ring of AuthorityRing \<Rightarrow> authority_rewards_pool_address H
                                     | ValidatorRing \<Rightarrow> validator_rewards_pool_address H) in
         case find (\<lambda>(recipient, _). is_reserved H recipient) recipients of
           Some (recipient, _) \<Rightarrow> Err (ReservedAddressTransferDenied recipient) s
         | None \<Rightarrow>
             and_then (drain_and_credit_atomic pool_addr recipients s) (\<lambda>s.
               Ok (write_bytes_unchecked (rewards_distribution_registry_address H)
                     (case ring of AuthorityRing \<Rightarrow> be_bytes 8 epoch @ be_bytes 8 last_val
                                 | ValidatorRing \<Rightarrow> be_bytes 8 last_auth @ be_bytes 8 epoch) s)))"

definition apply_delegate :: "hasher \<Rightarrow> address \<Rightarrow> u32 \<Rightarrow> Balance \<Rightarrow> InMemorySubstrate \<Rightarrow> result" where
  "apply_delegate H frm validator_id amount s =
     (if amount = 0 then Ok s
      else if is_reserved H frm then Err (ReservedAddressTransferDenied frm) s
      else try_value (validator_decode H (stored s (validator_registry_address H))) s (\<lambda>v_map.
        try_value (ok_or (ValidatorNotFound validator_id) (bt_get v_map validator_id)) s (\<lambda>rec.
        if sr_status rec \<noteq> ValActive then Err (ValidatorNotActive validator_id (sr_status rec)) s
        else try_value (ok_or (DepositedStakeOverflow ''delegation'' validator_id) (u64_try_from amount)) s (\<lambda>delta.
        try_value (delegation_decode H (stored s (validator_delegation_registry_address H))) s (\<lambda>reg.
        try_value (ok_or (DepositedStakeOverflow ''delegation'' validator_id)
                     (checked_add (unwrap_or 0 (bt_get reg (validator_id, frm))) delta)) s (\<lambda>entry.
        and_then (transfer_internal frm (validator_stake_pool_address H) amount s) (\<lambda>s.
          Ok (write_bytes_unchecked (validator_delegation_registry_address H)
                (delegation_encode (bt_insert (validator_id, frm) entry reg)) s))))))))"

section \<open>Ring lifecycle\<close>

definition apply_admit_authority :: "hasher \<Rightarrow> u32 \<Rightarrow> u64 \<Rightarrow> bytes \<Rightarrow> bytes \<Rightarrow> InMemorySubstrate \<Rightarrow> result" where
  "apply_admit_authority H authority_id stake mldsa_pk bls_pk s =
     (if MAX_MLDSA_PK_BYTES < length mldsa_pk
      then Err (AuthorityFieldTooLong ''mldsa_pk'' (length mldsa_pk) MAX_MLDSA_PK_BYTES) s
      else if MAX_BLS_PK_BYTES < length bls_pk
      then Err (AuthorityFieldTooLong ''bls_pk'' (length bls_pk) MAX_BLS_PK_BYTES) s
      else try_value (authority_decode H (stored s (authority_registry_address H))) s (\<lambda>map.
        if bt_contains map authority_id then Err (AuthoritySlotAlreadyOccupied authority_id) s
        else Ok (write_bytes_unchecked (authority_registry_address H)
               (authority_encode (bt_insert authority_id
                  \<lparr>sr_mldsa_public_key = mldsa_pk, sr_bls_public_key = bls_pk, sr_stake_suwappu = stake,
                   sr_deposited_stake = 0, sr_exit_block_height = 0, sr_status = AuthActive\<rparr> map)) s)))"

definition apply_exit_authority :: "hasher \<Rightarrow> u32 \<Rightarrow> InMemorySubstrate \<Rightarrow> result" where
  "apply_exit_authority H authority_id s =
     try_value (authority_decode H (stored s (authority_registry_address H))) s (\<lambda>map.
     try_value (ok_or (AuthorityNotFound authority_id) (bt_get map authority_id)) s (\<lambda>rec.
       if sr_status rec \<noteq> AuthActive then Err (AuthorityNotActive authority_id (sr_status rec)) s
       else Ok (write_bytes_unchecked (authority_registry_address H)
              (authority_encode (bt_insert authority_id
                 (rec\<lparr>sr_status := AuthExiting, sr_exit_block_height := current_block_height s\<rparr>) map)) s)))"

text \<open>The waterfall of both ejections: 70\% of what the pool can pay to insurance, the rest to the
  treasury.\<close>

definition drain_slot :: "hasher \<Rightarrow> address \<Rightarrow> u64 \<Rightarrow> InMemorySubstrate \<Rightarrow> result" where
  "drain_slot H pool_addr deposited_stake s =
     (let drained = min (ucast deposited_stake) (balance s pool_addr) in
      if 0 < drained
      then let insurance_share = drained * 70 div 100 in
        drain_and_credit_atomic pool_addr
          [(insurance_pool_address H, insurance_share), (treasury_address H, drained - insurance_share)] s
      else Ok s)"

definition apply_eject_authority :: "hasher \<Rightarrow> u32 \<Rightarrow> InMemorySubstrate \<Rightarrow> result" where
  "apply_eject_authority H authority_id s =
     try_value (authority_decode H (stored s (authority_registry_address H))) s (\<lambda>map.
     try_value (ok_or (AuthorityNotFound authority_id) (bt_get map authority_id)) s (\<lambda>rec.
       and_then (drain_slot H (authority_stake_pool_address H) (sr_deposited_stake rec) s) (\<lambda>s.
         Ok (write_bytes_unchecked (authority_registry_address H)
               (authority_encode (bt_insert authority_id
                  (rec\<lparr>sr_deposited_stake := 0, sr_status := AuthEjected\<rparr>) map)) s))))"

definition apply_admit_validator :: "hasher \<Rightarrow> u32 \<Rightarrow> u64 \<Rightarrow> bytes \<Rightarrow> bytes \<Rightarrow> InMemorySubstrate \<Rightarrow> result" where
  "apply_admit_validator H validator_id stake mldsa_pk bls_pk s =
     (if MAX_MLDSA_PK_BYTES < length mldsa_pk
      then Err (ValidatorFieldTooLong ''mldsa_pk'' (length mldsa_pk) MAX_MLDSA_PK_BYTES) s
      else if MAX_BLS_PK_BYTES < length bls_pk
      then Err (ValidatorFieldTooLong ''bls_pk'' (length bls_pk) MAX_BLS_PK_BYTES) s
      else try_value (validator_decode H (stored s (validator_registry_address H))) s (\<lambda>map.
        if bt_contains map validator_id then Err (ValidatorSlotAlreadyOccupied validator_id) s
        else Ok (write_bytes_unchecked (validator_registry_address H)
               (validator_encode (bt_insert validator_id
                  \<lparr>sr_mldsa_public_key = mldsa_pk, sr_bls_public_key = bls_pk, sr_stake_suwappu = stake,
                   sr_deposited_stake = 0, sr_exit_block_height = 0, sr_status = ValActive\<rparr> map)) s)))"

definition apply_exit_validator :: "hasher \<Rightarrow> u32 \<Rightarrow> InMemorySubstrate \<Rightarrow> result" where
  "apply_exit_validator H validator_id s =
     try_value (validator_decode H (stored s (validator_registry_address H))) s (\<lambda>map.
     try_value (ok_or (ValidatorNotFound validator_id) (bt_get map validator_id)) s (\<lambda>rec.
       if sr_status rec \<noteq> ValActive then Err (ValidatorNotActive validator_id (sr_status rec)) s
       else Ok (write_bytes_unchecked (validator_registry_address H)
              (validator_encode (bt_insert validator_id
                 (rec\<lparr>sr_status := ValExiting, sr_exit_block_height := current_block_height s\<rparr>) map)) s)))"

definition apply_eject_validator :: "hasher \<Rightarrow> u32 \<Rightarrow> InMemorySubstrate \<Rightarrow> result" where
  "apply_eject_validator H validator_id s =
     try_value (validator_decode H (stored s (validator_registry_address H))) s (\<lambda>map.
     try_value (ok_or (ValidatorNotFound validator_id) (bt_get map validator_id)) s (\<lambda>rec.
       and_then (drain_slot H (validator_stake_pool_address H) (sr_deposited_stake rec) s) (\<lambda>s.
         Ok (write_bytes_unchecked (validator_registry_address H)
               (validator_encode (bt_insert validator_id
                  (rec\<lparr>sr_deposited_stake := 0, sr_status := ValEjected\<rparr>) map)) s))))"

definition apply_deposit_authority :: "hasher \<Rightarrow> address \<Rightarrow> u32 \<Rightarrow> Balance \<Rightarrow> InMemorySubstrate \<Rightarrow> result" where
  "apply_deposit_authority H frm authority_id amount s =
     (if amount = 0 then Ok s
      else if is_reserved H frm then Err (ReservedAddressTransferDenied frm) s
      else try_value (authority_decode H (stored s (authority_registry_address H))) s (\<lambda>map.
        try_value (ok_or (AuthorityNotFound authority_id) (bt_get map authority_id)) s (\<lambda>rec.
        if sr_status rec \<noteq> AuthActive then Err (AuthorityNotActive authority_id (sr_status rec)) s
        else try_value (ok_or (DepositedStakeOverflow ''authority'' authority_id) (u64_try_from amount)) s (\<lambda>delta.
        try_value (ok_or (DepositedStakeOverflow ''authority'' authority_id)
                     (checked_add (sr_deposited_stake rec) delta)) s (\<lambda>deposited.
        and_then (transfer_internal frm (authority_stake_pool_address H) amount s) (\<lambda>s.
          Ok (write_bytes_unchecked (authority_registry_address H)
                (authority_encode (bt_insert authority_id (rec\<lparr>sr_deposited_stake := deposited\<rparr>) map)) s)))))))"

definition apply_deposit_validator :: "hasher \<Rightarrow> address \<Rightarrow> u32 \<Rightarrow> Balance \<Rightarrow> InMemorySubstrate \<Rightarrow> result" where
  "apply_deposit_validator H frm validator_id amount s =
     (if amount = 0 then Ok s
      else if is_reserved H frm then Err (ReservedAddressTransferDenied frm) s
      else try_value (validator_decode H (stored s (validator_registry_address H))) s (\<lambda>map.
        try_value (ok_or (ValidatorNotFound validator_id) (bt_get map validator_id)) s (\<lambda>rec.
        if sr_status rec \<noteq> ValActive then Err (ValidatorNotActive validator_id (sr_status rec)) s
        else try_value (ok_or (DepositedStakeOverflow ''validator'' validator_id) (u64_try_from amount)) s (\<lambda>delta.
        try_value (ok_or (DepositedStakeOverflow ''validator'' validator_id)
                     (checked_add (sr_deposited_stake rec) delta)) s (\<lambda>deposited.
        and_then (transfer_internal frm (validator_stake_pool_address H) amount s) (\<lambda>s.
          Ok (write_bytes_unchecked (validator_registry_address H)
                (validator_encode (bt_insert validator_id (rec\<lparr>sr_deposited_stake := deposited\<rparr>) map)) s)))))))"

fun auth_status_name :: "AuthorityStatus \<Rightarrow> string" where
  "auth_status_name AuthActive = ''Active''"
| "auth_status_name AuthExiting = ''Exiting''"
| "auth_status_name AuthEjected = ''Ejected''"

fun val_status_name :: "ValidatorStatus \<Rightarrow> string" where
  "val_status_name ValActive = ''Active''"
| "val_status_name ValExiting = ''Exiting''"
| "val_status_name ValEjected = ''Ejected''"

definition apply_withdraw_authority :: "hasher \<Rightarrow> address \<Rightarrow> u32 \<Rightarrow> Balance \<Rightarrow> InMemorySubstrate \<Rightarrow> result" where
  "apply_withdraw_authority H to authority_id amount s =
     (if amount = 0 then Ok s
      else if is_reserved H to then Err (ReservedAddressTransferDenied to) s
      else try_value (authority_decode H (stored s (authority_registry_address H))) s (\<lambda>map.
        try_value (ok_or (AuthorityNotFound authority_id) (bt_get map authority_id)) s (\<lambda>rec.
        if sr_status rec \<noteq> AuthExiting
        then Err (SlotNotExiting ''authority'' authority_id (auth_status_name (sr_status rec))) s
        else let required = saturating_add (sr_exit_block_height rec) EXIT_COOLDOWN_BLOCKS in
        if current_block_height s < required
        then Err (ExitCooldownNotElapsed ''authority'' authority_id required (current_block_height s)) s
        else let have_stake = ucast (sr_deposited_stake rec) in
        if have_stake < amount then Err (WithdrawalExceedsDeposit ''authority'' authority_id amount have_stake) s
        else and_then (transfer_internal (authority_stake_pool_address H) to amount s) (\<lambda>s.
          Ok (write_bytes_unchecked (authority_registry_address H)
                (authority_encode (bt_insert authority_id
                   (rec\<lparr>sr_deposited_stake := sr_deposited_stake rec - ucast amount\<rparr>) map)) s)))))"

definition apply_withdraw_validator :: "hasher \<Rightarrow> address \<Rightarrow> u32 \<Rightarrow> Balance \<Rightarrow> InMemorySubstrate \<Rightarrow> result" where
  "apply_withdraw_validator H to validator_id amount s =
     (if amount = 0 then Ok s
      else if is_reserved H to then Err (ReservedAddressTransferDenied to) s
      else try_value (validator_decode H (stored s (validator_registry_address H))) s (\<lambda>map.
        try_value (ok_or (ValidatorNotFound validator_id) (bt_get map validator_id)) s (\<lambda>rec.
        if sr_status rec \<noteq> ValExiting
        then Err (SlotNotExiting ''validator'' validator_id (val_status_name (sr_status rec))) s
        else let required = saturating_add (sr_exit_block_height rec) EXIT_COOLDOWN_BLOCKS in
        if current_block_height s < required
        then Err (ExitCooldownNotElapsed ''validator'' validator_id required (current_block_height s)) s
        else let have_stake = ucast (sr_deposited_stake rec) in
        if have_stake < amount then Err (WithdrawalExceedsDeposit ''validator'' validator_id amount have_stake) s
        else and_then (transfer_internal (validator_stake_pool_address H) to amount s) (\<lambda>s.
          Ok (write_bytes_unchecked (validator_registry_address H)
                (validator_encode (bt_insert validator_id
                   (rec\<lparr>sr_deposited_stake := sr_deposited_stake rec - ucast amount\<rparr>) map)) s)))))"

section \<open>L2 commits and the bridge\<close>

definition apply_commit_l2 ::
  "hasher \<Rightarrow> u64 \<Rightarrow> hash32 \<Rightarrow> bytes \<Rightarrow> bytes \<Rightarrow> hash32 \<Rightarrow> InMemorySubstrate \<Rightarrow> result" where
  "apply_commit_l2 H batch_id new_state_root proof_bytes public_inputs vk_hash s =
     (case verify_l2_batch proof_bytes public_inputs vk_hash of
        Inl e \<Rightarrow> Err (L2VerifierRejected e) s
      | Inr _ \<Rightarrow>
          try_value (l2_decode H (stored s (l2_registry_address H))) s (\<lambda>registry.
            let l1_anchor_height = read_u64 public_inputs L1_ANCHOR_HEIGHT_OFFSET;
                l2_chain_id_hash = read_hash32 public_inputs L2_CHAIN_ID_HASH_OFFSET;
                da_commitment = read_hash32 public_inputs DA_COMMITMENT_OFFSET;
                expected_vk = aggregation_vk_hash registry l2_chain_id_hash
            in if expected_vk \<noteq> vk_hash then Err (L2VkPinMismatch expected_vk vk_hash) s
               else Ok (write_bytes_unchecked (l2_registry_address H)
                      (l2_encode (registry\<lparr>state_roots := bt_insert (l2_chain_id_hash, batch_id)
                         \<lparr>l2_state_root = new_state_root, l2_committed_at_l1_height = l1_anchor_height,
                          l2_vk_hash = vk_hash, l2_da_commitment = da_commitment\<rparr> (state_roots registry)\<rparr>)) s)))"

definition apply_set_vk :: "hasher \<Rightarrow> hash32 \<Rightarrow> hash32 \<Rightarrow> hash32 \<Rightarrow> InMemorySubstrate \<Rightarrow> result" where
  "apply_set_vk H chain_id_hash new_aggregation_vk new_range_commitment s =
     (if new_aggregation_vk = 0 \<and> new_range_commitment = 0 then Err SetL2VkAllZeros s
      else try_value (l2_decode H (stored s (l2_registry_address H))) s (\<lambda>registry.
        Ok (write_bytes_unchecked (l2_registry_address H)
              (l2_encode (set_chain_vks chain_id_hash new_aggregation_vk new_range_commitment registry)) s)))"

definition asset_gate :: "hasher \<Rightarrow> InMemorySubstrate \<Rightarrow> hash32 option \<Rightarrow> ExecutionError + unit" where
  "asset_gate H s asset =
     (case asset of Some i \<Rightarrow> assert_bridge_asset_active H s i | None \<Rightarrow> Inr ())"

definition apply_l1_lock :: "hasher \<Rightarrow> address \<Rightarrow> Balance \<Rightarrow> hash32 option \<Rightarrow> InMemorySubstrate \<Rightarrow> result" where
  "apply_l1_lock H user_address amount asset s =
     (if amount = 0 then Ok s
      else try_value (asset_gate H s asset) s (\<lambda>_.
        and_then (debit_unchecked user_address amount s)
          (credit_unchecked (bridge_escrow_address H) amount)))"

definition apply_l2_burn ::
  "hasher \<Rightarrow> u64 \<Rightarrow> address \<Rightarrow> Balance \<Rightarrow> bytes \<Rightarrow> hash32 option \<Rightarrow> hash32 \<Rightarrow> InMemorySubstrate \<Rightarrow> result" where
  "apply_l2_burn H batch_id recipient amount merkle_path asset l2_chain_id_hash s =
     (if amount = 0 then Ok s
      else if is_reserved H recipient then Err (ReservedAddressTransferDenied recipient) s
      else try_value (asset_gate H s asset) s (\<lambda>_.
        if l2_state_root_record H s (l2_chain_id_hash, batch_id) = None
        then Err (L2BatchNotCommitted l2_chain_id_hash batch_id) s
        else let i = burn_id H l2_chain_id_hash batch_id recipient amount merkle_path asset in
        try_value (nullifier_decode H (stored s (burn_nullifier_registry_address H))) s (\<lambda>nf_set.
        if bt_contains nf_set i then Err (L2BurnAlreadyClaimed i) s
        else let s1 = write_bytes_unchecked (burn_nullifier_registry_address H)
                        (nullifier_encode (bt_insert i () nf_set)) s in
        and_then (debit_unchecked (bridge_escrow_address H) amount s1) (credit_unchecked recipient amount))))"

definition apply_force_include :: "hasher \<Rightarrow> bytes \<Rightarrow> u64 \<Rightarrow> address \<Rightarrow> u64 \<Rightarrow> InMemorySubstrate \<Rightarrow> result" where
  "apply_force_include H tx deadline_l1_height submitter l2_nonce s =
     (let i = obligation_id H tx deadline_l1_height submitter l2_nonce in
      try_value (decode_map H (stored s (force_include_registry_address H))) s (\<lambda>map.
        if bt_contains map i then Err (ForceIncludeAlreadyRegistered i) s
        else Ok (write_bytes_unchecked (force_include_registry_address H)
               (encode_map (bt_insert i
                  \<lparr>ob_tx_hash = tx_hash H tx, ob_deadline_l1_height = deadline_l1_height,
                   ob_submitter = submitter, ob_l2_nonce = l2_nonce, ob_status = Pending\<rparr> map)) s)))"

section \<open>Sequencer accountability\<close>

text \<open>The 70/30 split of a slash and the bounty out of the treasury, shared by the arms below.\<close>

definition split_slash :: "hasher \<Rightarrow> Balance \<Rightarrow> InMemorySubstrate \<Rightarrow> result" where
  "split_slash H slash_amount s =
     (let insurance_share = slash_amount * 70 div 100 in
      and_then (credit_unchecked (insurance_pool_address H) insurance_share s)
        (credit_unchecked (treasury_address H) (slash_amount - insurance_share)))"

definition pay_bounty :: "hasher \<Rightarrow> Balance \<Rightarrow> address \<Rightarrow> InMemorySubstrate \<Rightarrow> result" where
  "pay_bounty H bounty recipient s =
     (if 0 < bounty
      then let treasury_balance = balance s (treasury_address H);
               paid = (if bounty < treasury_balance then bounty else treasury_balance)
           in if 0 < paid
              then and_then (debit_unchecked (treasury_address H) paid s) (credit_unchecked recipient paid)
              else Ok s
      else Ok s)"

definition apply_slash_missed :: "hasher \<Rightarrow> hash32 \<Rightarrow> InMemorySubstrate \<Rightarrow> result" where
  "apply_slash_missed H intent_hash s =
     try_value (decode_map H (stored s (force_include_registry_address H))) s (\<lambda>map.
     try_value (ok_or (ForceIncludeNotFound intent_hash) (bt_get map intent_hash)) s (\<lambda>ob.
     if ob_status ob \<noteq> Pending then Err (ForceIncludeNotPending intent_hash (ob_status ob)) s
     else let s1 = write_bytes_unchecked (force_include_registry_address H)
                     (encode_map (bt_insert intent_hash (ob\<lparr>ob_status := Slashed\<rparr>) map)) s;
              bond_balance = balance s1 (sequencer_bond_address H)
     in if bond_balance = 0 then Ok s1
     else let slash_amount = liveness_slash_amount bond_balance
     in if slash_amount = 0 then Ok s1
     else and_then (debit_unchecked (sequencer_bond_address H) slash_amount s1) (\<lambda>s2.
          and_then (split_slash H slash_amount s2) (\<lambda>s3.
            if \<not> is_reserved H (ob_submitter ob)
            then pay_bounty H (snitch_bounty_amount slash_amount) (ob_submitter ob) s3
            else Ok s3))))"

definition apply_slash_offense :: "hasher \<Rightarrow> OffenseKind \<Rightarrow> hash32 \<Rightarrow> InMemorySubstrate \<Rightarrow> result" where
  "apply_slash_offense H kind intent_hash s =
     try_value (equivocation_decode H (stored s (equivocation_registry_address H))) s (\<lambda>map.
     case bt_get map intent_hash of
       Some prior \<Rightarrow> Err (EquivocationAlreadyRecorded intent_hash (eq_kind prior)) s
     | None \<Rightarrow>
         let s1 = write_bytes_unchecked (equivocation_registry_address H)
                    (equivocation_encode (bt_insert intent_hash
                       \<lparr>eq_kind = kind, eq_slashed_at_l1_height = 0\<rparr> map)) s;
             bond_balance = balance s1 (safety_bond_address H)
         in if bond_balance = 0 then Ok s1
            else and_then (debit_unchecked (safety_bond_address H) bond_balance s1) (split_slash H bond_balance))"

fun apply_slash :: "hasher \<Rightarrow> SlashReason \<Rightarrow> hash32 \<Rightarrow> InMemorySubstrate \<Rightarrow> result" where
  "apply_slash H MissedForceInclude intent_hash s = apply_slash_missed H intent_hash s"
| "apply_slash H EquivocationSlash intent_hash s = apply_slash_offense H Equivocation_Offense intent_hash s"
| "apply_slash H InvalidBatchSlash intent_hash s = apply_slash_offense H InvalidBatch_Offense intent_hash s"
| "apply_slash H Downtime intent_hash s = Ok s"

definition apply_mark_honored :: "hasher \<Rightarrow> hash32 \<Rightarrow> InMemorySubstrate \<Rightarrow> result" where
  "apply_mark_honored H i s =
     try_value (decode_map H (stored s (force_include_registry_address H))) s (\<lambda>map.
     try_value (ok_or (ForceIncludeNotFound i) (bt_get map i)) s (\<lambda>ob.
       if ob_status ob \<noteq> Pending then Err (ForceIncludeNotPending i (ob_status ob)) s
       else Ok (write_bytes_unchecked (force_include_registry_address H)
              (encode_map (bt_insert i (ob\<lparr>ob_status := Honored\<rparr>) map)) s)))"

definition apply_eject_sequencer :: "hasher \<Rightarrow> hash32 \<Rightarrow> address \<Rightarrow> InMemorySubstrate \<Rightarrow> result" where
  "apply_eject_sequencer H i ejector s =
     (if is_reserved H ejector then Err (ReservedAddressTransferDenied ejector) s
      else try_value (decode_map H (stored s (force_include_registry_address H))) s (\<lambda>fi_map.
        try_value (ok_or (ForceIncludeNotFound i) (bt_get fi_map i)) s (\<lambda>ob.
        if ob_status ob \<noteq> Slashed then Err (ForceIncludeNotSlashed i (ob_status ob)) s
        else try_value (ejection_decode H (stored s (ejection_registry_address H))) s (\<lambda>ej_map.
        if bt_contains ej_map i then Err (SequencerEjectionAlreadyRecorded i) s
        else let s1 = write_bytes_unchecked (ejection_registry_address H)
                        (ejection_encode (bt_insert i \<lparr>ej_ejector = ejector\<rparr> ej_map)) s;
                 reference_slash = liveness_slash_amount (balance s1 (sequencer_bond_address H))
             in pay_bounty H (snitch_bounty_amount reference_slash) ejector s1))))"

section \<open>Bonds and pools\<close>

definition apply_deposit_sequencer_bond :: "hasher \<Rightarrow> address \<Rightarrow> Balance \<Rightarrow> InMemorySubstrate \<Rightarrow> result" where
  "apply_deposit_sequencer_bond H frm amount s =
     (if amount = 0 then Ok s
      else if is_reserved H frm then Err (ReservedAddressTransferDenied frm) s
      else and_then (debit_unchecked frm amount s) (credit_unchecked (sequencer_bond_address H) amount))"

definition apply_deposit_safety_bond :: "hasher \<Rightarrow> address \<Rightarrow> Balance \<Rightarrow> InMemorySubstrate \<Rightarrow> result" where
  "apply_deposit_safety_bond H frm amount s =
     (if amount = 0 then Ok s
      else if is_reserved H frm then Err (ReservedAddressTransferDenied frm) s
      else and_then (debit_unchecked frm amount s) (credit_unchecked (safety_bond_address H) amount))"

definition apply_disburse_treasury :: "hasher \<Rightarrow> address \<Rightarrow> Balance \<Rightarrow> InMemorySubstrate \<Rightarrow> result" where
  "apply_disburse_treasury H recipient amount s =
     (if amount = 0 then Ok s
      else if is_reserved H recipient then Err (ReservedAddressTransferDenied recipient) s
      else and_then (debit_unchecked (treasury_address H) amount s) (credit_unchecked recipient amount))"

definition apply_claim_insurance :: "hasher \<Rightarrow> address \<Rightarrow> Balance \<Rightarrow> InMemorySubstrate \<Rightarrow> result" where
  "apply_claim_insurance H claimant amount s =
     (if amount = 0 then Ok s
      else if is_reserved H claimant then Err (ReservedAddressTransferDenied claimant) s
      else and_then (debit_unchecked (insurance_pool_address H) amount s) (credit_unchecked claimant amount))"

definition apply_distribute_slashed ::
  "hasher \<Rightarrow> (address \<times> Balance) list \<Rightarrow> Balance \<Rightarrow> Balance \<Rightarrow> InMemorySubstrate \<Rightarrow> result" where
  "apply_distribute_slashed H counterparties insurance_share treasury_share s =
     (case find (\<lambda>(addr, _). is_reserved H addr) counterparties of
        Some (addr, _) \<Rightarrow> Err (ReservedAddressInCounterparties addr) s
      | None \<Rightarrow>
          and_then (credit_all counterparties s) (\<lambda>s.
          and_then (credit_unchecked (insurance_pool_address H) insurance_share s)
            (credit_unchecked (treasury_address H) treasury_share)))"

section \<open>Bridge assets\<close>

definition apply_add_asset :: "hasher \<Rightarrow> u64 \<Rightarrow> bytes \<Rightarrow> u8 \<Rightarrow> bytes \<Rightarrow> bytes \<Rightarrow> InMemorySubstrate \<Rightarrow> result" where
  "apply_add_asset H source_chain source_contract decimals name symbol s =
     (if MAX_SOURCE_CONTRACT_BYTES < length source_contract
      then Err (BridgeAssetFieldTooLong ''source_contract'' (length source_contract) MAX_SOURCE_CONTRACT_BYTES) s
      else if MAX_ASSET_NAME_BYTES < length name
      then Err (BridgeAssetFieldTooLong ''name'' (length name) MAX_ASSET_NAME_BYTES) s
      else if MAX_ASSET_SYMBOL_BYTES < length symbol
      then Err (BridgeAssetFieldTooLong ''symbol'' (length symbol) MAX_ASSET_SYMBOL_BYTES) s
      else let i = asset_id H source_chain source_contract in
        try_value (asset_decode H (stored s (asset_registry_address H))) s (\<lambda>registry.
          if bt_contains (assets registry) i then Err (BridgeAssetAlreadyRegistered i) s
          else Ok (write_bytes_unchecked (asset_registry_address H)
                 (asset_encode (registry\<lparr>assets := bt_insert i
                    \<lparr>as_source_chain = source_chain, as_source_contract = source_contract, as_decimals = decimals,
                     as_name = name, as_symbol = symbol, as_status = AssetActive\<rparr> (assets registry)\<rparr>)) s)))"

definition set_asset_status :: "hasher \<Rightarrow> AssetStatus \<Rightarrow> hash32 \<Rightarrow> InMemorySubstrate \<Rightarrow> result" where
  "set_asset_status H status i s =
     try_value (asset_decode H (stored s (asset_registry_address H))) s (\<lambda>registry.
     try_value (ok_or (BridgeAssetNotFound i) (bt_get (assets registry) i)) s (\<lambda>rec.
       Ok (write_bytes_unchecked (asset_registry_address H)
             (asset_encode (registry\<lparr>assets := bt_insert i (rec\<lparr>as_status := status\<rparr>) (assets registry)\<rparr>)) s)))"

definition apply_pause_asset :: "hasher \<Rightarrow> hash32 \<Rightarrow> InMemorySubstrate \<Rightarrow> result" where
  "apply_pause_asset H i s = set_asset_status H AssetPaused i s"

definition apply_remove_asset :: "hasher \<Rightarrow> hash32 \<Rightarrow> InMemorySubstrate \<Rightarrow> result" where
  "apply_remove_asset H i s = set_asset_status H AssetRemoved i s"

section \<open>Dispatch\<close>

fun apply_intent :: "hasher \<Rightarrow> Intent \<Rightarrow> InMemorySubstrate \<Rightarrow> result" where
  "apply_intent H (Transfer frm to amount) s = apply_transfer H frm to amount s"
| "apply_intent H (GenesisAllocation allocations) s = apply_genesis allocations s"
| "apply_intent H (DistributeRewards epoch ring recipients) s = apply_rewards H epoch ring recipients s"
| "apply_intent H (Delegate frm validator_id amount) s = apply_delegate H frm validator_id amount s"
| "apply_intent H (MintInflation epoch a v t) s = apply_mint H epoch a v t s"
| "apply_intent H (AdmitAuthority i stake mldsa_pk bls_pk) s = apply_admit_authority H i stake mldsa_pk bls_pk s"
| "apply_intent H (ExitAuthority i) s = apply_exit_authority H i s"
| "apply_intent H (EjectAuthority i proof_ref) s = apply_eject_authority H i s"
| "apply_intent H (AdmitValidator i stake mldsa_pk bls_pk) s = apply_admit_validator H i stake mldsa_pk bls_pk s"
| "apply_intent H (ExitValidator i) s = apply_exit_validator H i s"
| "apply_intent H (EjectValidator i proof_ref) s = apply_eject_validator H i s"
| "apply_intent H (CommitL2StateRoot batch_id root pb pub vk_hash) s = apply_commit_l2 H batch_id root pb pub vk_hash s"
| "apply_intent H (SetL2VerifyingKey chain agg rng) s = apply_set_vk H chain agg rng s"
| "apply_intent H (L1Lock user_address l2_recipient amount asset) s = apply_l1_lock H user_address amount asset s"
| "apply_intent H (L2BurnProven batch_id recipient amount merkle_path asset chain) s =
     apply_l2_burn H batch_id recipient amount merkle_path asset chain s"
| "apply_intent H (L2ForceInclude tx deadline submitter l2_nonce) s = apply_force_include H tx deadline submitter l2_nonce s"
| "apply_intent H (SlashSequencer reason intent_hash) s = apply_slash H reason intent_hash s"
| "apply_intent H (MarkForceIncludeHonored i) s = apply_mark_honored H i s"
| "apply_intent H (EjectSequencer i ejector) s = apply_eject_sequencer H i ejector s"
| "apply_intent H (DepositSequencerBond frm amount) s = apply_deposit_sequencer_bond H frm amount s"
| "apply_intent H (DepositSafetyBond frm amount) s = apply_deposit_safety_bond H frm amount s"
| "apply_intent H (DepositAuthorityStake frm i amount) s = apply_deposit_authority H frm i amount s"
| "apply_intent H (DepositValidatorStake frm i amount) s = apply_deposit_validator H frm i amount s"
| "apply_intent H (WithdrawAuthorityStake to i amount) s = apply_withdraw_authority H to i amount s"
| "apply_intent H (WithdrawValidatorStake to i amount) s = apply_withdraw_validator H to i amount s"
| "apply_intent H (DisburseTreasury recipient amount purpose_tag) s = apply_disburse_treasury H recipient amount s"
| "apply_intent H (ClaimInsurance claimant amount claim_reference) s = apply_claim_insurance H claimant amount s"
| "apply_intent H (PostL2DA batch_id da_blob) s = Ok s"
| "apply_intent H (DistributeSlashedFunds event counterparties ins tre) s =
     apply_distribute_slashed H counterparties ins tre s"
| "apply_intent H (AddBridgeAsset chain contract decimals name symbol) s =
     apply_add_asset H chain contract decimals name symbol s"
| "apply_intent H (PauseBridgeAsset i) s = apply_pause_asset H i s"
| "apply_intent H (RemoveBridgeAsset i) s = apply_remove_asset H i s"

definition pin_l2_verifying_key_for_chain :: "hasher \<Rightarrow> hash32 \<Rightarrow> hash32 \<Rightarrow> hash32 \<Rightarrow> InMemorySubstrate \<Rightarrow> result" where
  "pin_l2_verifying_key_for_chain H chain agg rng s = apply_intent H (SetL2VerifyingKey chain agg rng) s"

definition pin_l2_verifying_key :: "hasher \<Rightarrow> hash32 \<Rightarrow> hash32 \<Rightarrow> InMemorySubstrate \<Rightarrow> result" where
  "pin_l2_verifying_key H agg rng s = pin_l2_verifying_key_for_chain H 0 agg rng s"

text \<open>A sequence of intents, each applied to the state the previous one left, whatever its result:
  the loop of every caller that records failures and goes on.\<close>

fun run_intents :: "hasher \<Rightarrow> Intent list \<Rightarrow> InMemorySubstrate \<Rightarrow> InMemorySubstrate" where
  "run_intents H [] s = s"
| "run_intents H (i # is) s = run_intents H is (out_state (apply_intent H i s))"

section \<open>State root\<close>

definition balances_preimage :: "(address \<times> Balance) list \<Rightarrow> bytes" where
  "balances_preimage es = string_bytes ''SUWAPPU-BALANCES-V1'' @ concat (map (\<lambda>(a, b). be_bytes 20 a @ be_bytes 16 b) es)"

definition bytes_preimage :: "(address \<times> bytes) list \<Rightarrow> bytes" where
  "bytes_preimage es = string_bytes ''SUWAPPU-BYTES-STATE-V1'' @
     concat (map (\<lambda>(a, d). be_bytes 20 a @ be_bytes 4 (len_u32 d) @ d) es)"

definition compute_state_root_v2 :: "hasher \<Rightarrow> (address \<times> Balance) list \<Rightarrow> (address \<times> bytes) list \<Rightarrow> hash32" where
  "compute_state_root_v2 H bals bytes_entries =
     H (string_bytes ''SUWAPPU-STATE-ROOT-V2'' @ be_bytes 32 (H (balances_preimage bals)) @
        be_bytes 32 (H (bytes_preimage bytes_entries)))"

definition state_root :: "hasher \<Rightarrow> InMemorySubstrate \<Rightarrow> hash32" where
  "state_root H s = compute_state_root_v2 H (bt_entries (balances s)) (bt_entries (bytes_state s))"

end
