(* ===== verification/Substrate_Ledger.thy ===== *)
theory Substrate_Ledger
  imports Substrate
begin

text \<open>
  The ledger side of the substrate: conservation of supply, which accounts an intent may debit, which
  registries it may write, and when a failed intent leaves the state unchanged.

  Three relations carry the proofs through the arms of \<open>apply_intent\<close>.  \<open>confined D W s t\<close>: between \<open>s\<close>
  and \<open>t\<close> only accounts of \<open>D\<close> lost coins and only registries of \<open>W\<close> changed.  \<open>supplies n s r\<close>: a
  successful outcome \<open>r\<close> changes the supply by \<open>n\<close>.  \<open>undone s r\<close>: a failed outcome \<open>r\<close> left the state
  as it was.  Each has one rule per primitive and per sequencing combinator, collected in
  \<open>confined_rules\<close>, \<open>supply_rules\<close> and \<open>undone_rules\<close>.
\<close>

section \<open>Effects of the primitives\<close>

definition confined :: "address set \<Rightarrow> address set \<Rightarrow> InMemorySubstrate \<Rightarrow> InMemorySubstrate \<Rightarrow> bool" where
  "confined D W s t \<longleftrightarrow>
     (\<forall>a. a \<notin> D \<longrightarrow> balance s a \<le> balance t a) \<and> (\<forall>a. a \<notin> W \<longrightarrow> read_bytes t a = read_bytes s a) \<and>
     current_block_height t = current_block_height s"

definition supplies :: "int \<Rightarrow> InMemorySubstrate \<Rightarrow> result \<Rightarrow> bool" where
  "supplies n s r \<longleftrightarrow> (\<forall>t. r = Ok t \<longrightarrow> int (coin_supply t) = int (coin_supply s) + n)"

definition undone :: "InMemorySubstrate \<Rightarrow> result \<Rightarrow> bool" where
  "undone s r \<longleftrightarrow> (\<forall>e t. r = Err e t \<longrightarrow> t = s)"

definition succeeds :: "result \<Rightarrow> bool" where
  "succeeds r \<longleftrightarrow> (\<exists>t. r = Ok t)"

text \<open>The coins an intent creates.\<close>

fun minted :: "Intent \<Rightarrow> nat" where
  "minted (GenesisAllocation allocations) = sum_list (map (unat \<circ> snd) allocations)"
| "minted (MintInflation epoch a v t) = unat a + unat v + unat t"
| "minted (DistributeSlashedFunds event counterparties ins tre) =
     sum_list (map (unat \<circ> snd) counterparties) + unat ins + unat tre"
| "minted _ = 0"

text \<open>The accounts an intent may debit and the registries it may write.\<close>

fun debits :: "hasher \<Rightarrow> Intent \<Rightarrow> address set" where
  "debits H (Transfer frm to amount) = (if is_reserved H frm then {} else {frm})"
| "debits H (DistributeRewards epoch AuthorityRing recipients) = {authority_rewards_pool_address H}"
| "debits H (DistributeRewards epoch ValidatorRing recipients) = {validator_rewards_pool_address H}"
| "debits H (Delegate frm i amount) = (if is_reserved H frm then {} else {frm})"
| "debits H (EjectAuthority i proof_ref) = {authority_stake_pool_address H}"
| "debits H (EjectValidator i proof_ref) = {validator_stake_pool_address H}"
| "debits H (L1Lock user_address l2_recipient amount asset) = {user_address}"
| "debits H (L2BurnProven batch_id recipient amount merkle_path asset chain) = {bridge_escrow_address H}"
| "debits H (SlashSequencer MissedForceInclude intent_hash) = {sequencer_bond_address H, treasury_address H}"
| "debits H (SlashSequencer EquivocationSlash intent_hash) = {safety_bond_address H}"
| "debits H (SlashSequencer InvalidBatchSlash intent_hash) = {safety_bond_address H}"
| "debits H (EjectSequencer i ejector) = {treasury_address H}"
| "debits H (DepositSequencerBond frm amount) = (if is_reserved H frm then {} else {frm})"
| "debits H (DepositSafetyBond frm amount) = (if is_reserved H frm then {} else {frm})"
| "debits H (DepositAuthorityStake frm i amount) = (if is_reserved H frm then {} else {frm})"
| "debits H (DepositValidatorStake frm i amount) = (if is_reserved H frm then {} else {frm})"
| "debits H (WithdrawAuthorityStake to i amount) = {authority_stake_pool_address H}"
| "debits H (WithdrawValidatorStake to i amount) = {validator_stake_pool_address H}"
| "debits H (DisburseTreasury recipient amount purpose_tag) = {treasury_address H}"
| "debits H (ClaimInsurance claimant amount claim_reference) = {insurance_pool_address H}"
| "debits H _ = {}"

fun writes :: "hasher \<Rightarrow> Intent \<Rightarrow> address set" where
  "writes H (DistributeRewards epoch ring recipients) = {rewards_distribution_registry_address H}"
| "writes H (Delegate frm i amount) = {validator_delegation_registry_address H}"
| "writes H (MintInflation epoch a v t) = {inflation_registry_address H}"
| "writes H (AdmitAuthority i stake mldsa_pk bls_pk) = {authority_registry_address H}"
| "writes H (ExitAuthority i) = {authority_registry_address H}"
| "writes H (EjectAuthority i proof_ref) = {authority_registry_address H}"
| "writes H (AdmitValidator i stake mldsa_pk bls_pk) = {validator_registry_address H}"
| "writes H (ExitValidator i) = {validator_registry_address H}"
| "writes H (EjectValidator i proof_ref) = {validator_registry_address H}"
| "writes H (CommitL2StateRoot batch_id root pb pub vk_hash) = {l2_registry_address H}"
| "writes H (SetL2VerifyingKey chain agg rng) = {l2_registry_address H}"
| "writes H (L2BurnProven batch_id recipient amount merkle_path asset chain) = {burn_nullifier_registry_address H}"
| "writes H (L2ForceInclude tx deadline submitter l2_nonce) = {force_include_registry_address H}"
| "writes H (SlashSequencer MissedForceInclude intent_hash) = {force_include_registry_address H}"
| "writes H (SlashSequencer EquivocationSlash intent_hash) = {equivocation_registry_address H}"
| "writes H (SlashSequencer InvalidBatchSlash intent_hash) = {equivocation_registry_address H}"
| "writes H (MarkForceIncludeHonored i) = {force_include_registry_address H}"
| "writes H (EjectSequencer i ejector) = {ejection_registry_address H}"
| "writes H (DepositAuthorityStake frm i amount) = {authority_registry_address H}"
| "writes H (DepositValidatorStake frm i amount) = {validator_registry_address H}"
| "writes H (WithdrawAuthorityStake to i amount) = {authority_registry_address H}"
| "writes H (WithdrawValidatorStake to i amount) = {validator_registry_address H}"
| "writes H (AddBridgeAsset chain contract decimals name symbol) = {asset_registry_address H}"
| "writes H (PauseBridgeAsset i) = {asset_registry_address H}"
| "writes H (RemoveBridgeAsset i) = {asset_registry_address H}"
| "writes H _ = {}"

named_theorems confined_rules \<open>introduction rules of \<open>confined\<close>\<close>
named_theorems supply_rules \<open>introduction rules of \<open>supplies\<close>\<close>
named_theorems undone_rules \<open>introduction rules of \<open>undone\<close>\<close>

lemma balance_le_supply: "unat (balance s a) \<le> coin_supply s"
  using bt_sum_ge [of unat "balances s" a]
  by (cases "bt_get (balances s) a") (simp_all add: balance_def coin_supply_def)

lemma balance_insert:
  "balance (s\<lparr>balances := bt_insert a v (balances s)\<rparr>) b = (if b = a then v else balance s b)"
  by (simp add: balance_def bt.get_insert)

lemma balance_put:
  "balance (s\<lparr>balances := put_balance a v (balances s)\<rparr>) b = (if b = a then v else balance s b)"
  by (simp add: balance_def get_put_balance)

lemma opt_weight_balance: "opt_weight unat (bt_get (balances s) a) = unat (balance s a)"
  by (cases "bt_get (balances s) a") (simp_all add: balance_def)

lemma supply_insert:
  "coin_supply (s\<lparr>balances := bt_insert a v (balances s)\<rparr>) + unat (balance s a) = coin_supply s + unat v"
  using bt_sum_insert [of unat a v "balances s"] by (simp add: coin_supply_def opt_weight_balance)

lemma supply_put:
  "coin_supply (s\<lparr>balances := put_balance a v (balances s)\<rparr>) + unat (balance s a) = coin_supply s + unat v"
  using supply_insert [of a v s] bt_sum_remove [of unat a "balances s"]
  by (auto simp: coin_supply_def put_balance_def opt_weight_balance)

lemma credit_OkD:
  assumes "credit_unchecked a amt s = Ok t"
  shows "unat (balance t b) = unat (balance s b) + (if b = a then unat amt else 0)"
    and "coin_supply t = coin_supply s + unat amt"
    and "bytes_state t = bytes_state s" and "current_block_height t = current_block_height s"
proof -
  show "unat (balance t b) = unat (balance s b) + (if b = a then unat amt else 0)"
    using assms by (auto simp: credit_unchecked_def outcome_simps balance_insert checked_add_SomeD split: if_splits)
  show "coin_supply t = coin_supply s + unat amt"
  proof (cases "amt = 0")
    case False
    then obtain n where "checked_add (balance s a) amt = Some n" "t = s\<lparr>balances := bt_insert a n (balances s)\<rparr>"
      using assms by (auto simp: credit_unchecked_def outcome_simps)
    then show ?thesis
      using supply_insert [of a n s] by (simp add: checked_add_SomeD)
  qed (use assms in \<open>simp add: credit_unchecked_def\<close>)
qed (use assms in \<open>auto simp: credit_unchecked_def outcome_simps split: if_splits\<close>)

lemma credit_ErrD: "credit_unchecked a amt s = Err e t \<Longrightarrow> t = s"
  by (auto simp: credit_unchecked_def outcome_simps split: if_splits)

lemma debit_OkD:
  assumes "debit_unchecked a amt s = Ok t"
  shows "unat (balance t b) + (if b = a then unat amt else 0) = unat (balance s b)"
    and "coin_supply t + unat amt = coin_supply s" and "amt \<le> balance s a"
    and "bytes_state t = bytes_state s" and "current_block_height t = current_block_height s"
proof -
  have le: "amt \<le> balance s a" if "debit_unchecked a amt s = Ok t"
    using that by (auto simp: debit_unchecked_def Let_def split: if_splits)
  show "amt \<le> balance s a"
    using le [OF assms] .
  show "unat (balance t b) + (if b = a then unat amt else 0) = unat (balance s b)"
    using assms le by (auto simp: debit_unchecked_def Let_def balance_put unat_minus_le unat_le_iff split: if_splits)
  show "coin_supply t + unat amt = coin_supply s"
    using assms le supply_put [of a "balance s a - amt" s]
    by (auto simp: debit_unchecked_def Let_def unat_minus_le unat_le_iff split: if_splits)
qed (use assms in \<open>auto simp: debit_unchecked_def Let_def split: if_splits\<close>)

lemma debit_ErrD: "debit_unchecked a amt s = Err e t \<Longrightarrow> t = s \<and> balance s a < amt"
  by (auto simp: debit_unchecked_def Let_def split: if_splits)

lemma credit_succeeds:
  assumes "coin_supply s + unat amt < 2 ^ 128"
  obtains t where "credit_unchecked a amt s = Ok t"
proof -
  have "unat (balance s a) + unat amt < 2 ^ 128"
    using balance_le_supply [of s a] assms by simp
  then have "\<exists>t. credit_unchecked a amt s = Ok t"
    by (simp add: credit_unchecked_def checked_add_eq)
  then show ?thesis
    using that by blast
qed

section \<open>Confinement\<close>

lemma confined_refl [confined_rules]: "confined D W s s"
  by (simp add: confined_def)

lemma confined_trans: "confined D W s t \<Longrightarrow> confined D W t u \<Longrightarrow> confined D W s u"
  by (auto simp: confined_def intro: order_trans)

lemma confined_credit [confined_rules]: "confined D W s (out_state (credit_unchecked a amt s))"
proof (cases "credit_unchecked a amt s")
  case (Ok t)
  then show ?thesis
    using credit_OkD [OF Ok] Ok by (auto simp: confined_def read_bytes_def unat_le_iff)
qed (auto dest: credit_ErrD intro: confined_refl)

lemma confined_debit [confined_rules]: "a \<in> D \<Longrightarrow> confined D W s (out_state (debit_unchecked a amt s))"
proof (cases "debit_unchecked a amt s")
  case (Ok t)
  have "balance t b = balance s b" if "b \<noteq> a" for b
    using debit_OkD(1) [OF Ok, of b] that by (simp add: word_unat_eq_iff)
  moreover assume "a \<in> D"
  ultimately have "balance s b \<le> balance t b" if "b \<notin> D" for b
    using that by (cases "b = a") simp_all
  then show ?thesis
    using debit_OkD(4,5) [OF Ok] Ok by (simp add: confined_def read_bytes_def)
qed (auto dest: debit_ErrD intro: confined_refl)

lemma confined_write: "a \<in> W \<Longrightarrow> confined D W s (write_bytes_unchecked a bs s)"
  by (auto simp: confined_def read_bytes_write)

lemma confined_write_Ok [confined_rules]: "a \<in> W \<Longrightarrow> confined D W s (out_state (Ok (write_bytes_unchecked a bs s)))"
  by (simp add: confined_write)

lemma confined_Ok [confined_rules]: "confined D W s (out_state (Ok s))"
  by (simp add: confined_refl)

lemma confined_Err [confined_rules]: "confined D W s (out_state (Err e s))"
  by (simp add: confined_refl)

lemma confined_and_then [confined_rules]:
  "confined D W s (out_state m) \<Longrightarrow> (\<And>t. confined D W t (out_state (k t))) \<Longrightarrow>
   confined D W s (out_state (and_then m k))"
  by (cases m) (auto intro: confined_trans)

lemma confined_try [confined_rules]:
  "(\<And>a. r = Inr a \<Longrightarrow> confined D W s (out_state (k a))) \<Longrightarrow> confined D W s (out_state (try_value r s k))"
  by (cases r) (auto intro: confined_refl)

lemma confined_if [confined_rules]:
  "(b \<Longrightarrow> confined D W s (out_state m)) \<Longrightarrow> (\<not> b \<Longrightarrow> confined D W s (out_state n)) \<Longrightarrow>
   confined D W s (out_state (if b then m else n))"
  by simp

lemma confined_rollback [confined_rules]: "confined D W s (out_state m) \<Longrightarrow> confined D W s (out_state (rollback m s))"
  by (cases m) (auto intro: confined_refl)

lemma confined_credit_all [confined_rules]: "confined D W s (out_state (credit_all cs s))"
proof (induction cs arbitrary: s)
  case (Cons c cs)
  obtain a amt where "c = (a, amt)" by fastforce
  then show ?case
    using Cons.IH by (auto intro!: confined_rules)
qed (simp add: confined_refl)

lemma confined_atomic [confined_rules]:
  "confined D W s (out_state (credit_many_atomic cs s))"
  "a \<in> D \<Longrightarrow> confined D W s (out_state (drain_and_credit_atomic a cs s))"
  "a \<in> D \<Longrightarrow> confined D W s (out_state (transfer_internal a b amt s))"
  unfolding credit_many_rollback drain_and_credit_rollback transfer_internal_rollback
  by (intro confined_rules; simp)+

lemma confined_write_debit [confined_rules]:
  "a \<in> W \<Longrightarrow> b \<in> D \<Longrightarrow> confined D W s (out_state (debit_unchecked b amt (write_bytes_unchecked a bs s)))"
  by (rule confined_trans [OF confined_write confined_debit])

text \<open>\<open>Transfer\<close> is \<open>transfer_internal\<close> behind the reserved-address gate, with its own overflow error.\<close>

fun balance_error :: "ExecutionError \<Rightarrow> ExecutionError" where
  "balance_error (DistributionOverflow a) = BalanceOverflow a"
| "balance_error e = e"

lemma apply_transfer_eq:
  "apply_transfer H frm to amount s =
     (if is_reserved H frm then Err (ReservedAddressTransferDenied frm) s
      else if is_reserved H to then Err (ReservedAddressTransferDenied to) s
      else case transfer_internal frm to amount s of Ok t \<Rightarrow> Ok t | Err e t \<Rightarrow> Err (balance_error e) t)"
  by (cases "checked_add (balance s to) amount") (simp_all add: apply_transfer_def transfer_internal_def Let_def)

lemma confined_map_error [confined_rules]:
  "confined D W s (out_state m) \<Longrightarrow>
   confined D W s (out_state (case m of Ok t \<Rightarrow> Ok t | Err e t \<Rightarrow> Err (f e) t))"
  by (cases m) simp_all

lemmas ring_arms = apply_admit_authority_def apply_exit_authority_def apply_eject_authority_def
  apply_admit_validator_def apply_exit_validator_def apply_eject_validator_def
  apply_deposit_authority_def apply_deposit_validator_def apply_withdraw_authority_def apply_withdraw_validator_def
  apply_delegate_def drain_slot_def

lemmas fund_arms = apply_transfer_eq apply_genesis_def apply_mint_def apply_rewards_def
  apply_deposit_sequencer_bond_def apply_deposit_safety_bond_def apply_disburse_treasury_def apply_claim_insurance_def
  apply_distribute_slashed_def apply_l1_lock_def

lemmas l2_arms = apply_commit_l2_def apply_set_vk_def apply_force_include_def
  apply_mark_honored_def apply_add_asset_def apply_pause_asset_def apply_remove_asset_def set_asset_status_def

lemma confined_split_slash [confined_rules]: "confined D W s (out_state (split_slash H amt s))"
  unfolding split_slash_def Let_def by (intro confined_rules)

lemma confined_pay_bounty [confined_rules]:
  "treasury_address H \<in> D \<Longrightarrow> confined D W s (out_state (pay_bounty H bounty a s))"
  unfolding pay_bounty_def Let_def by (intro confined_rules)

lemma confined_write_bounty [confined_rules]:
  "a \<in> W \<Longrightarrow> treasury_address H \<in> D \<Longrightarrow>
   confined D W s (out_state (pay_bounty H bounty b (write_bytes_unchecked a bs s)))"
  by (rule confined_trans [OF confined_write confined_pay_bounty])

lemma confined_option [confined_rules]:
  "(x = None \<Longrightarrow> confined D W s (out_state m)) \<Longrightarrow> (\<And>a. x = Some a \<Longrightarrow> confined D W s (out_state (k a))) \<Longrightarrow>
   confined D W s (out_state (case x of None \<Rightarrow> m | Some a \<Rightarrow> k a))"
  by (cases x) simp_all

lemma confined_sum [confined_rules]:
  "(\<And>a. x = Inl a \<Longrightarrow> confined D W s (out_state (f a))) \<Longrightarrow> (\<And>a. x = Inr a \<Longrightarrow> confined D W s (out_state (k a))) \<Longrightarrow>
   confined D W s (out_state (case x of Inl a \<Rightarrow> f a | Inr a \<Rightarrow> k a))"
  by (cases x) simp_all

lemma confined_pair [confined_rules]:
  "(\<And>a b. confined D W s (out_state (f a b))) \<Longrightarrow> confined D W s (out_state (case x of (a, b) \<Rightarrow> f a b))"
  by (cases x) simp

lemma apply_intent_confined: "confined (debits H i) (writes H i) s (out_state (apply_intent H i s))"
proof (cases i)
  case (DistributeRewards epoch ring recipients)
  then show ?thesis
    by (cases ring; simp only: apply_intent.simps fund_arms Let_def; intro confined_rules; simp)
next
  case (SlashSequencer reason h)
  then show ?thesis
    by (cases reason; simp only: apply_intent.simps apply_slash.simps apply_slash_missed_def apply_slash_offense_def Let_def;
        intro confined_rules; simp)
qed (simp only: apply_intent.simps ring_arms fund_arms l2_arms apply_l2_burn_def apply_eject_sequencer_def Let_def,
     intro confined_rules; simp)+

section \<open>Supply\<close>

lemma supplies_Ok [supply_rules]: "supplies 0 s (Ok s)"
  by (simp add: supplies_def)

lemma supplies_write [supply_rules]: "supplies 0 s (Ok (write_bytes_unchecked a bs s))"
  by (simp add: supplies_def)

lemma supplies_Err [supply_rules]: "supplies n s (Err e t)"
  by (simp add: supplies_def)

lemma supplies_credit: "supplies (int (unat amt)) s (credit_unchecked a amt s)"
  by (auto simp: supplies_def dest: credit_OkD(2))

lemma supplies_debit: "supplies (- int (unat amt)) s (debit_unchecked a amt s)"
  unfolding supplies_def
proof (intro allI impI)
  fix t
  assume "debit_unchecked a amt s = Ok t"
  from debit_OkD(2) [OF this] show "int (coin_supply t) = int (coin_supply s) + - int (unat amt)"
    by linarith
qed

lemma supplies_and_then:
  "supplies m s r \<Longrightarrow> (\<And>t. supplies n t (k t)) \<Longrightarrow> m + n = l \<Longrightarrow> supplies l s (and_then r k)"
  by (cases r) (auto simp: supplies_def)

lemma supplies_then:
  "supplies 0 s r \<Longrightarrow> (\<And>t. supplies 0 t (k t)) \<Longrightarrow> supplies 0 s (and_then r k)"
  using supplies_and_then [of 0 s r 0 k 0] by simp

lemma supplies_then_write [supply_rules]:
  "supplies n s r \<Longrightarrow> supplies n s (and_then r (\<lambda>t. Ok (write_bytes_unchecked a bs t)))"
  by (rule supplies_and_then [OF _ supplies_write]) simp_all

lemma supplies_try [supply_rules]:
  "(\<And>a. r = Inr a \<Longrightarrow> supplies n s (k a)) \<Longrightarrow> supplies n s (try_value r t k)"
  by (cases r) (auto simp: supplies_def)

lemma supplies_if [supply_rules]:
  "(b \<Longrightarrow> supplies n s x) \<Longrightarrow> (\<not> b \<Longrightarrow> supplies n s y) \<Longrightarrow> supplies n s (if b then x else y)"
  by simp

lemma supplies_option [supply_rules]:
  "(x = None \<Longrightarrow> supplies n s r) \<Longrightarrow> (\<And>a. x = Some a \<Longrightarrow> supplies n s (k a)) \<Longrightarrow>
   supplies n s (case x of None \<Rightarrow> r | Some a \<Rightarrow> k a)"
  by (cases x) simp_all

lemma supplies_sum [supply_rules]:
  "(\<And>a. x = Inl a \<Longrightarrow> supplies n s (f a)) \<Longrightarrow> (\<And>a. x = Inr a \<Longrightarrow> supplies n s (k a)) \<Longrightarrow>
   supplies n s (case x of Inl a \<Rightarrow> f a | Inr a \<Rightarrow> k a)"
  by (cases x) simp_all

lemma supplies_pair [supply_rules]:
  "(\<And>a b. supplies n s (f a b)) \<Longrightarrow> supplies n s (case x of (a, b) \<Rightarrow> f a b)"
  by (cases x) simp

lemma supplies_rollback [supply_rules]: "supplies n s m \<Longrightarrow> supplies n s (rollback m t)"
  by (cases m) (simp_all add: supplies_def)

lemma supplies_map_error [supply_rules]:
  "supplies n s m \<Longrightarrow> supplies n s (case m of Ok t \<Rightarrow> Ok t | Err e t \<Rightarrow> Err (f e) t)"
  by (cases m) (simp_all add: supplies_def)

lemma supplies_move [supply_rules]: "supplies 0 s (and_then (debit_unchecked a amt s) (credit_unchecked b amt))"
  by (rule supplies_and_then [OF supplies_debit supplies_credit]) simp

lemma supplies_credit_all: "supplies (int (sum_list (map (unat \<circ> snd) cs))) s (credit_all cs s)"
proof (induction cs arbitrary: s)
  case (Cons c cs)
  obtain a amt where "c = (a, amt)" by fastforce
  then show ?case
    by (simp, intro supplies_and_then [OF supplies_credit Cons.IH]) simp
qed (simp add: supplies_def)

lemma supplies_credit_many: "supplies (int (sum_list (map (unat \<circ> snd) cs))) s (credit_many_atomic cs s)"
  unfolding credit_many_rollback by (intro supplies_rollback supplies_credit_all)

lemma supplies_transfer [supply_rules]: "supplies 0 s (transfer_internal a b amt s)"
  unfolding transfer_internal_rollback by (intro supply_rules)

lemma supplies_drain [supply_rules]: "supplies 0 s (drain_and_credit_atomic a cs s)"
proof (cases "sum_credits a 0 cs")
  case (Inr tot)
  have "supplies 0 s (and_then (debit_unchecked a tot s) (credit_all cs))"
    using sum_credits_unat [OF Inr] by (intro supplies_and_then [OF supplies_debit supplies_credit_all]) simp
  then show ?thesis
    by (simp add: drain_and_credit_rollback Inr supplies_rollback)
qed (simp add: drain_and_credit_rollback supplies_def)

lemma supplies_after_write:
  "supplies n (write_bytes_unchecked a bs s) r \<Longrightarrow> supplies n s r"
  by (simp add: supplies_def)

lemma word_scale_le:
  fixes x :: "'a::len word"
  assumes "unat k \<le> unat n" "0 < unat n"
  shows "x * k div n \<le> x"
proof -
  have "unat (x * k) \<le> unat x * unat k"
    by (simp add: unat_word_ariths)
  also have "\<dots> \<le> unat x * unat n"
    using assms(1) by simp
  finally have "unat (x * k) div unat n \<le> unat x * unat n div unat n"
    by (rule div_le_mono)
  then show ?thesis
    using assms(2) by (simp add: unat_le_iff unat_div)
qed

lemma insurance_share_le: "(x :: Balance) * 70 div 100 \<le> x"
  by (rule word_scale_le) simp_all

lemma liveness_slash_le: "liveness_slash_amount x \<le> x"
  unfolding liveness_slash_amount_def LIVENESS_SLASH_BPS_def by (rule word_scale_le) simp_all

lemma supplies_split_slash: "supplies (int (unat amt)) s (split_slash H amt s)"
proof -
  have "unat (amt - amt * 70 div 100) + unat (amt * 70 div 100) = unat amt"
    using insurance_share_le [of amt] by (simp add: unat_minus_le unat_le_iff)
  then show ?thesis
    unfolding split_slash_def Let_def
    by (intro supplies_and_then [OF supplies_credit supplies_credit]) linarith
qed

lemma supplies_slash [supply_rules]: "supplies 0 s (and_then (debit_unchecked a amt s) (split_slash H amt))"
  by (rule supplies_and_then [OF supplies_debit supplies_split_slash]) simp

lemma supplies_bounty [supply_rules]: "supplies 0 s (pay_bounty H bounty a s)"
  unfolding pay_bounty_def Let_def by (intro supply_rules)

lemma and_then_assoc: "and_then m (\<lambda>x. and_then (f x) g) = and_then (and_then m f) g"
  by (cases m) simp_all

lemma supplies_written [supply_rules]:
  fixes s a bs
  defines "w \<equiv> write_bytes_unchecked a bs s"
  shows "supplies 0 s (and_then (debit_unchecked b amt w) (credit_unchecked c amt))"
    and "supplies 0 s (and_then (debit_unchecked b amt w) (split_slash H amt))"
    and "supplies 0 s (pay_bounty H bounty c w)"
  unfolding w_def by (rule supplies_after_write, rule supply_rules)+

lemma supplies_slash_missed [supply_rules]: "supplies 0 s (apply_slash_missed H h s)"
  unfolding apply_slash_missed_def Let_def and_then_assoc
  by (intro supplies_try supplies_if supplies_Err supplies_write supplies_then [OF supplies_written(2)]
      supplies_bounty supplies_Ok)

lemma supplies_slash_offense [supply_rules]: "supplies 0 s (apply_slash_offense H kind h s)"
  unfolding apply_slash_offense_def Let_def by (intro supply_rules)

lemma supplies_burn [supply_rules]: "supplies 0 s (apply_l2_burn H b r amt p asset c s)"
  unfolding apply_l2_burn_def Let_def by (intro supply_rules)

lemma supplies_eject_sequencer [supply_rules]: "supplies 0 s (apply_eject_sequencer H i a s)"
  unfolding apply_eject_sequencer_def Let_def by (intro supply_rules)

lemma supplies_mint: "supplies (int (unat a + unat v + unat t)) s (apply_mint H epoch a v t s)"
  unfolding apply_mint_def Let_def
  by (intro supplies_try supplies_if supplies_Err supplies_and_then [OF supplies_credit_many supplies_write]) simp

lemma supplies_distribute:
  "supplies (int (sum_list (map (unat \<circ> snd) cs) + unat ins + unat tre)) s (apply_distribute_slashed H cs ins tre s)"
  unfolding apply_distribute_slashed_def
  by (intro supplies_option supplies_pair supplies_Err
      supplies_and_then [OF supplies_credit_all supplies_and_then [OF supplies_credit supplies_credit refl]]) simp

lemma apply_intent_supply: "supplies (int (minted i)) s (apply_intent H i s)"
proof (cases i)
  case (GenesisAllocation cs)
  then show ?thesis
    by (auto simp: apply_genesis_def supplies_Err intro: supplies_credit_many)
next
  case (MintInflation epoch a v t)
  then show ?thesis
    using supplies_mint [of a v t s H epoch] by simp
next
  case (DistributeSlashedFunds event cs ins tre)
  then show ?thesis
    using supplies_distribute [of cs ins tre s H] by simp
next
  case (SlashSequencer reason h)
  then show ?thesis
    by (cases reason) (simp_all add: supply_rules)
qed (simp only: apply_intent.simps minted.simps int_ops(1) ring_arms fund_arms l2_arms Let_def, intro supply_rules)+

section \<open>Failed intents\<close>

lemma undone_Ok [undone_rules]: "undone s (Ok t)"
  by (simp add: undone_def)

lemma undone_Err [undone_rules]: "undone s (Err e s)"
  by (simp add: undone_def)

lemma undone_debit [undone_rules]: "undone s (debit_unchecked a amt s)"
  by (auto simp: undone_def dest: debit_ErrD)

lemma undone_try [undone_rules]: "(\<And>a. r = Inr a \<Longrightarrow> undone s (k a)) \<Longrightarrow> undone s (try_value r s k)"
  by (cases r) (auto simp: undone_def)

lemma undone_if [undone_rules]: "(b \<Longrightarrow> undone s x) \<Longrightarrow> (\<not> b \<Longrightarrow> undone s y) \<Longrightarrow> undone s (if b then x else y)"
  by simp

lemma undone_option [undone_rules]:
  "(x = None \<Longrightarrow> undone s r) \<Longrightarrow> (\<And>a. x = Some a \<Longrightarrow> undone s (k a)) \<Longrightarrow>
   undone s (case x of None \<Rightarrow> r | Some a \<Rightarrow> k a)"
  by (cases x) simp_all

lemma undone_sum [undone_rules]:
  "(\<And>a. x = Inl a \<Longrightarrow> undone s (f a)) \<Longrightarrow> (\<And>a. x = Inr a \<Longrightarrow> undone s (k a)) \<Longrightarrow>
   undone s (case x of Inl a \<Rightarrow> f a | Inr a \<Rightarrow> k a)"
  by (cases x) simp_all

lemma undone_pair [undone_rules]: "(\<And>a b. undone s (f a b)) \<Longrightarrow> undone s (case x of (a, b) \<Rightarrow> f a b)"
  by (cases x) simp

lemma undone_map_error [undone_rules]:
  "undone s m \<Longrightarrow> undone s (case m of Ok t \<Rightarrow> Ok t | Err e t \<Rightarrow> Err (f e) t)"
  by (cases m) (simp_all add: undone_def)

lemma undone_rollback [undone_rules]: "undone s (rollback m s)"
  by (cases m) (simp_all add: undone_def)

lemma undone_atomic [undone_rules]:
  "undone s (credit_many_atomic cs s)" "undone s (drain_and_credit_atomic a cs s)"
  "undone s (transfer_internal a b amt s)"
  unfolding credit_many_rollback drain_and_credit_rollback transfer_internal_rollback by (intro undone_rules)+

lemma undone_then: "undone s r \<Longrightarrow> (\<And>t. r = Ok t \<Longrightarrow> succeeds (k t)) \<Longrightarrow> undone s (and_then r k)"
  by (cases r) (auto simp: undone_def succeeds_def)

lemma undone_then_write [undone_rules]: "undone s r \<Longrightarrow> undone s (and_then r (\<lambda>t. Ok (write_bytes_unchecked a bs t)))"
  by (rule undone_then) (simp_all add: succeeds_def)

lemma undone_succeeds: "succeeds r \<Longrightarrow> undone s r"
  by (auto simp: succeeds_def undone_def)

lemma succeeds_then: "succeeds r \<Longrightarrow> (\<And>t. r = Ok t \<Longrightarrow> succeeds (k t)) \<Longrightarrow> succeeds (and_then r k)"
  by (auto simp: succeeds_def)

lemma succeeds_credit: "coin_supply s + unat amt < 2 ^ 128 \<Longrightarrow> succeeds (credit_unchecked a amt s)"
  unfolding succeeds_def by (rule credit_succeeds) auto

lemma succeeds_debit: "amt \<le> balance s a \<Longrightarrow> succeeds (debit_unchecked a amt s)"
  by (auto simp: succeeds_def debit_unchecked_def Let_def)

lemma succeeds_credit_all:
  "coin_supply s + sum_list (map (unat \<circ> snd) cs) < 2 ^ 128 \<Longrightarrow> succeeds (credit_all cs s)"
proof (induction cs arbitrary: s)
  case (Cons c cs)
  obtain a amt where c: "c = (a, amt)" by fastforce
  show ?case
    unfolding c credit_all.simps
  proof (rule succeeds_then)
    show "succeeds (credit_unchecked a amt s)"
      using Cons.prems by (intro succeeds_credit) (simp add: c)
    show "succeeds (credit_all cs t)" if "credit_unchecked a amt s = Ok t" for t
      using Cons.prems credit_OkD(2) [OF that] by (intro Cons.IH) (simp add: c)
  qed
qed (simp add: succeeds_def)

lemma undone_move:
  assumes "coin_supply s < 2 ^ 128"
  shows "undone s (and_then (debit_unchecked a amt s) (credit_unchecked b amt))"
proof (rule undone_then [OF undone_debit])
  fix t
  assume "debit_unchecked a amt s = Ok t"
  from debit_OkD(2) [OF this] assms show "succeeds (credit_unchecked b amt t)"
    by (intro succeeds_credit) simp
qed

lemma succeeds_split:
  assumes "coin_supply s + unat amt < 2 ^ 128"
  shows "succeeds (split_slash H amt s)"
proof -
  have le: "unat (amt * 70 div 100) \<le> unat amt"
    "unat (amt - amt * 70 div 100) = unat amt - unat (amt * 70 div 100)"
    using insurance_share_le [of amt] by (simp_all add: unat_minus_le unat_le_iff)
  show ?thesis
    unfolding split_slash_def Let_def
  proof (rule succeeds_then)
    show "succeeds (credit_unchecked (insurance_pool_address H) (amt * 70 div 100) s)"
      using assms le by (intro succeeds_credit) simp
  next
    fix t
    assume "credit_unchecked (insurance_pool_address H) (amt * 70 div 100) s = Ok t"
    from credit_OkD(2) [OF this] show "succeeds (credit_unchecked (treasury_address H) (amt - amt * 70 div 100) t)"
      using assms le by (intro succeeds_credit) simp
  qed
qed

lemma succeeds_move:
  assumes "coin_supply s < 2 ^ 128" "amt \<le> balance s a"
  shows "succeeds (and_then (debit_unchecked a amt s) (credit_unchecked b amt))"
proof (rule succeeds_then [OF succeeds_debit [OF assms(2)]])
  fix t
  assume "debit_unchecked a amt s = Ok t"
  from debit_OkD(2) [OF this] assms show "succeeds (credit_unchecked b amt t)"
    by (intro succeeds_credit) simp
qed

lemma succeeds_bounty: "coin_supply s < 2 ^ 128 \<Longrightarrow> succeeds (pay_bounty H bounty a s)"
  unfolding pay_bounty_def Let_def
  by (auto intro!: succeeds_move) (simp_all add: succeeds_def)

lemma succeeds_slash:
  assumes "coin_supply s < 2 ^ 128" "amt \<le> balance s a"
  shows "succeeds (and_then (debit_unchecked a amt s) (split_slash H amt))"
proof (rule succeeds_then [OF succeeds_debit [OF assms(2)]])
  fix t
  assume "debit_unchecked a amt s = Ok t"
  from debit_OkD(2) [OF this] assms show "succeeds (split_slash H amt t)"
    by (intro succeeds_split) simp
qed

lemma undone_slash_missed:
  assumes "coin_supply s < 2 ^ 128"
  shows "undone s (apply_slash_missed H h s)"
proof -
  have "succeeds (and_then (and_then (debit_unchecked a amt w) (split_slash H amt)) (\<lambda>u.
      if P then pay_bounty H bounty b u else Ok u))"
    if "coin_supply w = coin_supply s" "amt \<le> balance w a" for w a amt P bounty b
  proof (rule succeeds_then [OF succeeds_slash])
    fix u
    assume "and_then (debit_unchecked a amt w) (split_slash H amt) = Ok u"
    then have "coin_supply u = coin_supply s"
      using supplies_slash [of w a amt H] that(1) by (simp add: supplies_def)
    then show "succeeds (if P then pay_bounty H bounty b u else Ok u)"
      using assms succeeds_bounty [of u H bounty b] by (cases P) (simp_all add: succeeds_def)
  qed (use that assms in simp_all)
  then show ?thesis
    unfolding apply_slash_missed_def Let_def and_then_assoc
    by (intro undone_try undone_if undone_Ok undone_Err undone_succeeds) (simp_all add: liveness_slash_le)
qed

lemma undone_slash_offense: "coin_supply s < 2 ^ 128 \<Longrightarrow> undone s (apply_slash_offense H kind h s)"
  unfolding apply_slash_offense_def Let_def
  by (intro undone_try undone_option undone_if undone_Ok undone_Err undone_succeeds succeeds_slash) simp_all

lemma undone_eject_sequencer: "coin_supply s < 2 ^ 128 \<Longrightarrow> undone s (apply_eject_sequencer H i a s)"
  unfolding apply_eject_sequencer_def Let_def
  by (intro undone_try undone_if undone_Err undone_succeeds succeeds_bounty) simp_all

lemma undone_distribute:
  assumes "coin_supply s + (sum_list (map (unat \<circ> snd) cs) + unat ins + unat tre) < 2 ^ 128"
  shows "undone s (apply_distribute_slashed H cs ins tre s)"
  unfolding apply_distribute_slashed_def
proof (intro undone_option undone_pair undone_Err undone_succeeds succeeds_then)
  show "succeeds (credit_all cs s)"
    using assms by (intro succeeds_credit_all) simp
next
  fix t
  assume t: "credit_all cs s = Ok t"
  have sup: "coin_supply t = coin_supply s + sum_list (map (unat \<circ> snd) cs)"
    using supplies_credit_all [of cs s] t by (simp add: supplies_def flip: of_nat_add)
  show "succeeds (credit_unchecked (insurance_pool_address H) ins t)"
    using assms sup by (intro succeeds_credit) simp
  fix u
  assume "credit_unchecked (insurance_pool_address H) ins t = Ok u"
  from credit_OkD(2) [OF this] show "succeeds (credit_unchecked (treasury_address H) tre u)"
    using assms sup by (intro succeeds_credit) simp
qed

lemma apply_intent_undone:
  assumes bound: "coin_supply s + minted i < 2 ^ 128"
    and not_burn: "\<And>b r amt p asset c. i \<noteq> L2BurnProven b r amt p asset c"
  shows "undone s (apply_intent H i s)"
proof -
  have small: "coin_supply s < 2 ^ 128"
    using bound by simp
  show ?thesis
  proof (cases i)
    case (SlashSequencer reason h)
    then show ?thesis
      using small by (cases reason) (simp_all add: undone_slash_missed undone_slash_offense undone_Ok)
  next
    case (EjectSequencer j a)
    then show ?thesis
      using small by (simp add: undone_eject_sequencer)
  next
    case (DistributeSlashedFunds event cs ins tre)
    then show ?thesis
      using bound undone_distribute [of s cs ins tre H] by simp
  next
    case (L2BurnProven b r amt p asset c)
    with not_burn show ?thesis by blast
  qed (simp only: apply_intent.simps ring_arms fund_arms l2_arms Let_def, intro undone_rules undone_move small)+
qed

lemma burn_error:
  assumes "coin_supply s < 2 ^ 128" "apply_l2_burn H b r amt p asset c s = Err e t"
  shows "t = s \<or> balances t = balances s \<and> balance s (bridge_escrow_address H) < amt"
proof -
  have move: "t = w \<and> balance w a < amt"
    if "and_then (debit_unchecked a amt w) (credit_unchecked r amt) = Err e t" "coin_supply w = coin_supply s" for w a
    using that assms(1) undone_move [of w a amt r] succeeds_move [of w amt a r]
    by (auto simp: undone_def succeeds_def not_le [symmetric])
  show ?thesis
    using assms(2) unfolding apply_l2_burn_def Let_def
    by (auto simp: try_value_Err_iff split: if_splits dest!: move)
qed

end
