(* ===== verification/Substrate_Rings.thy ===== *)
theory Substrate_Rings
  imports Substrate_Ledger
begin

text \<open>
  The on-chain rings as state machines.  \<open>slot_move\<close> is the lifecycle of one slot (exit, eject,
  deposit, withdraw) and \<open>ring_step\<close> the evolution of a ring's registry (admit a new slot, or move one);
  both are inductive relations.  The locale \<open>slot_store\<close> is the contract between a ring registry's
  encoding and the intents that rewrite it, interpreted on the authority and on the validator
  encoding.  The main lemma says that every intent, successful or not, takes the decoded registry
  along one \<open>ring_step\<close>, so the invariants of the machines hold along every sequence of intents.
\<close>

section \<open>The lifecycle of a slot\<close>

inductive slot_move :: "'s \<Rightarrow> 's \<Rightarrow> 's \<Rightarrow> 's slot_record \<Rightarrow> 's slot_record \<Rightarrow> bool"
  for active exiting ejected where
  move_exit: "sr_status r = active \<Longrightarrow>
    slot_move active exiting ejected r (r\<lparr>sr_status := exiting, sr_exit_block_height := height\<rparr>)"
| move_eject: "slot_move active exiting ejected r (r\<lparr>sr_deposited_stake := 0, sr_status := ejected\<rparr>)"
| move_deposit: "sr_status r = active \<Longrightarrow> sr_deposited_stake r \<le> d \<Longrightarrow>
    slot_move active exiting ejected r (r\<lparr>sr_deposited_stake := d\<rparr>)"
| move_withdraw: "sr_status r = exiting \<Longrightarrow> d \<le> sr_deposited_stake r \<Longrightarrow>
    slot_move active exiting ejected r (r\<lparr>sr_deposited_stake := d\<rparr>)"

inductive ring_step ::
  "'s \<Rightarrow> 's \<Rightarrow> 's \<Rightarrow> (u32, 's slot_record) btmap \<Rightarrow> (u32, 's slot_record) btmap \<Rightarrow> bool"
  for active exiting ejected where
  ring_stay: "ring_step active exiting ejected m m"
| ring_admit: "bt_get m k = None \<Longrightarrow> slot_fits k r \<Longrightarrow> sr_status r = active \<Longrightarrow> sr_deposited_stake r = 0 \<Longrightarrow>
    ring_step active exiting ejected m (bt_insert k r m)"
| ring_move: "bt_get m k = Some r \<Longrightarrow> slot_move active exiting ejected r r' \<Longrightarrow>
    ring_step active exiting ejected m (bt_insert k r' m)"

abbreviation auth_ring_step where "auth_ring_step \<equiv> ring_step AuthActive AuthExiting AuthEjected"
abbreviation val_ring_step where "val_ring_step \<equiv> ring_step ValActive ValExiting ValEjected"

inductive_cases slot_moveE: "slot_move active exiting ejected r r'"
inductive_cases ring_stepE: "ring_step active exiting ejected m m'"

text \<open>What an outcome leaves at an address: the bytes that were there, or bytes satisfying \<open>P\<close>.\<close>

definition leaves :: "address \<Rightarrow> (bytes \<Rightarrow> bool) \<Rightarrow> InMemorySubstrate \<Rightarrow> result \<Rightarrow> bool" where
  "leaves a P s r \<longleftrightarrow> stored (out_state r) a = stored s a \<or> P (stored (out_state r) a)"

named_theorems leaves_rules \<open>introduction rules of \<open>leaves\<close>\<close>

lemma slot_move_keeps:
  assumes "slot_move active exiting ejected r r'"
  shows "sr_mldsa_public_key r' = sr_mldsa_public_key r \<and> sr_bls_public_key r' = sr_bls_public_key r \<and>
    sr_stake_suwappu r' = sr_stake_suwappu r"
  using assms by cases simp_all

lemma slot_move_fits: "slot_move active exiting ejected r r' \<Longrightarrow> slot_fits k r \<Longrightarrow> slot_fits k r'"
  using slot_move_keeps [of active exiting ejected r r'] by (simp add: slot_fits_def)

lemma ring_step_fits:
  assumes "ring_step active exiting ejected m m'" "bt_all slot_fits m"
  shows "bt_all slot_fits m'"
  using assms by cases (auto intro: bt_all_insert slot_move_fits dest: bt_all_get)

lemma ring_step_len:
  assumes "ring_step active exiting ejected m m'"
  shows "bt_len m' \<le> Suc (bt_len m)"
  using assms by cases (auto simp: bt_len_insert_le)

section \<open>What the primitives leave\<close>

lemma confined_stored: "confined D W s t \<Longrightarrow> a \<notin> W \<Longrightarrow> stored t a = stored s a"
  by (simp add: confined_def stored_def)

lemma stored_ledger [simp]:
  "stored (out_state (credit_unchecked b amt s)) a = stored s a"
  "stored (out_state (debit_unchecked b amt s)) a = stored s a"
  "stored (out_state (transfer_internal b c amt s)) a = stored s a"
  "stored (out_state (credit_many_atomic cs s)) a = stored s a"
  "stored (out_state (drain_and_credit_atomic b cs s)) a = stored s a"
  "stored (out_state (drain_slot H b d s)) a = stored s a"
  by (rule confined_stored [of UNIV "{}"], (simp only: drain_slot_def Let_def)?, intro confined_rules; simp)+

lemma leaves_Ok [leaves_rules]: "leaves a P s (Ok s)"
  by (simp add: leaves_def)

lemma leaves_Err [leaves_rules]: "leaves a P s (Err e s)"
  by (simp add: leaves_def)

lemma leaves_write [leaves_rules]: "P bs \<Longrightarrow> leaves a P s (Ok (write_bytes_unchecked a bs s))"
  by (simp add: leaves_def)

lemma leaves_try [leaves_rules]: "(\<And>x. r = Inr x \<Longrightarrow> leaves a P s (k x)) \<Longrightarrow> leaves a P s (try_value r s k)"
  by (cases r) (auto simp: leaves_def)

lemma leaves_if [leaves_rules]:
  "(b \<Longrightarrow> leaves a P s x) \<Longrightarrow> (\<not> b \<Longrightarrow> leaves a P s y) \<Longrightarrow> leaves a P s (if b then x else y)"
  by simp

lemma leaves_option [leaves_rules]:
  "(x = None \<Longrightarrow> leaves a P s r) \<Longrightarrow> (\<And>y. x = Some y \<Longrightarrow> leaves a P s (k y)) \<Longrightarrow>
   leaves a P s (case x of None \<Rightarrow> r | Some y \<Rightarrow> k y)"
  by (cases x) simp_all

lemma leaves_sum [leaves_rules]:
  "(\<And>y. x = Inl y \<Longrightarrow> leaves a P s (f y)) \<Longrightarrow> (\<And>y. x = Inr y \<Longrightarrow> leaves a P s (k y)) \<Longrightarrow>
   leaves a P s (case x of Inl y \<Rightarrow> f y | Inr y \<Rightarrow> k y)"
  by (cases x) simp_all

lemma leaves_then_write [leaves_rules]:
  assumes "stored (out_state m) a = stored s a" "P bs"
  shows "leaves a P s (and_then m (\<lambda>t. Ok (write_bytes_unchecked a bs t)))"
  using assms by (cases m) (simp_all add: leaves_def)

lemma leaves_after:
  assumes "confined UNIV {} (write_bytes_unchecked a bs s) (out_state r)" "P bs"
  shows "leaves a P s r"
  using confined_stored [OF assms(1), of a] assms(2) by (simp add: leaves_def)

section \<open>The contract of a ring registry\<close>

locale slot_store = map_store dec enc slot_fits
  for dec :: "bytes \<Rightarrow> ExecutionError + (u32, 's slot_record) btmap" and enc +
  fixes active exiting ejected :: 's
begin

abbreviation evolves :: "(u32, 's slot_record) btmap \<Rightarrow> bytes \<Rightarrow> bool" where
  "evolves m bs \<equiv> (\<exists>m'. dec bs = Inr m' \<and> ring_step active exiting ejected m m')"

lemma store_step:
  assumes "dec bs = Inr m" "ring_step active exiting ejected m m'" "Suc (bt_len m) < 2 ^ 32"
  shows "evolves m (enc m')"
  using round_trip [of m'] ring_step_fits [OF assms(2)] ring_step_len [OF assms(2)] decoded_valid [OF assms(1)] assms
  by auto

lemma store_admit:
  assumes "dec bs = Inr m" "Suc (bt_len m) < 2 ^ 32" "\<not> bt_contains m k"
    and "length mldsa \<le> MAX_MLDSA_PK_BYTES" "length bls \<le> MAX_BLS_PK_BYTES"
  shows "evolves m (enc (bt_insert k \<lparr>sr_mldsa_public_key = mldsa, sr_bls_public_key = bls,
    sr_stake_suwappu = stake, sr_deposited_stake = 0, sr_exit_block_height = 0, sr_status = active\<rparr> m))"
  using assms by (intro store_step [OF assms(1)] ring_admit) (simp_all add: bt_contains_get slot_fits_def)

lemma store_move:
  assumes "dec bs = Inr m" "Suc (bt_len m) < 2 ^ 32" "bt_get m k = Some r" "slot_move active exiting ejected r r'"
  shows "evolves m (enc (bt_insert k r' m))"
  using assms by (intro store_step [OF assms(1)] ring_move)

end

interpretation auth_store: slot_store "authority_decode H" authority_encode AuthActive AuthExiting AuthEjected for H
  by unfold_locales

interpretation val_store: slot_store "validator_decode H" validator_encode ValActive ValExiting ValEjected for H
  by unfold_locales

section \<open>Every intent takes each ring along one step\<close>

abbreviation auth_evolves where "auth_evolves H \<equiv> slot_store.evolves (authority_decode H) AuthActive AuthExiting AuthEjected"
abbreviation val_evolves where "val_evolves H \<equiv> slot_store.evolves (validator_decode H) ValActive ValExiting ValEjected"

lemma unat_u64_as_u128: "unat (ucast (d :: u64) :: u128) = unat d"
proof -
  have "unat d < 2 ^ 128"
    using unsigned_less [of d, where ?'a = nat] by simp
  then show ?thesis
    by (simp add: unsigned_ucast_eq take_bit_nat_eq_self)
qed

lemma withdraw_le: "\<not> ucast d < (amount :: Balance) \<Longrightarrow> d - ucast amount \<le> (d :: u64)"
proof -
  assume "\<not> ucast d < amount"
  then have le: "unat amount \<le> unat d"
    by (simp add: unat_less_iff unat_u64_as_u128)
  then have "unat (ucast amount :: u64) = unat amount"
    using unsigned_less [of d, where ?'a = nat] by (simp add: unsigned_ucast_eq take_bit_nat_eq_self)
  with le have "ucast amount \<le> d"
    by (simp add: unat_le_iff)
  then show ?thesis
    by (simp add: unat_le_iff unat_minus_le)
qed

lemma checked_add_le: "checked_add a b = Some c \<Longrightarrow> a \<le> (c :: 'a::len word)"
  by (simp add: unat_le_iff checked_add_SomeD)

lemma leaves_authority_arms:
  assumes dec: "authority_decode H (stored s (authority_registry_address H)) = Inr m" and len: "Suc (bt_len m) < 2 ^ 32"
  shows "leaves (authority_registry_address H) (auth_evolves H m) s (apply_admit_authority H i stake pk bls s)"
    and "leaves (authority_registry_address H) (auth_evolves H m) s (apply_exit_authority H i s)"
    and "leaves (authority_registry_address H) (auth_evolves H m) s (apply_eject_authority H i s)"
    and "leaves (authority_registry_address H) (auth_evolves H m) s (apply_deposit_authority H a i amt s)"
    and "leaves (authority_registry_address H) (auth_evolves H m) s (apply_withdraw_authority H a i amt s)"
proof -
  note move = auth_store.store_move [OF dec len]
  show "leaves (authority_registry_address H) (auth_evolves H m) s (apply_admit_authority H i stake pk bls s)"
    unfolding apply_admit_authority_def
    by (intro leaves_rules) (auto simp: dec intro!: auth_store.store_admit [OF dec len])
  show "leaves (authority_registry_address H) (auth_evolves H m) s (apply_exit_authority H i s)"
    unfolding apply_exit_authority_def
    by (intro leaves_rules) (auto simp: dec outcome_simps intro!: move move_exit)
  show "leaves (authority_registry_address H) (auth_evolves H m) s (apply_eject_authority H i s)"
    unfolding apply_eject_authority_def
    by (intro leaves_rules) (auto simp: dec outcome_simps intro!: move move_eject)
  show "leaves (authority_registry_address H) (auth_evolves H m) s (apply_deposit_authority H a i amt s)"
    unfolding apply_deposit_authority_def
    by (intro leaves_rules) (auto simp: dec outcome_simps intro!: move move_deposit checked_add_le)
  show "leaves (authority_registry_address H) (auth_evolves H m) s (apply_withdraw_authority H a i amt s)"
    unfolding apply_withdraw_authority_def Let_def
    by (intro leaves_rules) (auto simp: dec outcome_simps intro!: move move_withdraw withdraw_le)
qed

lemma leaves_validator_arms:
  assumes dec: "validator_decode H (stored s (validator_registry_address H)) = Inr m" and len: "Suc (bt_len m) < 2 ^ 32"
  shows "leaves (validator_registry_address H) (val_evolves H m) s (apply_admit_validator H i stake pk bls s)"
    and "leaves (validator_registry_address H) (val_evolves H m) s (apply_exit_validator H i s)"
    and "leaves (validator_registry_address H) (val_evolves H m) s (apply_eject_validator H i s)"
    and "leaves (validator_registry_address H) (val_evolves H m) s (apply_deposit_validator H a i amt s)"
    and "leaves (validator_registry_address H) (val_evolves H m) s (apply_withdraw_validator H a i amt s)"
proof -
  note move = val_store.store_move [OF dec len]
  show "leaves (validator_registry_address H) (val_evolves H m) s (apply_admit_validator H i stake pk bls s)"
    unfolding apply_admit_validator_def
    by (intro leaves_rules) (auto simp: dec intro!: val_store.store_admit [OF dec len])
  show "leaves (validator_registry_address H) (val_evolves H m) s (apply_exit_validator H i s)"
    unfolding apply_exit_validator_def
    by (intro leaves_rules) (auto simp: dec outcome_simps intro!: move move_exit)
  show "leaves (validator_registry_address H) (val_evolves H m) s (apply_eject_validator H i s)"
    unfolding apply_eject_validator_def
    by (intro leaves_rules) (auto simp: dec outcome_simps intro!: move move_eject)
  show "leaves (validator_registry_address H) (val_evolves H m) s (apply_deposit_validator H a i amt s)"
    unfolding apply_deposit_validator_def
    by (intro leaves_rules) (auto simp: dec outcome_simps intro!: move move_deposit checked_add_le)
  show "leaves (validator_registry_address H) (val_evolves H m) s (apply_withdraw_validator H a i amt s)"
    unfolding apply_withdraw_validator_def Let_def
    by (intro leaves_rules) (auto simp: dec outcome_simps intro!: move move_withdraw withdraw_le)
qed

text \<open>An intent that does not write a registry leaves its bytes.\<close>

lemma stored_untouched: "a \<notin> writes H i \<Longrightarrow> stored (out_state (apply_intent H i s)) a = stored s a"
  using apply_intent_confined by (rule confined_stored)

lemma leaves_untouched: "a \<notin> writes H i \<Longrightarrow> leaves a P s (apply_intent H i s)"
  by (simp add: leaves_def stored_untouched)

lemma authority_leaves:
  assumes distinct: "reserved_distinct H"
    and dec: "authority_decode H (stored s (authority_registry_address H)) = Inr m" and len: "Suc (bt_len m) < 2 ^ 32"
  shows "leaves (authority_registry_address H) (auth_evolves H m) s (apply_intent H i s)"
proof (cases "authority_registry_address H \<in> writes H i")
  case True
  then show ?thesis
    using distinct unfolding reserved_distinct_def reserved_addresses_def
    by (cases "(H, i)" rule: writes.cases) (simp_all add: leaves_authority_arms [OF dec len])
qed (rule leaves_untouched)

lemma validator_leaves:
  assumes distinct: "reserved_distinct H"
    and dec: "validator_decode H (stored s (validator_registry_address H)) = Inr m" and len: "Suc (bt_len m) < 2 ^ 32"
  shows "leaves (validator_registry_address H) (val_evolves H m) s (apply_intent H i s)"
proof (cases "validator_registry_address H \<in> writes H i")
  case True
  then show ?thesis
    using distinct unfolding reserved_distinct_def reserved_addresses_def
    by (cases "(H, i)" rule: writes.cases) (simp_all add: leaves_validator_arms [OF dec len])
qed (rule leaves_untouched)

lemma authority_evolves:
  assumes "reserved_distinct H" "authority_decode H (stored s (authority_registry_address H)) = Inr m"
    and "Suc (bt_len m) < 2 ^ 32"
  obtains m' where "authority_decode H (stored (out_state (apply_intent H i s)) (authority_registry_address H)) = Inr m'"
    "auth_ring_step m m'"
  using authority_leaves [OF assms, of i] assms(2) ring_stay [of _ _ _ m] that unfolding leaves_def by metis

lemma validator_evolves:
  assumes "reserved_distinct H" "validator_decode H (stored s (validator_registry_address H)) = Inr m"
    and "Suc (bt_len m) < 2 ^ 32"
  obtains m' where "validator_decode H (stored (out_state (apply_intent H i s)) (validator_registry_address H)) = Inr m'"
    "val_ring_step m m'"
  using validator_leaves [OF assms, of i] assms(2) ring_stay [of _ _ _ m] that unfolding leaves_def by metis

end
