(* ===== verification/Substrate_Registries.thy ===== *)
theory Substrate_Registries
  imports Substrate_Rings
begin

text \<open>
  The other registries of the substrate as state machines: force-include obligations, offences,
  ejections and burn nullifiers (which only grow), delegations, bridge assets and the L2 registry,
  and the two epoch counters.  As for the rings, every intent takes each decoded registry along one
  step of its relation.  \<open>state_wf H n s\<close> collects that every registry of \<open>s\<close> decodes and has at most \<open>n\<close>
  entries; an intent preserves it with \<open>n + 1\<close>, so no sequence of intents corrupts a registry.
\<close>

section \<open>Steps\<close>

inductive grow_step :: "('k::linorder, 'v) btmap \<Rightarrow> ('k, 'v) btmap \<Rightarrow> bool" where
  grow_stay: "grow_step m m"
| grow_fresh: "bt_get m k = None \<Longrightarrow> grow_step m (bt_insert k v m)"

inductive ob_step ::
  "(hash32, ForceIncludeObligation) btmap \<Rightarrow> (hash32, ForceIncludeObligation) btmap \<Rightarrow> bool" where
  ob_stay: "ob_step m m"
| ob_register: "bt_get m k = None \<Longrightarrow> ob_status ob = Pending \<Longrightarrow> ob_step m (bt_insert k ob m)"
| ob_resolve: "bt_get m k = Some ob \<Longrightarrow> ob_status ob = Pending \<Longrightarrow> st \<noteq> Pending \<Longrightarrow>
    ob_step m (bt_insert k (ob\<lparr>ob_status := st\<rparr>) m)"

inductive delegation_step :: "DelegationMap \<Rightarrow> DelegationMap \<Rightarrow> bool" where
  delegation_stay: "delegation_step m m"
| delegation_add: "unwrap_or 0 (bt_get m k) < amt \<Longrightarrow> delegation_step m (bt_insert k amt m)"

inductive asset_step :: "(hash32, AssetRecord) btmap \<Rightarrow> (hash32, AssetRecord) btmap \<Rightarrow> bool" where
  asset_stay: "asset_step m m"
| asset_add: "bt_get m k = None \<Longrightarrow> asset_fits k r \<Longrightarrow> as_status r = AssetActive \<Longrightarrow> asset_step m (bt_insert k r m)"
| asset_set: "bt_get m k = Some r \<Longrightarrow> st \<noteq> AssetActive \<Longrightarrow> asset_step m (bt_insert k (r\<lparr>as_status := st\<rparr>) m)"

inductive l2_step :: "L2Registry \<Rightarrow> L2Registry \<Rightarrow> bool" where
  l2_stay: "l2_step reg reg"
| l2_root: "aggregation_vk_hash reg (fst k) = l2_vk_hash r \<Longrightarrow> l2_vk_hash r \<noteq> 0 \<Longrightarrow>
    l2_step reg (reg\<lparr>state_roots := bt_insert k r (state_roots reg)\<rparr>)"
| l2_vks: "agg \<noteq> 0 \<or> rng \<noteq> 0 \<Longrightarrow> l2_step reg (set_chain_vks chain agg rng reg)"

definition asset_registry_step :: "AssetRegistry \<Rightarrow> AssetRegistry \<Rightarrow> bool" where
  "asset_registry_step reg reg' \<longleftrightarrow> asset_step (assets reg) (assets reg')"

definition asset_size :: "AssetRegistry \<Rightarrow> nat" where
  "asset_size reg = bt_len (assets reg)"

definition l2_size :: "L2Registry \<Rightarrow> nat" where
  "l2_size reg = max (bt_len (chain_vks reg)) (bt_len (state_roots reg))"

text \<open>The two epoch counters are read inline by the arms of \<open>MintInflation\<close> and \<open>DistributeRewards\<close>.\<close>

definition inflation_decode :: "hasher \<Rightarrow> bytes \<Rightarrow> ExecutionError + u64" where
  "inflation_decode H bs =
     (if bs = [] then Inr 0 else if length bs = 8 then Inr (of_be bs)
      else Inl (CorruptStateRecord (inflation_registry_address H) ''inflation registry size mismatch''))"

definition rewards_decode :: "hasher \<Rightarrow> bytes \<Rightarrow> ExecutionError + (u64 \<times> u64)" where
  "rewards_decode H bs =
     (if bs = [] then Inr (0, 0) else if length bs = 16 then Inr (read_u64 bs 0, read_u64 bs 8)
      else Inl (CorruptStateRecord (rewards_distribution_registry_address H)
                  ''rewards distribution registry size mismatch''))"

definition epochs_le :: "u64 \<times> u64 \<Rightarrow> u64 \<times> u64 \<Rightarrow> bool" where
  "epochs_le e e' \<longleftrightarrow> fst e \<le> fst e' \<and> snd e \<le> snd e'"

lemma grow_step_len: "grow_step m m' \<Longrightarrow> bt_len m' \<le> Suc (bt_len m)"
  by (cases rule: grow_step.cases) (auto simp: bt_len_insert_le)

lemma ob_step_len: "ob_step m m' \<Longrightarrow> bt_len m' \<le> Suc (bt_len m)"
  by (cases rule: ob_step.cases) (auto simp: bt_len_insert_le)

lemma delegation_step_len: "delegation_step m m' \<Longrightarrow> bt_len m' \<le> Suc (bt_len m)"
  by (cases rule: delegation_step.cases) (auto simp: bt_len_insert_le)

lemma asset_step_len: "asset_step m m' \<Longrightarrow> bt_len m' \<le> Suc (bt_len m)"
  by (cases rule: asset_step.cases) (auto simp: bt_len_insert_le)

lemma asset_registry_step_len: "asset_registry_step reg reg' \<Longrightarrow> asset_size reg' \<le> Suc (asset_size reg)"
  using asset_step_len by (auto simp: asset_registry_step_def asset_size_def)

lemma l2_step_size:
  assumes "l2_step reg reg'"
  shows "l2_size reg' \<le> Suc (l2_size reg)"
  using assms
proof cases
  case (l2_root k r)
  then show ?thesis
    using bt_len_insert_le [of k r "state_roots reg"] by (auto simp: l2_size_def)
next
  case (l2_vks agg rng chain)
  then show ?thesis
    using bt_len_insert_le [of chain "\<lparr>cv_aggregation_vk_hash = agg, cv_range_vk_commitment = rng\<rparr>" "chain_vks reg"]
    by (auto simp: l2_size_def set_chain_vks_def)
qed simp

section \<open>Arms\<close>

text \<open>Arms that write a registry first and then move coins.\<close>

lemma leaves_write_debit [leaves_rules]:
  assumes "P bs" "\<And>t. confined UNIV {} t (out_state (k t))"
  shows "leaves a P s (and_then (debit_unchecked b amt (write_bytes_unchecked a bs s)) k)"
  by (rule leaves_after [of _ bs]) (intro confined_and_then confined_debit assms UNIV_I, rule assms(1))

lemma leaves_write_bounty [leaves_rules]:
  "P bs \<Longrightarrow> leaves a P s (pay_bounty H bounty b (write_bytes_unchecked a bs s))"
  by (rule leaves_after [of _ bs]) (intro confined_pay_bounty UNIV_I)

lemma leaves_obligation_arms:
  assumes dec: "decode_map H (stored s (force_include_registry_address H)) = Inr m" and len: "Suc (bt_len m) < 2 ^ 32"
  defines "P \<equiv> \<lambda>bs. \<exists>m'. decode_map H bs = Inr m' \<and> ob_step m m'"
  shows "leaves (force_include_registry_address H) P s (apply_force_include H tx d sub n s)"
    and "leaves (force_include_registry_address H) P s (apply_slash_missed H h s)"
    and "leaves (force_include_registry_address H) P s (apply_mark_honored H h s)"
proof -
  note ins = obligation_map.store_insert [OF dec any_entry_all(1) len]
  have resolve: "P (encode_map (bt_insert k (ob\<lparr>ob_status := st\<rparr>) m))"
    if "bt_get m k = Some ob" "ob_status ob = Pending" "st \<noteq> Pending" for k ob st
    using ob_resolve [OF that] ins unfolding P_def by blast
  show "leaves (force_include_registry_address H) P s (apply_force_include H tx d sub n s)"
    unfolding apply_force_include_def Let_def P_def
    by (intro leaves_rules) (auto simp: dec ins bt_contains_get intro!: ob_register)
  show "leaves (force_include_registry_address H) P s (apply_slash_missed H h s)"
    unfolding apply_slash_missed_def Let_def
    by (intro leaves_rules confined_rules UNIV_I) (auto simp: dec outcome_simps intro!: resolve)
  show "leaves (force_include_registry_address H) P s (apply_mark_honored H h s)"
    unfolding apply_mark_honored_def
    by (intro leaves_rules) (auto simp: dec outcome_simps intro!: resolve)
qed

lemma unit_option_None: "(r :: unit option) \<noteq> Some () \<longleftrightarrow> r = None"
  by (cases r) auto

lemma leaves_nullifier_arm:
  assumes dec: "nullifier_decode H (stored s (burn_nullifier_registry_address H)) = Inr m" and len: "Suc (bt_len m) < 2 ^ 32"
  shows "leaves (burn_nullifier_registry_address H) (\<lambda>bs. \<exists>m'. nullifier_decode H bs = Inr m' \<and> grow_step m m') s
    (apply_l2_burn H b r amt p asset c s)"
  unfolding apply_l2_burn_def Let_def
  by (intro leaves_rules confined_rules UNIV_I)
    (auto simp: dec nullifier_map.store_insert [OF dec any_entry_all(1) len] bt_contains_get unit_option_None intro!: grow_fresh)

lemma leaves_equivocation_arm:
  assumes dec: "equivocation_decode H (stored s (equivocation_registry_address H)) = Inr m" and len: "Suc (bt_len m) < 2 ^ 32"
  shows "leaves (equivocation_registry_address H) (\<lambda>bs. \<exists>m'. equivocation_decode H bs = Inr m' \<and> grow_step m m') s
    (apply_slash_offense H kind h s)"
  unfolding apply_slash_offense_def Let_def
  by (intro leaves_rules confined_rules UNIV_I)
    (auto simp: dec equivocation_map.store_insert [OF dec any_entry_all(1) len] intro!: grow_fresh)

lemma leaves_ejection_arm:
  assumes dec: "ejection_decode H (stored s (ejection_registry_address H)) = Inr m" and len: "Suc (bt_len m) < 2 ^ 32"
  shows "leaves (ejection_registry_address H) (\<lambda>bs. \<exists>m'. ejection_decode H bs = Inr m' \<and> grow_step m m') s
    (apply_eject_sequencer H h a s)"
  unfolding apply_eject_sequencer_def Let_def
  by (intro leaves_rules)
    (auto simp: dec ejection_map.store_insert [OF dec any_entry_all(1) len] bt_contains_get intro!: grow_fresh)

lemma u64_try_from_pos: "u64_try_from x = Some y \<Longrightarrow> x \<noteq> 0 \<Longrightarrow> 0 < unat y"
  using u64_try_from_SomeD [of x y] by (simp add: unat_gt_0)

lemma leaves_delegation_arm:
  assumes dec: "delegation_decode H (stored s (validator_delegation_registry_address H)) = Inr m"
    and len: "Suc (bt_len m) < 2 ^ 32"
  shows "leaves (validator_delegation_registry_address H)
    (\<lambda>bs. \<exists>m'. delegation_decode H bs = Inr m' \<and> delegation_step m m') s (apply_delegate H a v amt s)"
proof -
  have add: "\<exists>m'. delegation_decode H (delegation_encode (bt_insert k entry m)) = Inr m' \<and> delegation_step m m'"
    if "u64_try_from amt = Some delta" "amt \<noteq> 0" "checked_add (unwrap_or 0 (bt_get m k)) delta = Some entry"
    for k delta entry
  proof -
    have less: "unwrap_or 0 (bt_get m k) < entry"
      using checked_add_SomeD [OF that(3)] u64_try_from_pos [OF that(1,2)] by (simp add: unat_less_iff)
    then have "0 < entry"
      using word_zero_le le_less_trans by blast
    then show ?thesis
      using delegation_map.store_insert [OF dec _ len, of entry k] delegation_add [OF less] by blast
  qed
  show ?thesis
    unfolding apply_delegate_def
    by (intro leaves_rules) (auto simp: dec outcome_simps intro: add)
qed

lemma leaves_asset_arms:
  assumes dec: "asset_decode H (stored s (asset_registry_address H)) = Inr reg" and len: "Suc (asset_size reg) < 2 ^ 32"
  defines "P \<equiv> \<lambda>bs. \<exists>reg'. asset_decode H bs = Inr reg' \<and> asset_registry_step reg reg'"
  shows "leaves (asset_registry_address H) P s (apply_add_asset H chain contract d n sy s)"
    and "st \<noteq> AssetActive \<Longrightarrow> leaves (asset_registry_address H) P s (set_asset_status H st i s)"
proof -
  have stored_P: "P (asset_encode (reg\<lparr>assets := bt_insert k r (assets reg)\<rparr>))"
    if "asset_fits k r" "asset_step (assets reg) (bt_insert k r (assets reg))" for k r
    using asset_round_trip [of "reg\<lparr>assets := bt_insert k r (assets reg)\<rparr>" H] that asset_decode_fits [OF dec] len
      bt_len_insert_le [of k r "assets reg"]
    by (auto simp: P_def bt_all_insert asset_registry_step_def asset_size_def)
  show "leaves (asset_registry_address H) P s (apply_add_asset H chain contract d n sy s)"
    unfolding apply_add_asset_def Let_def
    by (intro leaves_rules) (auto simp: dec bt_contains_get asset_fits_def intro!: stored_P asset_add)
  show "leaves (asset_registry_address H) P s (set_asset_status H st i s)" if st: "st \<noteq> AssetActive"
  proof -
    have "asset_fits i (r\<lparr>as_status := st\<rparr>)" if "bt_get (assets reg) i = Some r" for r
      using bt_all_get [OF conjunct1 [OF asset_decode_fits [OF dec]] that] by (simp add: asset_fits_def)
    then show ?thesis
      unfolding set_asset_status_def
      by (intro leaves_rules) (auto simp: dec outcome_simps st intro!: stored_P asset_set)
  qed
qed

lemma leaves_l2_arms:
  assumes dec: "l2_decode H (stored s (l2_registry_address H)) = Inr reg" and len: "Suc (l2_size reg) < 2 ^ 32"
  defines "P \<equiv> \<lambda>bs. \<exists>reg'. l2_decode H bs = Inr reg' \<and> l2_step reg reg'"
  shows "leaves (l2_registry_address H) P s (apply_commit_l2 H batch root pb pub vk s)"
    and "leaves (l2_registry_address H) P s (apply_set_vk H chain agg rng s)"
proof -
  have stored_P: "P (l2_encode reg')" if "l2_step reg reg'" for reg'
    using l2_round_trip [of reg' H] l2_step_size [OF that] len that by (auto simp: P_def l2_size_def)
  have "vk \<noteq> 0" if "verify_l2_batch pb pub vk = Inr u" for u
    using that by (auto simp: verify_l2_batch_def split: if_splits)
  then show "leaves (l2_registry_address H) P s (apply_commit_l2 H batch root pb pub vk s)"
    unfolding apply_commit_l2_def Let_def
    by (intro leaves_rules) (auto simp: dec intro!: stored_P l2_root)
  show "leaves (l2_registry_address H) P s (apply_set_vk H chain agg rng s)"
    unfolding apply_set_vk_def
    by (intro leaves_rules) (auto simp: dec intro!: stored_P l2_vks)
qed

lemma epoch_read_write: "read_u64 (be_bytes 8 (a :: u64) @ be_bytes 8 (b :: u64)) 0 = a"
  "read_u64 (be_bytes 8 (a :: u64) @ be_bytes 8 (b :: u64)) 8 = b"
  by (simp_all add: read_u64_def slice_def)

lemma inflation_decode_write: "inflation_decode H (be_bytes 8 epoch) = Inr epoch"
proof -
  have "be_bytes 8 epoch \<noteq> []"
    by (metis length_be_bytes list.size(3) zero_neq_numeral)
  then show ?thesis
    by (simp add: inflation_decode_def)
qed

lemma rewards_decode_write: "rewards_decode H (be_bytes 8 a @ be_bytes 8 b) = Inr (a, b)"
proof -
  have "be_bytes 8 a \<noteq> []"
    by (metis length_be_bytes list.size(3) zero_neq_numeral)
  then show ?thesis
    by (simp add: rewards_decode_def epoch_read_write)
qed

lemma leaves_inflation_arm:
  assumes dec: "inflation_decode H (stored s (inflation_registry_address H)) = Inr e"
  shows "leaves (inflation_registry_address H) (\<lambda>bs. \<exists>e'. inflation_decode H bs = Inr e' \<and> e \<le> e') s
    (apply_mint H epoch a v t s)"
  unfolding apply_mint_def Let_def inflation_decode_def [symmetric]
  by (intro leaves_rules) (auto simp: dec inflation_decode_write)

lemma leaves_prod [leaves_rules]:
  "(\<And>x y. p = (x, y) \<Longrightarrow> leaves a P s (f x y)) \<Longrightarrow> leaves a P s (case p of (x, y) \<Rightarrow> f x y)"
  by (cases p) simp

lemma leaves_rewards_arm:
  assumes dec: "rewards_decode H (stored s (rewards_distribution_registry_address H)) = Inr e"
  shows "leaves (rewards_distribution_registry_address H) (\<lambda>bs. \<exists>e'. rewards_decode H bs = Inr e' \<and> epochs_le e e') s
    (apply_rewards H epoch ring recipients s)"
  unfolding apply_rewards_def last_rewards_def Let_def rewards_decode_def [symmetric]
  by (intro leaves_rules) (auto simp: dec rewards_decode_write epochs_le_def split: RewardsRing.split)

section \<open>Every registry as a machine\<close>

text \<open>
  The contract of a registry: whatever intent is applied, its bytes stay, or decode to the result of
  one step of its relation.  Its consequences for a trace are proved once.
\<close>

locale registry_machine =
  fixes addr :: "hasher \<Rightarrow> address" and decode :: "hasher \<Rightarrow> bytes \<Rightarrow> ExecutionError + 'r"
    and entries :: "'r \<Rightarrow> nat" and step :: "'r \<Rightarrow> 'r \<Rightarrow> bool"
  assumes step_entries: "step m m' \<Longrightarrow> entries m' \<le> Suc (entries m)"
    and machine_leaves: "reserved_distinct H \<Longrightarrow> decode H (stored s (addr H)) = Inr m \<Longrightarrow> Suc (entries m) < 2 ^ 32 \<Longrightarrow>
      addr H \<in> writes H i \<Longrightarrow>
      leaves (addr H) (\<lambda>bs. \<exists>m'. decode H bs = Inr m' \<and> step m m') s (apply_intent H i s)"
begin

lemma machine_step:
  assumes "reserved_distinct H" "decode H (stored s (addr H)) = Inr m" "Suc (entries m) < 2 ^ 32"
  obtains m' where "decode H (stored (out_state (apply_intent H i s)) (addr H)) = Inr m'" "step\<^sup>=\<^sup>= m m'"
    "entries m' \<le> Suc (entries m)"
proof -
  have "leaves (addr H) (\<lambda>bs. \<exists>m'. decode H bs = Inr m' \<and> step m m') s (apply_intent H i s)"
    using machine_leaves [OF assms] leaves_untouched by blast
  then show ?thesis
    using that [of m] that assms(2) step_entries unfolding leaves_def by auto
qed

lemma machine_trace:
  assumes "reserved_distinct H" "decode H (stored s (addr H)) = Inr m" "entries m + length is < 2 ^ 32"
  shows "\<exists>m'. decode H (stored (run_intents H is s) (addr H)) = Inr m' \<and> step\<^sup>*\<^sup>* m m' \<and> entries m' \<le> entries m + length is"
  using assms(2,3)
proof (induction "is" arbitrary: s m)
  case (Cons i "is")
  obtain m1 where m1: "decode H (stored (out_state (apply_intent H i s)) (addr H)) = Inr m1" "step\<^sup>=\<^sup>= m m1"
      "entries m1 \<le> Suc (entries m)"
    using machine_step [OF assms(1) Cons.prems(1)] Cons.prems(2) by auto
  with Cons.IH [OF m1(1)] Cons.prems(2) obtain m2
    where "decode H (stored (run_intents H (i # is) s) (addr H)) = Inr m2" "step\<^sup>*\<^sup>* m1 m2" "entries m2 \<le> entries m1 + length is"
    by auto
  moreover have "step\<^sup>*\<^sup>* m m1"
    using m1(2) by (auto intro: r_into_rtranclp)
  ultimately show ?case
    using m1(3) by (auto intro: rtranclp_trans)
qed simp

lemma machine_invariant:
  assumes "reserved_distinct H" "decode H (stored s (addr H)) = Inr m" "entries m + length is < 2 ^ 32"
    and "I m" "\<And>m m'. step m m' \<Longrightarrow> I m \<Longrightarrow> I m'"
  shows "\<exists>m'. decode H (stored (run_intents H is s) (addr H)) = Inr m' \<and> I m'"
proof -
  obtain m' where dec: "decode H (stored (run_intents H is s) (addr H)) = Inr m'" and "step\<^sup>*\<^sup>* m m'"
    using machine_trace [OF assms(1-3)] by blast
  from this(2) have "I m'"
    by (induction rule: rtranclp_induct) (use assms(4,5) in blast)+
  with dec show ?thesis
    by blast
qed

end

text \<open>The arm lemmas discharge the contract for the eleven registries of the substrate.\<close>

lemma registries_distinct:
  "reserved_distinct H \<Longrightarrow> distinct
    [l2_registry_address H, force_include_registry_address H, asset_registry_address H, ejection_registry_address H,
     burn_nullifier_registry_address H, equivocation_registry_address H, authority_registry_address H,
     validator_registry_address H, inflation_registry_address H, rewards_distribution_registry_address H,
     validator_delegation_registry_address H]"
  unfolding reserved_distinct_def reserved_addresses_def by simp

interpretation auth_machine: registry_machine authority_registry_address authority_decode bt_len auth_ring_step
proof
  show "leaves (authority_registry_address H) (\<lambda>bs. \<exists>m'. authority_decode H bs = Inr m' \<and> auth_ring_step m m') s (apply_intent H i s)"
    if "reserved_distinct H" "authority_decode H (stored s (authority_registry_address H)) = Inr m" "Suc (bt_len m) < 2 ^ 32"
    for H s m i
    using authority_leaves [OF that] .
qed (rule ring_step_len)

interpretation val_machine: registry_machine validator_registry_address validator_decode bt_len val_ring_step
proof
  show "leaves (validator_registry_address H) (\<lambda>bs. \<exists>m'. validator_decode H bs = Inr m' \<and> val_ring_step m m') s (apply_intent H i s)"
    if "reserved_distinct H" "validator_decode H (stored s (validator_registry_address H)) = Inr m" "Suc (bt_len m) < 2 ^ 32"
    for H s m i
    using validator_leaves [OF that] .
qed (rule ring_step_len)

interpretation obligation_machine: registry_machine force_include_registry_address decode_map bt_len ob_step
proof
  show "leaves (force_include_registry_address H) (\<lambda>bs. \<exists>m'. decode_map H bs = Inr m' \<and> ob_step m m') s (apply_intent H i s)"
    if "reserved_distinct H" "decode_map H (stored s (force_include_registry_address H)) = Inr m" "Suc (bt_len m) < 2 ^ 32"
      "force_include_registry_address H \<in> writes H i" for H s m i
    using registries_distinct [OF that(1)] that(2-)
    by (cases "(H, i)" rule: writes.cases) (simp_all add: leaves_obligation_arms)
qed (rule ob_step_len)

interpretation equivocation_machine: registry_machine equivocation_registry_address equivocation_decode bt_len grow_step
proof
  show "leaves (equivocation_registry_address H) (\<lambda>bs. \<exists>m'. equivocation_decode H bs = Inr m' \<and> grow_step m m') s (apply_intent H i s)"
    if "reserved_distinct H" "equivocation_decode H (stored s (equivocation_registry_address H)) = Inr m" "Suc (bt_len m) < 2 ^ 32"
      "equivocation_registry_address H \<in> writes H i" for H s m i
    using registries_distinct [OF that(1)] that(2-)
    by (cases "(H, i)" rule: writes.cases) (simp_all add: leaves_equivocation_arm)
qed (rule grow_step_len)

interpretation ejection_machine: registry_machine ejection_registry_address ejection_decode bt_len grow_step
proof
  show "leaves (ejection_registry_address H) (\<lambda>bs. \<exists>m'. ejection_decode H bs = Inr m' \<and> grow_step m m') s (apply_intent H i s)"
    if "reserved_distinct H" "ejection_decode H (stored s (ejection_registry_address H)) = Inr m" "Suc (bt_len m) < 2 ^ 32"
      "ejection_registry_address H \<in> writes H i" for H s m i
    using registries_distinct [OF that(1)] that(2-)
    by (cases "(H, i)" rule: writes.cases) (simp_all add: leaves_ejection_arm)
qed (rule grow_step_len)

interpretation nullifier_machine: registry_machine burn_nullifier_registry_address nullifier_decode bt_len grow_step
proof
  show "leaves (burn_nullifier_registry_address H) (\<lambda>bs. \<exists>m'. nullifier_decode H bs = Inr m' \<and> grow_step m m') s (apply_intent H i s)"
    if "reserved_distinct H" "nullifier_decode H (stored s (burn_nullifier_registry_address H)) = Inr m" "Suc (bt_len m) < 2 ^ 32"
      "burn_nullifier_registry_address H \<in> writes H i" for H s m i
    using registries_distinct [OF that(1)] that(2-)
    by (cases "(H, i)" rule: writes.cases) (simp_all add: leaves_nullifier_arm)
qed (rule grow_step_len)

interpretation delegation_machine: registry_machine validator_delegation_registry_address delegation_decode bt_len delegation_step
proof
  show "leaves (validator_delegation_registry_address H) (\<lambda>bs. \<exists>m'. delegation_decode H bs = Inr m' \<and> delegation_step m m') s (apply_intent H i s)"
    if "reserved_distinct H" "delegation_decode H (stored s (validator_delegation_registry_address H)) = Inr m" "Suc (bt_len m) < 2 ^ 32"
      "validator_delegation_registry_address H \<in> writes H i" for H s m i
    using registries_distinct [OF that(1)] that(2-)
    by (cases "(H, i)" rule: writes.cases) (simp_all add: leaves_delegation_arm)
qed (rule delegation_step_len)

interpretation asset_machine: registry_machine asset_registry_address asset_decode asset_size asset_registry_step
proof
  show "leaves (asset_registry_address H) (\<lambda>bs. \<exists>m'. asset_decode H bs = Inr m' \<and> asset_registry_step m m') s (apply_intent H i s)"
    if "reserved_distinct H" "asset_decode H (stored s (asset_registry_address H)) = Inr m" "Suc (asset_size m) < 2 ^ 32"
      "asset_registry_address H \<in> writes H i" for H s m i
    using registries_distinct [OF that(1)] that(2-)
    by (cases "(H, i)" rule: writes.cases) (simp_all add: apply_pause_asset_def apply_remove_asset_def leaves_asset_arms)
qed (rule asset_registry_step_len)

interpretation l2_machine: registry_machine l2_registry_address l2_decode l2_size l2_step
proof
  show "leaves (l2_registry_address H) (\<lambda>bs. \<exists>m'. l2_decode H bs = Inr m' \<and> l2_step m m') s (apply_intent H i s)"
    if "reserved_distinct H" "l2_decode H (stored s (l2_registry_address H)) = Inr m" "Suc (l2_size m) < 2 ^ 32"
      "l2_registry_address H \<in> writes H i" for H s m i
    using registries_distinct [OF that(1)] that(2-)
    by (cases "(H, i)" rule: writes.cases) (simp_all add: leaves_l2_arms)
qed (rule l2_step_size)

interpretation inflation_machine: registry_machine inflation_registry_address inflation_decode "\<lambda>_. 0" "(\<le>)"
proof
  show "leaves (inflation_registry_address H) (\<lambda>bs. \<exists>m'. inflation_decode H bs = Inr m' \<and> m \<le> m') s (apply_intent H i s)"
    if "reserved_distinct H" "inflation_decode H (stored s (inflation_registry_address H)) = Inr m" "Suc 0 < 2 ^ 32"
      "inflation_registry_address H \<in> writes H i" for H s m i
    using registries_distinct [OF that(1)] that(2-)
    by (cases "(H, i)" rule: writes.cases) (simp_all add: leaves_inflation_arm)
qed simp

interpretation rewards_machine: registry_machine rewards_distribution_registry_address rewards_decode "\<lambda>_. 0" epochs_le
proof
  show "leaves (rewards_distribution_registry_address H) (\<lambda>bs. \<exists>m'. rewards_decode H bs = Inr m' \<and> epochs_le m m') s (apply_intent H i s)"
    if "reserved_distinct H" "rewards_decode H (stored s (rewards_distribution_registry_address H)) = Inr m" "Suc 0 < 2 ^ 32"
      "rewards_distribution_registry_address H \<in> writes H i" for H s m i
    using registries_distinct [OF that(1)] that(2-)
    by (cases "(H, i)" rule: writes.cases) (simp_all add: leaves_rewards_arm del: split_paired_Ex)
qed simp

end
