(* ===== verification/Ledger_Safety.thy ===== *)
theory Ledger_Safety
  imports Substrate_Registries
begin

text \<open>
  What the substrate guarantees about money: the supply changes only by what successful intents mint,
  a failed intent leaves the state as it was (with one exception, proved to be one), a burn is paid
  at most once, and who can be debited.
\<close>

section \<open>Supply\<close>

text \<open>The intents of a sequence that succeed when the sequence is applied.\<close>

fun successful :: "hasher \<Rightarrow> Intent list \<Rightarrow> InMemorySubstrate \<Rightarrow> Intent list" where
  "successful H [] s = []"
| "successful H (i # is) s =
     (case apply_intent H i s of Ok t \<Rightarrow> i # successful H is t | Err e t \<Rightarrow> successful H is t)"

lemma coin_supply_cong: "balances t = balances s \<Longrightarrow> coin_supply t = coin_supply s"
  by (simp add: coin_supply_def)

lemma failed_balances:
  assumes "coin_supply s + minted i < 2 ^ 128" "apply_intent H i s = Err e t"
  shows "balances t = balances s"
proof (cases "\<exists>b r amt p asset c. i = L2BurnProven b r amt p asset c")
  case True
  then show ?thesis
    using assms burn_error [of s H] by fastforce
next
  case False
  then show ?thesis
    using assms apply_intent_undone [of s i H] unfolding undone_def by fastforce
qed

lemma supply_step:
  assumes "coin_supply s + minted i < 2 ^ 128"
  shows "coin_supply (out_state (apply_intent H i s)) =
    coin_supply s + (case apply_intent H i s of Ok t \<Rightarrow> minted i | Err e t \<Rightarrow> 0)"
proof (cases "apply_intent H i s")
  case (Ok t)
  then have "int (coin_supply t) = int (coin_supply s) + int (minted i)"
    using apply_intent_supply [of i s H] by (simp only: supplies_def)
  then show ?thesis
    by (simp add: Ok)
next
  case (Err e t)
  then show ?thesis
    using coin_supply_cong [OF failed_balances [OF assms Err]] by simp
qed

lemma supply_trace:
  "coin_supply s + sum_list (map minted is) < 2 ^ 128 \<Longrightarrow>
   coin_supply (run_intents H is s) = coin_supply s + sum_list (map minted (successful H is s))"
proof (induction "is" arbitrary: s)
  case (Cons i "is")
  have step: "coin_supply (out_state (apply_intent H i s)) =
    coin_supply s + (case apply_intent H i s of Ok t \<Rightarrow> minted i | Err e t \<Rightarrow> 0)"
    using Cons.prems by (intro supply_step) simp
  then have "coin_supply (out_state (apply_intent H i s)) + sum_list (map minted is) < 2 ^ 128"
    using Cons.prems by (auto split: outcome.split)
  from Cons.IH [OF this] step show ?case
    by (auto split: outcome.split)
qed simp

lemma successful_minted_le: "sum_list (map minted (successful H is s)) \<le> sum_list (map minted is)"
  by (induction "is" arbitrary: s) (auto split: outcome.split intro: le_trans [OF _ le_add2] add_left_mono)

lemma foldl_word_sum:
  fixes xs :: "Balance list"
  shows "unat acc + sum_list (map unat xs) < 2 ^ 128 \<Longrightarrow> unat (foldl (+) acc xs) = unat acc + sum_list (map unat xs)"
proof (induction xs arbitrary: acc)
  case (Cons x xs)
  have "unat (acc + x) = unat acc + unat x"
    using Cons.prems by (intro unat_plus_no_overflow) simp
  with Cons.IH [of "acc + x"] Cons.prems show ?case
    by simp
qed simp

lemma total_supply_exact: "coin_supply s < 2 ^ 128 \<Longrightarrow> unat (total_supply s) = coin_supply s"
  using foldl_word_sum [of 0 "bt_values (balances s)"] by (simp add: total_supply_def coin_supply_def bt_sum_def)

text \<open>
  C1.  Conservation of supply: along any sequence of intents, successful or failing, in any order, the
  coins in existence grow by exactly what the successful genesis, inflation and slashed-funds intents
  mint; no transfer, stake movement, bridge operation, slash or bounty creates or destroys a coin, and
  \<open>total_supply\<close>, which adds with wrap-around, reports the exact amount.  The hypothesis is that all the
  intents together do not mint past the width of a balance.
\<close>

theorem supply_conservation:
  assumes "coin_supply s + sum_list (map minted is) < 2 ^ 128"
  shows "coin_supply (run_intents H is s) = coin_supply s + sum_list (map minted (successful H is s)) \<and>
    unat (total_supply (run_intents H is s)) = coin_supply (run_intents H is s)"
proof -
  have "coin_supply (run_intents H is s) < 2 ^ 128"
    using supply_trace [OF assms] successful_minted_le [of H "is" s] assms by simp
  then show ?thesis
    using supply_trace [OF assms] total_supply_exact by blast
qed

theorem supply_conservation_witness:
  "let is = [GenesisAllocation [(1, 100), (2, 50)], Transfer 1 2 30, Transfer 1 2 500, L1Lock 2 9 20 None] in
   coin_supply (run_intents demo_blake is substrate_new) =
     coin_supply substrate_new + sum_list (map minted (successful demo_blake is substrate_new)) \<and>
   sum_list (map minted is) = 150"
  unfolding Let_def
  by (rule conjI [OF conjunct1 [OF supply_conservation]]) (simp_all add: substrate_new_def coin_supply_def)

section \<open>Failed intents\<close>

text \<open>
  C15.  While the coins in existence, with what the intent would mint, fit in a balance (less than
  \<open>2 ^ 128\<close>, so that no credit of coins that were debited can overflow), a failed intent leaves the substrate exactly as it
  was, for every intent and every error, except a proven burn that the escrow cannot cover; and even then
  no balance changes.  Beyond that bound a bridge lock whose escrow credit overflows keeps its debit.
\<close>

theorem failed_intent_atomic:
  assumes "coin_supply s + minted i < 2 ^ 128" "apply_intent H i s = Err e t"
  shows "t = s \<or>
    (\<exists>b r amt p asset c. i = L2BurnProven b r amt p asset c \<and> balance s (bridge_escrow_address H) < amt \<and>
       balances t = balances s)"
proof (cases "\<exists>b r amt p asset c. i = L2BurnProven b r amt p asset c")
  case True
  then show ?thesis
    using assms burn_error [of s H] by fastforce
next
  case False
  then show ?thesis
    using assms apply_intent_undone [of s i H] unfolding undone_def by fastforce
qed

theorem failed_intent_atomic_witness:
  "apply_intent demo_blake (MintInflation 0 5 5 5) substrate_new = Err (InflationEpochAlreadyMinted 0 0) substrate_new \<and>
   (substrate_new = substrate_new \<or>
    (\<exists>b r amt p asset c. MintInflation 0 5 5 5 = L2BurnProven b r amt p asset c \<and>
       balance substrate_new (bridge_escrow_address demo_blake) < amt \<and> balances substrate_new = balances substrate_new))"
proof (rule conjI)
  show *: "apply_intent demo_blake (MintInflation 0 5 5 5) substrate_new = Err (InflationEpochAlreadyMinted 0 0) substrate_new"
    by (simp add: apply_mint_def substrate_new_def stored_def read_bytes_def)
  show "substrate_new = substrate_new \<or>
    (\<exists>b r amt p asset c. MintInflation 0 5 5 5 = L2BurnProven b r amt p asset c \<and>
       balance substrate_new (bridge_escrow_address demo_blake) < amt \<and> balances substrate_new = balances substrate_new)"
    by (rule failed_intent_atomic [OF _ *]) (simp add: substrate_new_def coin_supply_def)
qed

section \<open>Burns\<close>

lemma grow_step_get: "grow_step m m' \<Longrightarrow> bt_get m k = Some v \<Longrightarrow> bt_get m' k = Some v"
  by (cases rule: grow_step.cases) (auto simp: bt.get_insert)

lemma claimed_iff:
  "nullifier_decode H (stored s (burn_nullifier_registry_address H)) = Inr m \<Longrightarrow>
   burn_id_claimed H s k \<longleftrightarrow> bt_get m k = Some ()"
  by (simp add: burn_id_claimed_def bt_contains_get)

lemma claimed_forever:
  assumes "reserved_distinct H" "nullifier_decode H (stored s (burn_nullifier_registry_address H)) = Inr m"
    and "bt_len m + length is < 2 ^ 32" "bt_get m k = Some ()"
  shows "burn_id_claimed H (run_intents H is s) k"
proof -
  have "\<exists>m'. nullifier_decode H (stored (run_intents H is s) (burn_nullifier_registry_address H)) = Inr m' \<and>
      bt_get m' k = Some ()"
    by (rule nullifier_machine.machine_invariant [OF assms(1-3)]) (use assms(4) grow_step_get in auto)
  then show ?thesis
    by (auto simp: claimed_iff)
qed

lemma claimed_burn_fails:
  "amt \<noteq> 0 \<Longrightarrow> burn_id_claimed H s (burn_id H c b r amt p asset) \<Longrightarrow> \<not> succeeds (apply_l2_burn H b r amt p asset c s)"
  by (auto simp: succeeds_def apply_l2_burn_def burn_id_claimed_def Let_def try_value_Ok_iff split: sum.splits if_splits)

text \<open>Past its gates a burn writes its nullifier, whether or not the escrow can pay.\<close>

lemma burn_writes:
  assumes "amt \<noteq> 0" "\<not> is_reserved H r" "asset_gate H s asset = Inr ()" "l2_state_root_record H s (c, b) \<noteq> None"
    and dec: "nullifier_decode H (stored s (burn_nullifier_registry_address H)) = Inr m"
    and fresh: "bt_get m (burn_id H c b r amt p asset) = None" and len: "Suc (bt_len m) < 2 ^ 32"
  shows "nullifier_decode H (stored (out_state (apply_l2_burn H b r amt p asset c s)) (burn_nullifier_registry_address H)) =
    Inr (bt_insert (burn_id H c b r amt p asset) () m)"
proof -
  let ?s1 = "write_bytes_unchecked (burn_nullifier_registry_address H) (nullifier_encode (bt_insert (burn_id H c b r amt p asset) () m)) s"
  have "apply_l2_burn H b r amt p asset c s =
      and_then (debit_unchecked (bridge_escrow_address H) amt ?s1) (credit_unchecked r amt)"
    using assms by (auto simp: apply_l2_burn_def bt_contains_get)
  moreover have "stored (out_state (and_then (debit_unchecked (bridge_escrow_address H) amt ?s1) (credit_unchecked r amt)))
      (burn_nullifier_registry_address H) = stored ?s1 (burn_nullifier_registry_address H)"
    by (rule confined_stored [of UNIV "{}"], intro confined_rules; simp)
  ultimately show ?thesis
    using nullifier_map.store_insert [OF dec any_entry_all(1) len] by simp
qed

lemma burn_gates:
  assumes "succeeds (apply_l2_burn H b r amt p asset c s)" "amt \<noteq> 0"
    and dec: "nullifier_decode H (stored s (burn_nullifier_registry_address H)) = Inr m"
  shows "\<not> is_reserved H r \<and> asset_gate H s asset = Inr () \<and> l2_state_root_record H s (c, b) \<noteq> None \<and>
    bt_get m (burn_id H c b r amt p asset) = None"
  using assms
  by (auto simp: succeeds_def apply_l2_burn_def Let_def try_value_Ok_iff bt_contains_get unit_option_None split: if_splits)

lemma burn_claimed_after:
  assumes distinct: "reserved_distinct H" and gates: "amt \<noteq> 0" "\<not> is_reserved H r" "asset_gate H s asset = Inr ()"
      "l2_state_root_record H s (c, b) \<noteq> None"
    and dec: "nullifier_decode H (stored s (burn_nullifier_registry_address H)) = Inr m"
    and fresh: "bt_get m (burn_id H c b r amt p asset) = None" and len: "Suc (bt_len m) + length is < 2 ^ 32"
  shows "burn_id_claimed H (run_intents H is (out_state (apply_l2_burn H b r amt p asset c s))) (burn_id H c b r amt p asset)"
proof (rule claimed_forever [OF distinct burn_writes [OF gates dec fresh]])
  show "bt_len (bt_insert (burn_id H c b r amt p asset) () m) + length is < 2 ^ 32"
    using len bt_len_insert_le [of "burn_id H c b r amt p asset" "()" m] by simp
qed (use len in \<open>simp_all add: bt.get_insert\<close>)

text \<open>
  C11.  No double spend through the bridge: once a burn has been paid, no later burn with the same
  identifier is paid, whatever intents run in between.  The hypotheses are that the protocol's
  addresses differ and that the nullifier registry is readable and has room for the entries.
\<close>

theorem burn_paid_once:
  assumes "reserved_distinct H"
    and "nullifier_decode H (stored s (burn_nullifier_registry_address H)) = Inr m" "Suc (bt_len m) + length is < 2 ^ 32"
    and "amt \<noteq> 0" "apply_intent H (L2BurnProven b r amt p asset c) s = Ok t"
    and "amt' \<noteq> 0" "burn_id H c' b' r' amt' p' asset' = burn_id H c b r amt p asset"
  shows "\<not> succeeds (apply_intent H (L2BurnProven b' r' amt' p' asset' c') (run_intents H is t))"
proof -
  have ok: "succeeds (apply_l2_burn H b r amt p asset c s)" and t: "t = out_state (apply_l2_burn H b r amt p asset c s)"
    using assms(5) by (simp_all add: succeeds_def)
  have "burn_id_claimed H (run_intents H is t) (burn_id H c b r amt p asset)"
    unfolding t using burn_gates [OF ok assms(4,2)] assms(1,2,3,4) by (intro burn_claimed_after) auto
  then show ?thesis
    using claimed_burn_fails [of amt' H _ c' b' r' p' asset'] assms(6,7) by simp
qed

text \<open>
  C33.  A proven burn that meets a short escrow is lost: it fails without paying anything, its
  identifier is recorded as claimed all the same, and the same burn is refused ever after, also once
  the escrow has been refilled.  The arm writes the nullifier before it debits the escrow.
\<close>

theorem failed_burn_is_lost:
  assumes "reserved_distinct H" "amt \<noteq> 0" "\<not> is_reserved H r" "asset_gate H s asset = Inr ()"
    and "l2_state_root_record H s (c, b) \<noteq> None" "balance s (bridge_escrow_address H) < amt"
    and "nullifier_decode H (stored s (burn_nullifier_registry_address H)) = Inr m"
    and "bt_get m (burn_id H c b r amt p asset) = None" "Suc (bt_len m) + length is < 2 ^ 32"
  shows "\<exists>e t. apply_intent H (L2BurnProven b r amt p asset c) s = Err e t \<and> balances t = balances s \<and>
    burn_id_claimed H t (burn_id H c b r amt p asset) \<and>
    \<not> succeeds (apply_intent H (L2BurnProven b r amt p asset c) (run_intents H is t))"
proof -
  let ?r = "apply_l2_burn H b r amt p asset c s"
  have claimed: "burn_id_claimed H (run_intents H js (out_state ?r)) (burn_id H c b r amt p asset)" if "length js \<le> length is" for js
    using that assms by (intro burn_claimed_after) auto
  have "\<exists>e t. ?r = Err e t \<and> balances t = balances s"
    using assms(2-8) by (auto simp: apply_l2_burn_def bt_contains_get debit_unchecked_def Let_def)
  then show ?thesis
    using claimed [of "[]"] claimed [of "is"] claimed_burn_fails [OF assms(2)] by auto
qed

section \<open>Protocol accounts\<close>

text \<open>The intents a user submits to move coins out of an account the intent names.\<close>

fun user_debit :: "Intent \<Rightarrow> bool" where
  "user_debit (Transfer frm to amount) = True"
| "user_debit (Delegate frm i amount) = True"
| "user_debit (L1Lock user_address l2_recipient amount asset) = True"
| "user_debit (DepositSequencerBond frm amount) = True"
| "user_debit (DepositSafetyBond frm amount) = True"
| "user_debit (DepositAuthorityStake frm i amount) = True"
| "user_debit (DepositValidatorStake frm i amount) = True"
| "user_debit _ = False"

lemma debited: "balance (out_state (apply_intent H i s)) a < balance s a \<Longrightarrow> a \<in> debits H i"
  using apply_intent_confined [of H i s] by (auto simp: confined_def not_le [symmetric])

lemma user_debits_reserved:
  "user_debit i \<Longrightarrow> is_reserved H a \<Longrightarrow> a \<in> debits H i \<Longrightarrow> \<exists>rcp amt asset. i = L1Lock a rcp amt asset"
  by (cases i rule: user_debit.cases) (auto split: if_splits)

lemma lock_moves:
  assumes "coin_supply s < 2 ^ 128" "amt \<noteq> 0" "amt \<le> balance s a" "a \<noteq> bridge_escrow_address H"
  obtains t where "apply_intent H (L1Lock a rcp amt None) s = Ok t"
    "unat (balance t a) = unat (balance s a) - unat amt"
    "unat (balance t (bridge_escrow_address H)) = unat (balance s (bridge_escrow_address H)) + unat amt"
proof -
  have "succeeds (and_then (debit_unchecked a amt s) (credit_unchecked (bridge_escrow_address H) amt))"
    using assms by (intro succeeds_move)
  then obtain u t where "debit_unchecked a amt s = Ok u" "credit_unchecked (bridge_escrow_address H) amt u = Ok t"
    by (auto simp: succeeds_def and_then_Ok_iff)
  note moved = this debit_OkD(1) [OF this(1), of a] debit_OkD(1) [OF this(1), of "bridge_escrow_address H"]
    credit_OkD(1) [OF this(2), of a] credit_OkD(1) [OF this(2), of "bridge_escrow_address H"]
  show ?thesis
    by (rule that [of t]) (use moved assms(2,4) in \<open>simp_all add: apply_l1_lock_def asset_gate_def\<close>)
qed

text \<open>
  C34.  Protocol-owned accounts (pools, bonds, treasury, escrow).  Seven intents debit an account that the
  intent itself names as the payer (\<open>user_debit\<close>; withdrawals, burns and ejections, which pay out of a pool, are not
  among them).  None of these other than a bridge lock lowers the balance of a reserved account.  A bridge lock does: its arm has no
  reserved-address gate, so a lock that names a funded pool as the locking user succeeds and moves the
  pool's coins into the escrow.
\<close>

theorem lock_debits_reserved:
  assumes "coin_supply s < 2 ^ 128" "is_reserved H a" "a \<noteq> bridge_escrow_address H" "amt \<noteq> 0" "amt \<le> balance s a"
  shows "(\<exists>t. apply_intent H (L1Lock a rcp amt None) s = Ok t \<and>
      unat (balance t a) = unat (balance s a) - unat amt \<and>
      unat (balance t (bridge_escrow_address H)) = unat (balance s (bridge_escrow_address H)) + unat amt) \<and>
    (\<forall>i. user_debit i \<longrightarrow> balance (out_state (apply_intent H i s)) a < balance s a \<longrightarrow>
       (\<exists>rcp amt asset. i = L1Lock a rcp amt asset))"
proof (rule conjI)
  show "\<exists>t. apply_intent H (L1Lock a rcp amt None) s = Ok t \<and>
      unat (balance t a) = unat (balance s a) - unat amt \<and>
      unat (balance t (bridge_escrow_address H)) = unat (balance s (bridge_escrow_address H)) + unat amt"
    using lock_moves [OF assms(1,4,5,3), of rcp] by metis
qed (use user_debits_reserved [OF _ assms(2)] debited in blast)

section \<open>Examples\<close>

text \<open>A substrate with one committed batch and \<open>e\<close> coins in the bridge escrow.\<close>

definition demo_bridge :: "Balance \<Rightarrow> InMemorySubstrate" where
  "demo_bridge e =
     write_bytes_unchecked (l2_registry_address demo_blake)
       (l2_encode (l2_registry_default\<lparr>state_roots := bt_insert (7, 1)
          \<lparr>l2_state_root = 5, l2_committed_at_l1_height = 3, l2_vk_hash = 9, l2_da_commitment = 4\<rparr> bt_empty\<rparr>))
       (substrate_new\<lparr>balances := bt_insert (bridge_escrow_address demo_blake) e bt_empty\<rparr>)"

lemma stored_new [simp]: "stored substrate_new a = []"
  by (simp add: substrate_new_def stored_def read_bytes_def)

lemma demo_user: "\<not> is_reserved demo_blake 1" "\<not> is_reserved demo_blake 2"
  by (rule demo_not_reserved, simp add: be_bytes_numeral)+

lemma demo_bridge_facts:
  "l2_state_root_record demo_blake (demo_bridge e) (7, 1) \<noteq> None"
  "nullifier_decode demo_blake (stored (demo_bridge e) (burn_nullifier_registry_address demo_blake)) = Inr bt_empty"
  "balance (demo_bridge e) (bridge_escrow_address demo_blake) = e"
  "coin_supply (demo_bridge e) = unat e"
proof -
  let ?reg = "l2_registry_default\<lparr>state_roots := bt_insert (7, 1)
     \<lparr>l2_state_root = 5, l2_committed_at_l1_height = 3, l2_vk_hash = 9, l2_da_commitment = 4\<rparr> bt_empty\<rparr>"
  have "l2_decode demo_blake (l2_encode ?reg) = Inr ?reg"
    by (rule l2_round_trip) (simp_all add: l2_registry_default_def bt_len_insert)
  then show "l2_state_root_record demo_blake (demo_bridge e) (7, 1) \<noteq> None"
    by (simp add: l2_state_root_record_def l2_registry_def demo_bridge_def bt.get_insert)
  have "burn_nullifier_registry_address demo_blake \<noteq> l2_registry_address demo_blake"
    using registries_distinct [OF demo_reserved_distinct] by auto
  then show "nullifier_decode demo_blake (stored (demo_bridge e) (burn_nullifier_registry_address demo_blake)) = Inr bt_empty"
    by (simp add: demo_bridge_def nullifier_decode_def decode_fixed_def)
  show "balance (demo_bridge e) (bridge_escrow_address demo_blake) = e"
    by (simp add: demo_bridge_def balance_def bt.get_insert write_bytes_unchecked_def)
  show "coin_supply (demo_bridge e) = unat e"
    using bt_sum_insert [of unat "bridge_escrow_address demo_blake" e bt_empty]
    by (simp add: demo_bridge_def coin_supply_def write_bytes_unchecked_def)
qed

theorem burn_paid_once_witness:
  "\<exists>t. apply_intent demo_blake (L2BurnProven 1 2 30 [8] None 7) (demo_bridge 100) = Ok t \<and>
    \<not> succeeds (apply_intent demo_blake (L2BurnProven 1 2 30 [8] None 7) (run_intents demo_blake [L1Lock 2 9 30 None] t))"
proof -
  have "succeeds (apply_intent demo_blake (L2BurnProven 1 2 30 [8] None 7) (demo_bridge 100))"
    using demo_bridge_facts [of 100] demo_user
    by (auto simp: apply_l2_burn_def asset_gate_def bt_contains_get Let_def intro!: succeeds_move)
  then obtain t where t: "apply_intent demo_blake (L2BurnProven 1 2 30 [8] None 7) (demo_bridge 100) = Ok t"
    by (auto simp: succeeds_def)
  have "\<not> succeeds (apply_intent demo_blake (L2BurnProven 1 2 30 [8] None 7) (run_intents demo_blake [L1Lock 2 9 30 None] t))"
    by (rule burn_paid_once [OF demo_reserved_distinct demo_bridge_facts(2) _ _ t]) simp_all
  with t show ?thesis
    by blast
qed

theorem failed_burn_is_lost_witness:
  "\<exists>e t. apply_intent demo_blake (L2BurnProven 1 2 30 [8] None 7) (demo_bridge 10) = Err e t \<and>
    balances t = balances (demo_bridge 10) \<and> burn_id_claimed demo_blake t (burn_id demo_blake 7 1 2 30 [8] None) \<and>
    \<not> succeeds (apply_intent demo_blake (L2BurnProven 1 2 30 [8] None 7)
       (run_intents demo_blake [GenesisAllocation [(1, 500)], L1Lock 1 9 500 None] t))"
  by (rule failed_burn_is_lost [OF demo_reserved_distinct _ demo_user(2) _ demo_bridge_facts(1) _ demo_bridge_facts(2)])
    (simp_all add: demo_bridge_facts asset_gate_def)

lemma demo_treasury:
  "is_reserved demo_blake (treasury_address demo_blake)" "treasury_address demo_blake \<noteq> bridge_escrow_address demo_blake"
  using demo_reserved_distinct unfolding reserved_distinct_def is_reserved_iff reserved_addresses_def by simp_all

theorem lock_debits_reserved_witness:
  "\<exists>t. apply_intent demo_blake (L1Lock (treasury_address demo_blake) 3 40 None)
      (substrate_new\<lparr>balances := bt_insert (treasury_address demo_blake) 50 bt_empty\<rparr>) = Ok t \<and>
    unat (balance t (treasury_address demo_blake)) = 10"
proof -
  let ?s = "substrate_new\<lparr>balances := bt_insert (treasury_address demo_blake) 50 bt_empty\<rparr>"
  have "coin_supply ?s < 2 ^ 128"
    using bt_sum_insert [of unat "treasury_address demo_blake" "50 :: Balance" bt_empty] by (simp add: coin_supply_def)
  moreover have bal: "balance ?s (treasury_address demo_blake) = 50"
    by (simp add: balance_def bt.get_insert)
  ultimately obtain t where "apply_intent demo_blake (L1Lock (treasury_address demo_blake) 3 40 None) ?s = Ok t"
    "unat (balance t (treasury_address demo_blake)) = unat (50 :: Balance) - unat (40 :: Balance)"
    using lock_debits_reserved [of ?s demo_blake "treasury_address demo_blake" 40 3] demo_treasury by auto
  then show ?thesis
    by auto
qed

end
