(* ===== verification/Registry_Safety.thy ===== *)
theory Registry_Safety
  imports Ledger_Safety
begin

text \<open>
  What the substrate guarantees about its registries: no sequence of intents makes a registry
  unreadable, every slot, obligation, offence and epoch moves in one direction only, and each is
  settled at most once.  The proofs follow the registry machines of \<open>Substrate_Registries\<close>.
\<close>

section \<open>Readable registries\<close>

definition decodes :: "nat \<Rightarrow> ('r \<Rightarrow> nat) \<Rightarrow> ExecutionError + 'r \<Rightarrow> bool" where
  "decodes n sz r = (case r of Inl _ \<Rightarrow> False | Inr m \<Rightarrow> sz m \<le> n)"

text \<open>Every registry of \<open>s\<close> decodes, and has at most \<open>n\<close> entries.\<close>

definition registries_ok :: "hasher \<Rightarrow> nat \<Rightarrow> InMemorySubstrate \<Rightarrow> bool" where
  "registries_ok H n s \<longleftrightarrow>
     decodes n bt_len (authority_decode H (stored s (authority_registry_address H))) \<and>
     decodes n bt_len (validator_decode H (stored s (validator_registry_address H))) \<and>
     decodes n bt_len (decode_map H (stored s (force_include_registry_address H))) \<and>
     decodes n bt_len (equivocation_decode H (stored s (equivocation_registry_address H))) \<and>
     decodes n bt_len (ejection_decode H (stored s (ejection_registry_address H))) \<and>
     decodes n bt_len (nullifier_decode H (stored s (burn_nullifier_registry_address H))) \<and>
     decodes n bt_len (delegation_decode H (stored s (validator_delegation_registry_address H))) \<and>
     decodes n asset_size (asset_decode H (stored s (asset_registry_address H))) \<and>
     decodes n l2_size (l2_decode H (stored s (l2_registry_address H))) \<and>
     decodes n (\<lambda>_. 0) (inflation_decode H (stored s (inflation_registry_address H))) \<and>
     decodes n (\<lambda>_. 0) (rewards_decode H (stored s (rewards_distribution_registry_address H)))"

fun corrupt :: "ExecutionError \<Rightarrow> bool" where
  "corrupt (CorruptStateRecord addr reason) = True"
| "corrupt _ = False"

definition clean :: "result \<Rightarrow> bool" where
  "clean r \<longleftrightarrow> (\<forall>e t. r = Err e t \<longrightarrow> \<not> corrupt e)"

named_theorems clean_rules \<open>introduction rules of \<open>clean\<close>\<close>

lemma decodes_iff: "decodes n sz r \<longleftrightarrow> (\<exists>m. r = Inr m \<and> sz m \<le> n)"
  by (auto simp: decodes_def split: sum.split)

context registry_machine
begin

lemma machine_decodes:
  assumes "reserved_distinct H" "decodes n entries (decode H (stored s (addr H)))" "n + length is < 2 ^ 32"
  shows "decodes (n + length is) entries (decode H (stored (run_intents H is s) (addr H)))"
proof -
  obtain m where m: "decode H (stored s (addr H)) = Inr m" "entries m \<le> n"
    using assms(2) by (auto simp: decodes_iff)
  then have "\<exists>m'. decode H (stored (run_intents H is s) (addr H)) = Inr m' \<and> step\<^sup>*\<^sup>* m m' \<and> entries m' \<le> entries m + length is"
    using assms(3) by (intro machine_trace assms(1)) simp_all
  with m(2) show ?thesis
    by (auto simp: decodes_iff)
qed

end

lemma registries_ok_trace:
  assumes "reserved_distinct H" "registries_ok H n s" "n + length is < 2 ^ 32"
  shows "registries_ok H (n + length is) (run_intents H is s)"
  using assms unfolding registries_ok_def
  by (intro conjI auth_machine.machine_decodes val_machine.machine_decodes obligation_machine.machine_decodes
      equivocation_machine.machine_decodes ejection_machine.machine_decodes nullifier_machine.machine_decodes
      delegation_machine.machine_decodes asset_machine.machine_decodes l2_machine.machine_decodes
      inflation_machine.machine_decodes rewards_machine.machine_decodes; simp only:)

lemma registries_ok_new: "registries_ok H 0 substrate_new"
  by (simp add: registries_ok_def decodes_def authority_decode_def validator_decode_def slot_decode_def decode_map_def
      equivocation_decode_def ejection_decode_def nullifier_decode_def delegation_decode_def decode_fixed_def
      asset_decode_def asset_size_def l2_decode_def l2_size_def l2_registry_default_def inflation_decode_def rewards_decode_def)

lemma clean_not_corrupt: "clean r \<Longrightarrow> r \<noteq> Err (CorruptStateRecord addr reason) t"
  using corrupt.simps(1) unfolding clean_def by blast

lemma clean_Ok [clean_rules]: "clean (Ok s)"
  by (simp add: clean_def)

lemma clean_Err [clean_rules]: "\<not> corrupt e \<Longrightarrow> clean (Err e s)"
  by (simp add: clean_def)

lemma clean_try [clean_rules]:
  "(\<And>e. r = Inl e \<Longrightarrow> \<not> corrupt e) \<Longrightarrow> (\<And>a. r = Inr a \<Longrightarrow> clean (k a)) \<Longrightarrow> clean (try_value r s k)"
  by (cases r) (auto simp: clean_def)

lemma clean_if [clean_rules]: "(b \<Longrightarrow> clean x) \<Longrightarrow> (\<not> b \<Longrightarrow> clean y) \<Longrightarrow> clean (if b then x else y)"
  by simp

lemma clean_option [clean_rules]:
  "(x = None \<Longrightarrow> clean r) \<Longrightarrow> (\<And>a. x = Some a \<Longrightarrow> clean (k a)) \<Longrightarrow> clean (case x of None \<Rightarrow> r | Some a \<Rightarrow> k a)"
  by (cases x) simp_all

lemma clean_sum [clean_rules]:
  "(\<And>a. x = Inl a \<Longrightarrow> clean (f a)) \<Longrightarrow> (\<And>a. x = Inr a \<Longrightarrow> clean (k a)) \<Longrightarrow>
   clean (case x of Inl a \<Rightarrow> f a | Inr a \<Rightarrow> k a)"
  by (cases x) simp_all

lemma clean_pair [clean_rules]: "(\<And>a b. clean (f a b)) \<Longrightarrow> clean (case x of (a, b) \<Rightarrow> f a b)"
  by (cases x) simp

lemma clean_then [clean_rules]: "clean m \<Longrightarrow> (\<And>t. clean (k t)) \<Longrightarrow> clean (and_then m k)"
  by (cases m) (auto simp: clean_def)

lemma clean_map_error [clean_rules]:
  "clean m \<Longrightarrow> (\<And>e. corrupt (f e) \<longleftrightarrow> corrupt e) \<Longrightarrow> clean (case m of Ok t \<Rightarrow> Ok t | Err e t \<Rightarrow> Err (f e) t)"
  by (cases m) (simp_all add: clean_def)

lemma corrupt_balance_error [simp]: "corrupt (balance_error e) \<longleftrightarrow> corrupt e"
  by (cases e) simp_all

lemma clean_rollback: "clean m \<Longrightarrow> clean (rollback m s)"
  by (cases m) (simp_all add: clean_def)

lemma clean_credit [clean_rules]: "clean (credit_unchecked a amt s)"
  by (auto simp: credit_unchecked_def clean_def outcome_simps split: if_splits)

lemma clean_debit [clean_rules]: "clean (debit_unchecked a amt s)"
  by (auto simp: debit_unchecked_def clean_def Let_def split: if_splits)

lemma clean_credit_all [clean_rules]: "clean (credit_all cs s)"
  by (induction cs arbitrary: s) (auto intro!: clean_rules)

lemma sum_credits_clean: "sum_credits a t cs = Inl e \<Longrightarrow> \<not> corrupt e"
  by (induction cs arbitrary: t) (auto simp: outcome_simps)

lemma clean_atomic [clean_rules]:
  "clean (credit_many_atomic cs s)" "clean (drain_and_credit_atomic a cs s)" "clean (transfer_internal a b amt s)"
  unfolding credit_many_rollback drain_and_credit_rollback transfer_internal_rollback
  by (intro clean_rules clean_rollback sum_credits_clean | assumption)+

lemma clean_split [clean_rules]: "clean (split_slash H amt s)"
  unfolding split_slash_def Let_def by (intro clean_rules)

lemma clean_bounty [clean_rules]: "clean (pay_bounty H bounty a s)"
  unfolding pay_bounty_def Let_def by (intro clean_rules)

lemma asset_gate_clean: "asset_gate H s asset = Inl e \<Longrightarrow> \<not> corrupt e"
  by (auto simp: asset_gate_def assert_bridge_asset_active_def outcome_simps split: option.splits if_splits)

lemma registries_okE:
  assumes "registries_ok H n s"
  obtains ma mv mo meq mej mn md mas ml mi mr where
    "authority_decode H (stored s (authority_registry_address H)) = Inr ma"
    "validator_decode H (stored s (validator_registry_address H)) = Inr mv"
    "decode_map H (stored s (force_include_registry_address H)) = Inr mo"
    "equivocation_decode H (stored s (equivocation_registry_address H)) = Inr meq"
    "ejection_decode H (stored s (ejection_registry_address H)) = Inr mej"
    "nullifier_decode H (stored s (burn_nullifier_registry_address H)) = Inr mn"
    "delegation_decode H (stored s (validator_delegation_registry_address H)) = Inr md"
    "asset_decode H (stored s (asset_registry_address H)) = Inr mas"
    "l2_decode H (stored s (l2_registry_address H)) = Inr ml"
    "inflation_decode H (stored s (inflation_registry_address H)) = Inr mi"
    "rewards_decode H (stored s (rewards_distribution_registry_address H)) = Inr mr"
  using assms unfolding registries_ok_def decodes_iff by blast

lemma apply_intent_clean:
  assumes "registries_ok H n s"
  shows "clean (apply_intent H i s)"
  using assms
proof (rule registries_okE)
  fix ma mv mo meq mej mn md mas ml mi mr
  assume decs: "authority_decode H (stored s (authority_registry_address H)) = Inr ma"
    "validator_decode H (stored s (validator_registry_address H)) = Inr mv"
    "decode_map H (stored s (force_include_registry_address H)) = Inr mo"
    "equivocation_decode H (stored s (equivocation_registry_address H)) = Inr meq"
    "ejection_decode H (stored s (ejection_registry_address H)) = Inr mej"
    "nullifier_decode H (stored s (burn_nullifier_registry_address H)) = Inr mn"
    "delegation_decode H (stored s (validator_delegation_registry_address H)) = Inr md"
    "asset_decode H (stored s (asset_registry_address H)) = Inr mas"
    "l2_decode H (stored s (l2_registry_address H)) = Inr ml"
    "inflation_decode H (stored s (inflation_registry_address H)) = Inr mi"
    "rewards_decode H (stored s (rewards_distribution_registry_address H)) = Inr mr"
  note arms = ring_arms fund_arms l2_arms apply_l2_burn_def apply_eject_sequencer_def last_rewards_def Let_def
    inflation_decode_def [symmetric] rewards_decode_def [symmetric]
  show ?thesis
  proof (induction i)
    case (SlashSequencer reason h)
    show ?case
      by (cases reason; simp only: apply_intent.simps apply_slash.simps apply_slash_missed_def apply_slash_offense_def Let_def decs;
          intro clean_rules; simp add: outcome_simps)
  qed (simp only: apply_intent.simps arms decs, intro clean_rules; (simp add: outcome_simps asset_gate_clean))+
qed

text \<open>
  C4.  The registries never become unreadable: from a state whose registries decode (the empty
  genesis state is one), any sequence of intents leaves all eleven registries readable, and no intent
  applied afterwards fails with \<open>CorruptStateRecord\<close>, as long as fewer than \<open>2^32\<close> entries have been
  written (the width of the count field).
\<close>

theorem registries_never_corrupt:
  assumes "reserved_distinct H" "registries_ok H n s" "n + length is < 2 ^ 32"
  shows "registries_ok H (n + length is) (run_intents H is s) \<and>
    (\<forall>i addr reason t. apply_intent H i (run_intents H is s) \<noteq> Err (CorruptStateRecord addr reason) t)"
  using registries_ok_trace [OF assms] clean_not_corrupt [OF apply_intent_clean [OF registries_ok_trace [OF assms]]]
  by blast

theorem registries_never_corrupt_witness:
  "registries_ok demo_blake 2 (run_intents demo_blake [AdmitAuthority 3 10 [1] [2], SetL2VerifyingKey 7 8 9] substrate_new)"
  using registries_never_corrupt [OF demo_reserved_distinct registries_ok_new,
      of "[AdmitAuthority 3 10 [1] [2], SetL2VerifyingKey 7 8 9]"]
  by (simp add: numeral_2_eq_2 [symmetric] del: run_intents.simps)

section \<open>Slots\<close>

text \<open>What may become of a slot: its keys and declared stake stay; once it has left \<open>active\<close> it
  never returns, its exit height is fixed and its deposit only shrinks; ejection is final.\<close>

definition slot_successor :: "'s \<Rightarrow> 's \<Rightarrow> 's slot_record \<Rightarrow> 's slot_record \<Rightarrow> bool" where
  "slot_successor active ejected r r' \<longleftrightarrow>
     sr_mldsa_public_key r' = sr_mldsa_public_key r \<and> sr_bls_public_key r' = sr_bls_public_key r \<and>
     sr_stake_suwappu r' = sr_stake_suwappu r \<and>
     (sr_status r = active \<or>
      sr_status r' \<in> {sr_status r, ejected} \<and> sr_exit_block_height r' = sr_exit_block_height r \<and>
      sr_deposited_stake r' \<le> sr_deposited_stake r)"

lemma slot_move_successor:
  assumes "slot_move active exiting ejected r r'"
  shows "slot_successor active ejected r r'"
  using assms by cases (auto simp: slot_successor_def)

lemma slot_successor_refl: "slot_successor active ejected r r"
  by (simp add: slot_successor_def)

lemma slot_successor_trans:
  "slot_successor active ejected r r' \<Longrightarrow> slot_successor active ejected r' r'' \<Longrightarrow> active \<noteq> ejected \<Longrightarrow>
   slot_successor active ejected r r''"
  by (auto simp: slot_successor_def)

lemma ring_step_successor:
  assumes "ring_step active exiting ejected m m'" "bt_get m k = Some r1" "slot_successor active ejected r r1" "active \<noteq> ejected"
  shows "\<exists>r'. bt_get m' k = Some r' \<and> slot_successor active ejected r r'"
  using assms(1)
proof cases
  case (ring_move k' r2 r3)
  then show ?thesis
    using assms(2-4) slot_successor_trans [OF _ slot_move_successor] by (auto simp: bt.get_insert)
qed (use assms(2,3) in \<open>auto simp: bt.get_insert\<close>)

text \<open>A registry that is a map is read through \<open>lookup_registry\<close>: what every step keeps of an entry is
  kept of what the lookup returns.\<close>

locale map_machine = registry_machine addr decode bt_len step
  for addr and decode :: "hasher \<Rightarrow> bytes \<Rightarrow> ExecutionError + ('k::linorder, 'v) btmap" and step +
  assumes decode_nil: "decode H [] = Inr bt_empty"
begin

lemma lookup_iff:
  "lookup_registry (decode H) s (addr H) k = Some v \<longleftrightarrow>
   (\<exists>m. decode H (stored s (addr H)) = Inr m \<and> bt_get m k = Some v)"
  using decode_nil [of H] by (auto simp: lookup_registry_def stored_def split: option.splits sum.splits)

lemma lookup_history:
  assumes "reserved_distinct H" "decodes n bt_len (decode H (stored s (addr H)))" "n + length is < 2 ^ 32"
    and "lookup_registry (decode H) s (addr H) k = Some r" "P r"
    and keep: "\<And>m m' r. step m m' \<Longrightarrow> bt_get m k = Some r \<Longrightarrow> P r \<Longrightarrow> \<exists>r'. bt_get m' k = Some r' \<and> P r'"
  shows "\<exists>r'. lookup_registry (decode H) (run_intents H is s) (addr H) k = Some r' \<and> P r'"
proof -
  obtain m where m: "decode H (stored s (addr H)) = Inr m" "bt_get m k = Some r"
    using assms(4) by (auto simp: lookup_iff)
  have "\<exists>m'. decode H (stored (run_intents H is s) (addr H)) = Inr m' \<and> (\<exists>r'. bt_get m' k = Some r' \<and> P r')"
    using m assms(2,3,5) keep by (intro machine_invariant [OF assms(1) m(1)]) (auto simp: decodes_def)
  then show ?thesis
    by (auto simp: lookup_iff)
qed

end

interpretation auth_lookup: map_machine authority_registry_address authority_decode auth_ring_step
  by unfold_locales (simp add: authority_decode_def slot_decode_def)

interpretation val_lookup: map_machine validator_registry_address validator_decode val_ring_step
  by unfold_locales (simp add: validator_decode_def slot_decode_def)

interpretation obligation_lookup: map_machine force_include_registry_address decode_map ob_step
  by unfold_locales (simp add: decode_map_def)

interpretation equivocation_lookup: map_machine equivocation_registry_address equivocation_decode grow_step
  by unfold_locales (simp add: equivocation_decode_def decode_fixed_def)

interpretation ejection_lookup: map_machine ejection_registry_address ejection_decode grow_step
  by unfold_locales (simp add: ejection_decode_def decode_fixed_def)

text \<open>
  C9.  The lifecycle of an authority or validator slot over any sequence of intents: a slot is never
  deleted, its keys and declared stake never change, and once it has left the active state it never
  becomes active again, its exit height (from which the withdrawal cooldown counts) is never moved,
  its deposit only shrinks, and an ejected slot stays ejected.
\<close>

theorem slot_lifecycle:
  assumes "reserved_distinct H" "registries_ok H n s" "n + length is < 2 ^ 32"
  shows "(authority_record H s k = Some a \<longrightarrow>
      (\<exists>a'. authority_record H (run_intents H is s) k = Some a' \<and> slot_successor AuthActive AuthEjected a a')) \<and>
    (validator_record H s k = Some v \<longrightarrow>
      (\<exists>v'. validator_record H (run_intents H is s) k = Some v' \<and> slot_successor ValActive ValEjected v v'))"
  using assms unfolding authority_record_def validator_record_def registries_ok_def
  by (intro conjI impI auth_lookup.lookup_history [OF assms(1) _ assms(3)] val_lookup.lookup_history [OF assms(1) _ assms(3)])
    (auto intro: slot_successor_refl ring_step_successor)

section \<open>Obligations, offences and ejections\<close>

text \<open>The accountability event an intent settles: the registry it is recorded in and the key there.\<close>

datatype accountability = ObligationSettled | OffenceRecorded | SequencerEjected

fun settles :: "Intent \<Rightarrow> (accountability \<times> hash32) option" where
  "settles (MarkForceIncludeHonored i) = Some (ObligationSettled, i)"
| "settles (SlashSequencer MissedForceInclude h) = Some (ObligationSettled, h)"
| "settles (SlashSequencer EquivocationSlash h) = Some (OffenceRecorded, h)"
| "settles (SlashSequencer InvalidBatchSlash h) = Some (OffenceRecorded, h)"
| "settles (EjectSequencer i ejector) = Some (SequencerEjected, i)"
| "settles _ = None"

text \<open>When the event has been settled in \<open>s\<close>.\<close>

fun settled :: "hasher \<Rightarrow> InMemorySubstrate \<Rightarrow> accountability \<times> hash32 \<Rightarrow> bool" where
  "settled H s (ObligationSettled, k) = (\<exists>ob. force_include_obligation H s k = Some ob \<and> ob_status ob \<noteq> Pending)"
| "settled H s (OffenceRecorded, k) = (\<exists>r. equivocation_record H s k = Some r)"
| "settled H s (SequencerEjected, k) = (\<exists>r. sequencer_ejection H s k = Some r)"

lemma ob_step_settled:
  "ob_step m m' \<Longrightarrow> bt_get m k = Some ob \<Longrightarrow> ob_status ob \<noteq> Pending \<Longrightarrow> bt_get m' k = Some ob"
  by (cases rule: ob_step.cases) (auto simp: bt.get_insert)

lemma settled_forever:
  assumes "reserved_distinct H" "registries_ok H n s" "n + length is < 2 ^ 32" "settled H s key"
  shows "settled H (run_intents H is s) key"
proof (cases "(H, s, key)" rule: settled.cases)
  case (1 H' s' k)
  then show ?thesis
    using assms obligation_lookup.lookup_history [OF assms(1) _ assms(3), of s k _ "\<lambda>ob. ob_status ob \<noteq> Pending"] ob_step_settled
    by (fastforce simp: registries_ok_def force_include_obligation_def)
next
  case (2 H' s' k)
  then show ?thesis
    using assms equivocation_lookup.lookup_history [OF assms(1) _ assms(3), of s k _ "\<lambda>_. True"] grow_step_get
    by (fastforce simp: registries_ok_def equivocation_record_def)
next
  case (3 H' s' k)
  then show ?thesis
    using assms ejection_lookup.lookup_history [OF assms(1) _ assms(3), of s k _ "\<lambda>_. True"] grow_step_get
    by (fastforce simp: registries_ok_def sequencer_ejection_def)
qed

lemma settled_refused:
  assumes "settled H s key" "settles i = Some key"
  shows "\<not> succeeds (apply_intent H i s)"
  using assms(2,1)
  by (cases i rule: settles.cases)
    (auto simp: succeeds_def outcome_simps Let_def bt_contains_get
       force_include_obligation_def obligation_lookup.lookup_iff apply_mark_honored_def apply_slash_missed_def
       equivocation_record_def equivocation_lookup.lookup_iff apply_slash_offense_def
       sequencer_ejection_def ejection_lookup.lookup_iff apply_eject_sequencer_def split: if_splits)

text \<open>The coin movements that follow a registry write leave the registries alone.\<close>

lemma stored_tail:
  "and_then (debit_unchecked b amt w) (split_slash H amt) = Ok t \<Longrightarrow> stored t = stored w"
  "pay_bounty H bounty b w = Ok t \<Longrightarrow> stored t = stored w"
  "and_then (debit_unchecked b amt w) (\<lambda>s2. and_then (split_slash H amt s2) (\<lambda>s3.
     if c then pay_bounty H bounty d s3 else Ok s3)) = Ok t \<Longrightarrow> stored t = stored w"
proof -
  have keep: "stored t = stored w" if "r = Ok t" "confined UNIV {} w (out_state r)" for r
    using that confined_stored [OF that(2)] by auto
  show "and_then (debit_unchecked b amt w) (split_slash H amt) = Ok t \<Longrightarrow> stored t = stored w"
    by (erule keep) (intro confined_rules UNIV_I)
  show "pay_bounty H bounty b w = Ok t \<Longrightarrow> stored t = stored w"
    by (erule keep) (intro confined_rules UNIV_I)
  show "and_then (debit_unchecked b amt w) (\<lambda>s2. and_then (split_slash H amt s2) (\<lambda>s3.
     if c then pay_bounty H bounty d s3 else Ok s3)) = Ok t \<Longrightarrow> stored t = stored w"
    by (erule keep) (intro confined_rules UNIV_I)
qed

lemmas gate_simps = try_value_Ok_iff ok_or_Inr_iff

lemma mark_stores:
  "apply_mark_honored H k s = Ok t \<Longrightarrow> \<exists>m ob. decode_map H (stored s (force_include_registry_address H)) = Inr m \<and>
     stored t (force_include_registry_address H) = encode_map (bt_insert k (ob\<lparr>ob_status := Honored\<rparr>) m)"
  by (auto simp: apply_mark_honored_def gate_simps split: if_splits)

lemma slash_missed_stores:
  "apply_slash_missed H k s = Ok t \<Longrightarrow> \<exists>m ob. decode_map H (stored s (force_include_registry_address H)) = Inr m \<and>
     stored t (force_include_registry_address H) = encode_map (bt_insert k (ob\<lparr>ob_status := Slashed\<rparr>) m)"
  by (auto simp: apply_slash_missed_def gate_simps Let_def split: if_splits dest!: stored_tail(3))

lemma slash_offense_stores:
  "apply_slash_offense H kind k s = Ok t \<Longrightarrow> \<exists>m r. equivocation_decode H (stored s (equivocation_registry_address H)) = Inr m \<and>
     stored t (equivocation_registry_address H) = equivocation_encode (bt_insert k r m)"
  by (auto simp: apply_slash_offense_def gate_simps Let_def split: if_splits option.splits dest!: stored_tail(1))

lemma eject_sequencer_stores:
  "apply_eject_sequencer H k a s = Ok t \<Longrightarrow> \<exists>m r. ejection_decode H (stored s (ejection_registry_address H)) = Inr m \<and>
     stored t (ejection_registry_address H) = ejection_encode (bt_insert k r m)"
  by (auto simp: apply_eject_sequencer_def gate_simps Let_def split: if_splits dest!: stored_tail(2))

lemma obligation_settled_by:
  assumes "registries_ok H n s" "Suc n < 2 ^ 32" "decode_map H (stored s (force_include_registry_address H)) = Inr m"
    and "stored t (force_include_registry_address H) = encode_map (bt_insert k ob m)" "ob_status ob \<noteq> Pending"
  shows "settled H t (ObligationSettled, k)"
proof -
  have "Suc (bt_len m) < 2 ^ 32"
    using assms(1-3) by (auto simp: registries_ok_def decodes_def)
  then show ?thesis
    using obligation_map.store_insert [OF assms(3) any_entry_all(1)] assms(4,5)
    by (auto simp: force_include_obligation_def obligation_lookup.lookup_iff bt.get_insert)
qed

lemma offence_recorded_by:
  assumes "registries_ok H n s" "Suc n < 2 ^ 32" "equivocation_decode H (stored s (equivocation_registry_address H)) = Inr m"
    and "stored t (equivocation_registry_address H) = equivocation_encode (bt_insert k r m)"
  shows "settled H t (OffenceRecorded, k)"
proof -
  have "Suc (bt_len m) < 2 ^ 32"
    using assms(1-3) by (auto simp: registries_ok_def decodes_def)
  then show ?thesis
    using equivocation_map.store_insert [OF assms(3) any_entry_all(1)] assms(4)
    by (auto simp: equivocation_record_def equivocation_lookup.lookup_iff bt.get_insert)
qed

lemma ejection_recorded_by:
  assumes "registries_ok H n s" "Suc n < 2 ^ 32" "ejection_decode H (stored s (ejection_registry_address H)) = Inr m"
    and "stored t (ejection_registry_address H) = ejection_encode (bt_insert k r m)"
  shows "settled H t (SequencerEjected, k)"
proof -
  have "Suc (bt_len m) < 2 ^ 32"
    using assms(1-3) by (auto simp: registries_ok_def decodes_def)
  then show ?thesis
    using ejection_map.store_insert [OF assms(3) any_entry_all(1)] assms(4)
    by (auto simp: sequencer_ejection_def ejection_lookup.lookup_iff bt.get_insert)
qed

lemma settling_settles:
  assumes "registries_ok H n s" "Suc n < 2 ^ 32" "settles i = Some key" "apply_intent H i s = Ok t"
  shows "settled H t key"
  using assms(3,4)
  by (cases i rule: settles.cases)
    (auto dest!: mark_stores slash_missed_stores slash_offense_stores eject_sequencer_stores simp del: settled.simps
       intro: obligation_settled_by [OF assms(1,2)] offence_recorded_by [OF assms(1,2)] ejection_recorded_by [OF assms(1,2)])

text \<open>
  C10.  Sequencer accountability is settled once: after an obligation has been honoured or slashed, an
  offence slashed, or a sequencer ejected, every later intent that would settle the same event again
  is refused, whatever intents run in between; topping a bond up does not allow it to be slashed for
  the same event twice.
\<close>

theorem accountability_once:
  assumes "reserved_distinct H" "registries_ok H n s" "Suc (n + length is) < 2 ^ 32"
    and "settles i = Some key" "apply_intent H i s = Ok t" "settles i' = Some key"
  shows "\<not> succeeds (apply_intent H i' (run_intents H is t))"
proof -
  have "registries_ok H (Suc n) t"
    using registries_ok_trace [OF assms(1,2), of "[i]"] assms(3,5) by simp
  moreover have "settled H t key"
    using settling_settles [OF assms(2) _ assms(4,5)] assms(3) by simp
  ultimately have "settled H (run_intents H is t) key"
    using settled_forever [OF assms(1)] assms(3) by simp
  then show ?thesis
    using assms(6) by (rule settled_refused)
qed

section \<open>Epochs\<close>

fun ring_epoch :: "RewardsRing \<Rightarrow> u64 \<times> u64 \<Rightarrow> u64" where
  "ring_epoch AuthorityRing e = fst e"
| "ring_epoch ValidatorRing e = snd e"

lemma mint_epoch:
  assumes "apply_mint H epoch a v t s = Ok u"
  shows "inflation_decode H (stored u (inflation_registry_address H)) = Inr epoch"
    and "inflation_decode H (stored s (inflation_registry_address H)) = Inr prev \<Longrightarrow> prev < epoch"
  using assms unfolding apply_mint_def Let_def inflation_decode_def [symmetric]
  by (auto simp: outcome_simps inflation_decode_write not_le split: if_splits)

lemma rewards_epoch:
  assumes "apply_rewards H epoch ring cs s = Ok u"
  shows "\<exists>e. rewards_decode H (stored u (rewards_distribution_registry_address H)) = Inr e \<and> ring_epoch ring e = epoch"
    and "rewards_decode H (stored s (rewards_distribution_registry_address H)) = Inr prev \<Longrightarrow> ring_epoch ring prev < epoch"
  using assms unfolding apply_rewards_def last_rewards_def Let_def rewards_decode_def [symmetric]
  by (auto simp: outcome_simps rewards_decode_write not_le split: if_splits RewardsRing.splits option.splits prod.splits)

lemma epochs_le_ring: "epochs_le e e' \<Longrightarrow> x \<le> ring_epoch ring e \<Longrightarrow> x \<le> ring_epoch ring e'"
  by (cases ring) (auto simp: epochs_le_def)

text \<open>
  C35.  Inflation is minted, and each ring's rewards are paid, at most once per epoch and in increasing
  order of epochs: an intent that succeeds for an epoch is followed, after any other intents, only by
  successes for strictly later epochs (of the same ring, for rewards).
\<close>

theorem epochs_strictly_increase:
  assumes "reserved_distinct H" "length is < 2 ^ 32"
  shows "(apply_intent H (MintInflation e a v t) s = Ok u \<longrightarrow>
      succeeds (apply_intent H (MintInflation e' a' v' t') (run_intents H is u)) \<longrightarrow> e < e') \<and>
    (apply_intent H (DistributeRewards e ring cs) s = Ok u \<longrightarrow>
      succeeds (apply_intent H (DistributeRewards e' ring cs') (run_intents H is u)) \<longrightarrow> e < e')"
proof (intro conjI impI)
  assume "apply_intent H (MintInflation e a v t) s = Ok u"
  then have "\<exists>m'. inflation_decode H (stored (run_intents H is u) (inflation_registry_address H)) = Inr m' \<and> e \<le> m'"
    using assms(2) mint_epoch(1) [of H e a v t s u] by (intro inflation_machine.machine_invariant [OF assms(1), of _ e]) auto
  moreover assume "succeeds (apply_intent H (MintInflation e' a' v' t') (run_intents H is u))"
  ultimately show "e < e'"
    using mint_epoch(2) by (fastforce simp: succeeds_def)
next
  assume "apply_intent H (DistributeRewards e ring cs) s = Ok u"
  then obtain r where "rewards_decode H (stored u (rewards_distribution_registry_address H)) = Inr r" "ring_epoch ring r = e"
    using rewards_epoch(1) by fastforce
  then have "\<exists>m'. rewards_decode H (stored (run_intents H is u) (rewards_distribution_registry_address H)) = Inr m' \<and>
      e \<le> ring_epoch ring m'"
    using assms(2) epochs_le_ring by (intro rewards_machine.machine_invariant [OF assms(1), of _ r]) auto
  moreover assume "succeeds (apply_intent H (DistributeRewards e' ring cs') (run_intents H is u))"
  ultimately show "e < e'"
    using rewards_epoch(2) by (fastforce simp: succeeds_def)
qed

section \<open>Examples\<close>

text \<open>A substrate with one admitted authority.\<close>

definition demo_ring :: InMemorySubstrate where
  "demo_ring = run_intents demo_blake [AdmitAuthority 3 10 [1] [2]] substrate_new"

lemma demo_ring_facts:
  "registries_ok demo_blake 1 demo_ring" "authority_record demo_blake demo_ring 3 \<noteq> None"
proof -
  show "registries_ok demo_blake 1 demo_ring"
    using registries_ok_trace [OF demo_reserved_distinct registries_ok_new, of "[AdmitAuthority 3 10 [1] [2]]"]
    by (simp add: demo_ring_def del: run_intents.simps)
  have empty: "authority_decode demo_blake [] = Inr bt_empty"
    by (rule auth_lookup.decode_nil)
  have "authority_decode demo_blake (stored demo_ring (authority_registry_address demo_blake)) =
    Inr (bt_insert 3 \<lparr>sr_mldsa_public_key = [1], sr_bls_public_key = [2], sr_stake_suwappu = 10,
      sr_deposited_stake = 0, sr_exit_block_height = 0, sr_status = AuthActive\<rparr> bt_empty)"
    using auth_map.store_insert [OF empty, of 3 "\<lparr>sr_mldsa_public_key = [1], sr_bls_public_key = [2], sr_stake_suwappu = 10,
      sr_deposited_stake = 0, sr_exit_block_height = 0, sr_status = AuthActive\<rparr>"]
    by (simp add: demo_ring_def apply_admit_authority_def empty slot_size_defs slot_fits_def bt_contains_get)
  then show "authority_record demo_blake demo_ring 3 \<noteq> None"
    by (simp add: authority_record_def auth_lookup.lookup_iff bt.get_insert)
qed

theorem slot_lifecycle_witness:
  "\<exists>a a'. authority_record demo_blake demo_ring 3 = Some a \<and>
    authority_record demo_blake (run_intents demo_blake [ExitAuthority 3, EjectAuthority 3 0] demo_ring) 3 = Some a' \<and>
    slot_successor AuthActive AuthEjected a a'"
  using slot_lifecycle [OF demo_reserved_distinct demo_ring_facts(1), of "[ExitAuthority 3, EjectAuthority 3 0]" 3]
    demo_ring_facts(2)
  by (auto simp del: run_intents.simps)

theorem accountability_once_witness:
  "\<exists>t. apply_intent demo_blake (SlashSequencer EquivocationSlash 5) substrate_new = Ok t \<and>
    \<not> succeeds (apply_intent demo_blake (SlashSequencer InvalidBatchSlash 5) (run_intents demo_blake [DepositSafetyBond 1 50] t))"
proof -
  obtain t where t: "apply_intent demo_blake (SlashSequencer EquivocationSlash 5) substrate_new = Ok t"
    by (auto simp: apply_slash_offense_def equivocation_lookup.decode_nil balance_def substrate_new_def write_bytes_unchecked_def
        stored_def read_bytes_def)
  have "\<not> succeeds (apply_intent demo_blake (SlashSequencer InvalidBatchSlash 5) (run_intents demo_blake [DepositSafetyBond 1 50] t))"
    by (rule accountability_once [OF demo_reserved_distinct registries_ok_new _ _ t]) simp_all
  with t show ?thesis
    by blast
qed

theorem epochs_strictly_increase_witness:
  "\<exists>u. apply_intent demo_blake (MintInflation 4 1 1 1) substrate_new = Ok u \<and>
    \<not> succeeds (apply_intent demo_blake (MintInflation 4 1 1 1) (run_intents demo_blake [ExitValidator 2] u))"
proof -
  have "succeeds (apply_intent demo_blake (MintInflation 4 1 1 1) substrate_new)"
    by (auto simp: succeeds_def apply_mint_def credit_many_atomic_def substrate_new_def stored_def read_bytes_def balance_def
        outcome_simps Let_def checked_add_eq bt.get_insert)
  then obtain u where u: "apply_intent demo_blake (MintInflation 4 1 1 1) substrate_new = Ok u"
    by (auto simp: succeeds_def)
  then show ?thesis
    using epochs_strictly_increase [OF demo_reserved_distinct, of "[ExitValidator 2]" 4 1 1 1 substrate_new u 4 1 1 1] by auto
qed

end
