(* ===== verification/Stake_Safety.thy ===== *)
theory Stake_Safety
  imports Registry_Safety
begin

text \<open>
  The stake pools: the coins in a ring's pool cover what the ring's registry says has been deposited
  (and, for validators, delegated), so a withdrawal that passes its gates can always be paid.  The
  relation \<open>backing\<close> carries the cover through the arms that move stake, with rules in \<open>backing_rules\<close>.
\<close>

section \<open>Recorded claims on the pools\<close>

definition deposits ::
  "(bytes \<Rightarrow> ExecutionError + (u32, 's slot_record) btmap) \<Rightarrow> address \<Rightarrow> InMemorySubstrate \<Rightarrow> nat" where
  "deposits dec reg s = (case dec (stored s reg) of Inl _ \<Rightarrow> 0 | Inr m \<Rightarrow> bt_sum (\<lambda>r. unat (sr_deposited_stake r)) m)"

definition delegations :: "hasher \<Rightarrow> InMemorySubstrate \<Rightarrow> nat" where
  "delegations H s =
     (case delegation_decode H (stored s (validator_delegation_registry_address H)) of Inl _ \<Rightarrow> 0 | Inr m \<Rightarrow> bt_sum unat m)"

definition authority_backed :: "hasher \<Rightarrow> InMemorySubstrate \<Rightarrow> bool" where
  "authority_backed H s \<longleftrightarrow>
     deposits (authority_decode H) (authority_registry_address H) s \<le> unat (balance s (authority_stake_pool_address H))"

definition validator_backed :: "hasher \<Rightarrow> InMemorySubstrate \<Rightarrow> bool" where
  "validator_backed H s \<longleftrightarrow>
     deposits (validator_decode H) (validator_registry_address H) s + delegations H s
       \<le> unat (balance s (validator_stake_pool_address H))"

text \<open>Whatever other claims \<open>x\<close> there are on the pool, it still covers them.\<close>

definition backing ::
  "(bytes \<Rightarrow> ExecutionError + (u32, 's slot_record) btmap) \<Rightarrow> address \<Rightarrow> address \<Rightarrow> InMemorySubstrate \<Rightarrow> result \<Rightarrow> bool" where
  "backing dec reg pool s r \<longleftrightarrow>
     (\<forall>x. deposits dec reg s + x \<le> unat (balance s pool) \<longrightarrow>
          deposits dec reg (out_state r) + x \<le> unat (balance (out_state r) pool))"

named_theorems backing_rules \<open>introduction rules of \<open>backing\<close>\<close>

section \<open>Coin movements\<close>

lemma rollback_Ok_iff: "rollback m s = Ok t \<longleftrightarrow> m = Ok t"
  by (cases m) simp_all

lemma Ok_stored:
  "(\<And>a. stored (out_state r) a = stored s a) \<Longrightarrow> r = Ok t \<Longrightarrow> stored t = stored s"
  by auto

lemma transfer_OkD:
  assumes "transfer_internal a b amt s = Ok t" "a \<noteq> b"
  shows "unat (balance t a) + unat amt = unat (balance s a)" "unat (balance t b) = unat (balance s b) + unat amt"
    and "stored t = stored s"
proof -
  obtain u where u: "debit_unchecked a amt s = Ok u" "credit_unchecked b amt u = Ok t"
    using assms(1) by (auto simp: transfer_internal_rollback rollback_Ok_iff and_then_Ok_iff)
  show "unat (balance t a) + unat amt = unat (balance s a)"
    using debit_OkD(1) [OF u(1), of a] credit_OkD(1) [OF u(2), of a] assms(2) by simp
  show "unat (balance t b) = unat (balance s b) + unat amt"
    using debit_OkD(1) [OF u(1), of b] credit_OkD(1) [OF u(2), of b] assms(2) by simp
  show "stored t = stored s"
    using Ok_stored [OF stored_ledger(3) assms(1)] .
qed

lemma drain_slot_OkD:
  assumes "drain_slot H pool d s = Ok t" "pool \<noteq> insurance_pool_address H" "pool \<noteq> treasury_address H"
    and "unat d \<le> unat (balance s pool)"
  shows "unat (balance t pool) + unat d = unat (balance s pool)" "stored t = stored s"
proof -
  let ?d = "ucast d :: Balance"
  have d: "min ?d (balance s pool) = ?d" and ud: "unat ?d = unat d"
    using assms(4) by (simp_all add: min_def unat_le_iff unat_u64_as_u128)
  show "stored t = stored s"
    using Ok_stored [OF stored_ledger(6) assms(1)] .
  show "unat (balance t pool) + unat d = unat (balance s pool)"
  proof (cases "?d = 0")
    case True
    then show ?thesis
      using assms(1) ud by (simp add: drain_slot_def d)
  next
    case False
    let ?i = "?d * 70 div 100"
    obtain tot u where u: "sum_credits pool 0 [(insurance_pool_address H, ?i), (treasury_address H, ?d - ?i)] = Inr tot"
        "debit_unchecked pool tot s = Ok u" "credit_all [(insurance_pool_address H, ?i), (treasury_address H, ?d - ?i)] u = Ok t"
      using assms(1) False
      by (auto simp: drain_slot_def d Let_def drain_and_credit_rollback try_value_Ok_iff rollback_Ok_iff and_then_Ok_iff word_gt_0)
    have "unat tot = unat d"
      using sum_credits_unat [OF u(1)] insurance_share_le [of ?d] ud by (simp add: unat_minus_le unat_le_iff)
    moreover obtain v where "credit_unchecked (insurance_pool_address H) ?i u = Ok v"
        "credit_unchecked (treasury_address H) (?d - ?i) v = Ok t"
      using u(3) by (auto simp: and_then_Ok_iff)
    then have "unat (balance t pool) = unat (balance u pool)"
      using credit_OkD(1) [of _ _ u v pool] credit_OkD(1) [of _ _ v t pool] assms(2,3) by simp
    ultimately show ?thesis
      using debit_OkD(1) [OF u(2), of pool] by simp
  qed
qed

section \<open>Rules\<close>

lemma backing_Ok [backing_rules]: "backing dec reg pool s (Ok s)"
  by (simp add: backing_def)

lemma backing_Err [backing_rules]: "backing dec reg pool s (Err e s)"
  by (simp add: backing_def)

lemma backing_try [backing_rules]:
  "(\<And>a. r = Inr a \<Longrightarrow> backing dec reg pool s (k a)) \<Longrightarrow> backing dec reg pool s (try_value r s k)"
  by (cases r) (auto simp: backing_def)

lemma backing_if [backing_rules]:
  "(b \<Longrightarrow> backing dec reg pool s x) \<Longrightarrow> (\<not> b \<Longrightarrow> backing dec reg pool s y) \<Longrightarrow> backing dec reg pool s (if b then x else y)"
  by simp

lemma backing_then [backing_rules]:
  "undone s m \<Longrightarrow> (\<And>u. m = Ok u \<Longrightarrow> backing dec reg pool s (k u)) \<Longrightarrow> backing dec reg pool s (and_then m k)"
  by (cases m) (auto simp: backing_def undone_def)

lemma undone_drain_slot [undone_rules]: "undone s (drain_slot H pool d s)"
  unfolding drain_slot_def Let_def by (intro undone_rules)

context slot_store
begin

lemma deposits_store:
  assumes "dec (stored s reg) = Inr m" "Suc (bt_len m) < 2 ^ 32" "slot_fits k r"
  shows "deposits dec reg (write_bytes_unchecked reg (enc (bt_insert k r m)) u) +
      opt_weight (\<lambda>r. unat (sr_deposited_stake r)) (bt_get m k) =
    deposits dec reg s + unat (sr_deposited_stake r)"
  using store_insert [OF assms(1,3,2)] bt_sum_insert [of "\<lambda>r. unat (sr_deposited_stake r)" k r m] assms(1)
  by (simp add: deposits_def)

lemma stored_fits: "dec (stored s reg) = Inr m \<Longrightarrow> bt_get m k = Some r \<Longrightarrow> slot_fits k r"
  by (drule decoded_valid, elim conjE) (rule bt_all_get)

lemma backing_deposit:
  assumes "dec (stored s reg) = Inr m" "Suc (bt_len m) < 2 ^ 32" "bt_get m k = Some r"
    and "u64_try_from amt = Some delta" "checked_add (sr_deposited_stake r) delta = Some d"
    and "transfer_internal frm pool amt s = Ok u" "frm \<noteq> pool"
  shows "backing dec reg pool s (Ok (write_bytes_unchecked reg (enc (bt_insert k (r\<lparr>sr_deposited_stake := d\<rparr>) m)) u))"
  using deposits_store [OF assms(1,2), of k "r\<lparr>sr_deposited_stake := d\<rparr>" u] stored_fits [OF assms(1,3)]
    transfer_OkD(2) [OF assms(6,7)] checked_add_SomeD [OF assms(5)] u64_try_from_SomeD [OF assms(4)] assms(3)
  by (simp add: backing_def slot_fits_def)

lemma backing_withdraw:
  assumes "dec (stored s reg) = Inr m" "Suc (bt_len m) < 2 ^ 32" "bt_get m k = Some r"
    and "\<not> ucast (sr_deposited_stake r) < amt" "transfer_internal pool dst amt s = Ok u" "pool \<noteq> dst"
  shows "backing dec reg pool s
    (Ok (write_bytes_unchecked reg (enc (bt_insert k (r\<lparr>sr_deposited_stake := sr_deposited_stake r - ucast amt\<rparr>) m)) u))"
proof -
  have le: "unat amt \<le> unat (sr_deposited_stake r)"
    using assms(4) by (simp add: unat_less_iff unat_u64_as_u128)
  then have "unat (ucast amt :: u64) = unat amt"
    using unsigned_less [of "sr_deposited_stake r", where ?'a = nat] by (simp add: unsigned_ucast_eq take_bit_nat_eq_self)
  then have "unat (sr_deposited_stake r - ucast amt) = unat (sr_deposited_stake r) - unat amt"
    using le by (simp add: unat_minus_le unat_le_iff)
  then show ?thesis
    using deposits_store [OF assms(1,2), of k "r\<lparr>sr_deposited_stake := sr_deposited_stake r - ucast amt\<rparr>" u]
      stored_fits [OF assms(1,3)] transfer_OkD(1) [OF assms(5,6)] le assms(3)
    by (auto simp: backing_def slot_fits_def)
qed

lemma backing_eject:
  assumes "dec (stored s reg) = Inr m" "Suc (bt_len m) < 2 ^ 32" "bt_get m k = Some r"
    and "drain_slot H pool (sr_deposited_stake r) s = Ok u" "pool \<noteq> insurance_pool_address H" "pool \<noteq> treasury_address H"
  shows "backing dec reg pool s
    (Ok (write_bytes_unchecked reg (enc (bt_insert k (r\<lparr>sr_deposited_stake := 0, sr_status := st\<rparr>) m)) u))"
proof -
  have "unat (sr_deposited_stake r) \<le> deposits dec reg s"
    using bt_sum_ge [of "\<lambda>r. unat (sr_deposited_stake r)" m k] assms(1,3) by (simp add: deposits_def)
  then show ?thesis
    using deposits_store [OF assms(1,2), of k "r\<lparr>sr_deposited_stake := 0, sr_status := st\<rparr>" u]
      stored_fits [OF assms(1,3)] drain_slot_OkD(1) [OF assms(4-6)] assms(3)
    by (auto simp: backing_def slot_fits_def)
qed

lemma backing_exit:
  assumes "dec (stored s reg) = Inr m" "Suc (bt_len m) < 2 ^ 32" "bt_get m k = Some r"
  shows "backing dec reg pool s
    (Ok (write_bytes_unchecked reg (enc (bt_insert k (r\<lparr>sr_status := st, sr_exit_block_height := h\<rparr>) m)) s))"
  using deposits_store [OF assms(1,2), of k "r\<lparr>sr_status := st, sr_exit_block_height := h\<rparr>" s] stored_fits [OF assms(1,3)] assms(3)
  by (simp add: backing_def slot_fits_def)

lemma backing_admit:
  assumes "dec (stored s reg) = Inr m" "Suc (bt_len m) < 2 ^ 32" "\<not> bt_contains m k" "slot_fits k r" "sr_deposited_stake r = 0"
  shows "backing dec reg pool s (Ok (write_bytes_unchecked reg (enc (bt_insert k r m)) s))"
proof -
  have "bt_get m k = None"
    using assms(3) by (simp add: bt_contains_get)
  then have "deposits dec reg (write_bytes_unchecked reg (enc (bt_insert k r m)) s) = deposits dec reg s"
    using deposits_store [OF assms(1,2,4), of s] assms(5) by simp
  then show ?thesis
    by (simp add: backing_def)
qed

end

section \<open>Every intent keeps the pools covered\<close>

text \<open>No intent of the sequence locks a protocol account over the bridge (see \<open>lock_debits_reserved\<close>).\<close>

fun locks_reserved :: "hasher \<Rightarrow> Intent \<Rightarrow> bool" where
  "locks_reserved H (L1Lock user_address l2_recipient amount asset) = is_reserved H user_address"
| "locks_reserved H _ = False"

lemma backing_untouched:
  assumes "reg \<notin> writes H i" "pool \<notin> debits H i"
  shows "backing dec reg pool s (apply_intent H i s)"
proof -
  have "balance s pool \<le> balance (out_state (apply_intent H i s)) pool"
    using apply_intent_confined [of H i s] assms(2) by (simp add: confined_def)
  then show ?thesis
    using stored_untouched [OF assms(1), of s] by (auto simp: backing_def deposits_def unat_le_iff)
qed

lemma pools_distinct:
  "reserved_distinct H \<Longrightarrow> distinct
    [insurance_pool_address H, treasury_address H, bridge_escrow_address H, sequencer_bond_address H,
     safety_bond_address H, authority_stake_pool_address H, validator_stake_pool_address H,
     authority_rewards_pool_address H, validator_rewards_pool_address H]"
  unfolding reserved_distinct_def reserved_addresses_def by simp

lemma stake_pools_reserved:
  "is_reserved H (authority_stake_pool_address H)" "is_reserved H (validator_stake_pool_address H)"
  by (simp_all add: is_reserved_iff reserved_addresses_def)

lemma authority_pool_apart:
  "reserved_distinct H \<Longrightarrow>
   authority_stake_pool_address H \<noteq> insurance_pool_address H \<and>
   authority_stake_pool_address H \<noteq> treasury_address H \<and>
   authority_stake_pool_address H \<noteq> bridge_escrow_address H \<and>
   authority_stake_pool_address H \<noteq> sequencer_bond_address H \<and>
   authority_stake_pool_address H \<noteq> safety_bond_address H \<and>
   authority_stake_pool_address H \<noteq> validator_stake_pool_address H \<and>
   authority_stake_pool_address H \<noteq> authority_rewards_pool_address H \<and>
   authority_stake_pool_address H \<noteq> validator_rewards_pool_address H"
  using pools_distinct [of H] by (intro conjI notI; simp)

lemma validator_pool_apart:
  "reserved_distinct H \<Longrightarrow>
   validator_stake_pool_address H \<noteq> insurance_pool_address H \<and>
   validator_stake_pool_address H \<noteq> treasury_address H \<and>
   validator_stake_pool_address H \<noteq> bridge_escrow_address H \<and>
   validator_stake_pool_address H \<noteq> sequencer_bond_address H \<and>
   validator_stake_pool_address H \<noteq> safety_bond_address H \<and>
   validator_stake_pool_address H \<noteq> authority_stake_pool_address H \<and>
   validator_stake_pool_address H \<noteq> authority_rewards_pool_address H \<and>
   validator_stake_pool_address H \<noteq> validator_rewards_pool_address H"
  using pools_distinct [of H] by (intro conjI notI; simp)

lemma authority_pool_undebited:
  assumes "reserved_distinct H" "\<not> locks_reserved H i" "authority_registry_address H \<notin> writes H i"
  shows "authority_stake_pool_address H \<notin> debits H i"
  using assms(2,3) authority_pool_apart [OF assms(1)] stake_pools_reserved [of H]
  by (cases "(H, i)" rule: debits.cases) auto

lemma validator_pool_undebited:
  assumes "reserved_distinct H" "\<not> locks_reserved H i" "validator_registry_address H \<notin> writes H i"
  shows "validator_stake_pool_address H \<notin> debits H i"
  using assms(2,3) validator_pool_apart [OF assms(1)] stake_pools_reserved [of H]
  by (cases "(H, i)" rule: debits.cases) auto

lemma authority_backing:
  assumes distinct: "reserved_distinct H" and lock: "\<not> locks_reserved H i"
    and dec: "authority_decode H (stored s (authority_registry_address H)) = Inr m" and len: "Suc (bt_len m) < 2 ^ 32"
  shows "backing (authority_decode H) (authority_registry_address H) (authority_stake_pool_address H) s (apply_intent H i s)"
proof (cases "authority_registry_address H \<in> writes H i")
  case True
  note apart = authority_pool_apart [OF distinct] stake_pools_reserved(1) [of H]
  note rules = backing_rules undone_rules
  have "backing (authority_decode H) (authority_registry_address H) (authority_stake_pool_address H) s (apply_admit_authority H k stake pk bls s)"
    for k stake pk bls
    unfolding apply_admit_authority_def
    by (intro rules) (auto simp: dec slot_fits_def intro!: auth_store.backing_admit [OF dec len])
  moreover have "backing (authority_decode H) (authority_registry_address H) (authority_stake_pool_address H) s (apply_exit_authority H k s)" for k
    unfolding apply_exit_authority_def
    by (intro rules) (auto simp: dec outcome_simps intro!: auth_store.backing_exit [OF dec len])
  moreover have "backing (authority_decode H) (authority_registry_address H) (authority_stake_pool_address H) s (apply_eject_authority H k s)" for k
    unfolding apply_eject_authority_def
    by (intro rules) (use apart in \<open>auto simp: dec outcome_simps intro!: auth_store.backing_eject [OF dec len]\<close>)
  moreover have "backing (authority_decode H) (authority_registry_address H) (authority_stake_pool_address H) s (apply_deposit_authority H a k amt s)"
    for a k amt
    unfolding apply_deposit_authority_def
    by (intro rules) (use apart in \<open>auto simp: dec outcome_simps intro!: auth_store.backing_deposit [OF dec len]\<close>)
  moreover have "backing (authority_decode H) (authority_registry_address H) (authority_stake_pool_address H) s (apply_withdraw_authority H a k amt s)"
    for a k amt
    unfolding apply_withdraw_authority_def Let_def
    by (intro rules) (use apart in \<open>auto simp: dec outcome_simps intro!: auth_store.backing_withdraw [OF dec len]\<close>)
  ultimately show ?thesis
    using True registries_distinct [OF distinct] by (cases "(H, i)" rule: writes.cases) simp_all
next
  case False
  then show ?thesis
    by (intro backing_untouched authority_pool_undebited distinct lock)
qed

lemma validator_backing:
  assumes distinct: "reserved_distinct H" and lock: "\<not> locks_reserved H i"
    and dec: "validator_decode H (stored s (validator_registry_address H)) = Inr m" and len: "Suc (bt_len m) < 2 ^ 32"
  shows "backing (validator_decode H) (validator_registry_address H) (validator_stake_pool_address H) s (apply_intent H i s)"
proof (cases "validator_registry_address H \<in> writes H i")
  case True
  note apart = validator_pool_apart [OF distinct] stake_pools_reserved(2) [of H]
  note rules = backing_rules undone_rules
  have "backing (validator_decode H) (validator_registry_address H) (validator_stake_pool_address H) s (apply_admit_validator H k stake pk bls s)"
    for k stake pk bls
    unfolding apply_admit_validator_def
    by (intro rules) (auto simp: dec slot_fits_def intro!: val_store.backing_admit [OF dec len])
  moreover have "backing (validator_decode H) (validator_registry_address H) (validator_stake_pool_address H) s (apply_exit_validator H k s)" for k
    unfolding apply_exit_validator_def
    by (intro rules) (auto simp: dec outcome_simps intro!: val_store.backing_exit [OF dec len])
  moreover have "backing (validator_decode H) (validator_registry_address H) (validator_stake_pool_address H) s (apply_eject_validator H k s)" for k
    unfolding apply_eject_validator_def
    by (intro rules) (use apart in \<open>auto simp: dec outcome_simps intro!: val_store.backing_eject [OF dec len]\<close>)
  moreover have "backing (validator_decode H) (validator_registry_address H) (validator_stake_pool_address H) s (apply_deposit_validator H a k amt s)"
    for a k amt
    unfolding apply_deposit_validator_def
    by (intro rules) (use apart in \<open>auto simp: dec outcome_simps intro!: val_store.backing_deposit [OF dec len]\<close>)
  moreover have "backing (validator_decode H) (validator_registry_address H) (validator_stake_pool_address H) s (apply_withdraw_validator H a k amt s)"
    for a k amt
    unfolding apply_withdraw_validator_def Let_def
    by (intro rules) (use apart in \<open>auto simp: dec outcome_simps intro!: val_store.backing_withdraw [OF dec len]\<close>)
  ultimately show ?thesis
    using True registries_distinct [OF distinct] by (cases "(H, i)" rule: writes.cases) simp_all
next
  case False
  then show ?thesis
    by (intro backing_untouched validator_pool_undebited distinct lock)
qed

text \<open>A delegation adds the same amount to the pool and to the delegations.\<close>

lemma delegations_untouched:
  "validator_delegation_registry_address H \<notin> writes H i \<Longrightarrow> delegations H (out_state (apply_intent H i s)) = delegations H s"
  by (simp add: delegations_def stored_untouched)

lemma delegate_backed:
  assumes distinct: "reserved_distinct H" and backed: "validator_backed H s"
    and dec: "delegation_decode H (stored s (validator_delegation_registry_address H)) = Inr m" and len: "Suc (bt_len m) < 2 ^ 32"
  shows "validator_backed H (out_state (apply_delegate H a v amt s))"
proof (cases "apply_delegate H a v amt s")
  case (Err e t)
  have "undone s (apply_delegate H a v amt s)"
    unfolding apply_delegate_def by (intro undone_rules)
  then show ?thesis
    using backed Err by (auto simp: undone_def)
next
  case (Ok t)
  show ?thesis
  proof (cases "amt = 0")
    case True
    then show ?thesis
      using backed by (simp add: apply_delegate_def)
  next
    case False
    then obtain delta entry u where ok: "\<not> is_reserved H a" "u64_try_from amt = Some delta"
        "checked_add (unwrap_or 0 (bt_get m (v, a))) delta = Some entry"
        "transfer_internal a (validator_stake_pool_address H) amt s = Ok u"
        "t = write_bytes_unchecked (validator_delegation_registry_address H) (delegation_encode (bt_insert (v, a) entry m)) u"
      using Ok by (auto simp: apply_delegate_def dec outcome_simps split: if_splits)
    have sizes: "unat entry = unat (unwrap_or 0 (bt_get m (v, a))) + unat amt"
      using checked_add_SomeD [OF ok(3)] u64_try_from_SomeD [OF ok(2)] by simp
    then have "0 < entry"
      using False unat_gt_0 [of amt] by (simp add: unat_less_iff del: unat_gt_0)
    then have enc: "delegation_decode H (delegation_encode (bt_insert (v, a) entry m)) = Inr (bt_insert (v, a) entry m)"
      using delegation_map.store_insert [OF dec _ len] by blast
    have sums: "bt_sum unat (bt_insert (v, a) entry m) = bt_sum unat m + unat amt"
      using bt_sum_insert [of unat "(v, a)" entry m] sizes by (cases "bt_get m (v, a)") simp_all
    have apart: "a \<noteq> validator_stake_pool_address H" "validator_registry_address H \<noteq> validator_delegation_registry_address H"
      using ok(1) stake_pools_reserved(2) [of H] registries_distinct [OF distinct] by auto
    show ?thesis
      using backed transfer_OkD(2,3) [OF ok(4) apart(1)] apart(2) sums enc dec
      by (simp add: Ok ok(5) validator_backed_def deposits_def delegations_def)
  qed
qed

lemma delegation_untouched:
  assumes "reserved_distinct H" "\<And>a v amt. i \<noteq> Delegate a v amt"
  shows "validator_delegation_registry_address H \<notin> writes H i"
  using assms(2) registries_distinct [OF assms(1)] by (cases "(H, i)" rule: writes.cases) auto

lemma backed_step:
  assumes distinct: "reserved_distinct H" and ok: "registries_ok H n s" "Suc n < 2 ^ 32" and lock: "\<not> locks_reserved H i"
  shows "authority_backed H s \<Longrightarrow> authority_backed H (out_state (apply_intent H i s))"
    and "validator_backed H s \<Longrightarrow> validator_backed H (out_state (apply_intent H i s))"
proof -
  obtain ma mv md where decs: "authority_decode H (stored s (authority_registry_address H)) = Inr ma" "bt_len ma \<le> n"
      "validator_decode H (stored s (validator_registry_address H)) = Inr mv" "bt_len mv \<le> n"
      "delegation_decode H (stored s (validator_delegation_registry_address H)) = Inr md" "bt_len md \<le> n"
    using ok(1) unfolding registries_ok_def decodes_iff by blast
  have "backing (authority_decode H) (authority_registry_address H) (authority_stake_pool_address H) s (apply_intent H i s)"
    using decs(2) ok(2) by (intro authority_backing [OF distinct lock decs(1)]) simp
  from this [unfolded backing_def, rule_format, of 0]
  show "authority_backed H s \<Longrightarrow> authority_backed H (out_state (apply_intent H i s))"
    by (simp add: authority_backed_def)
  assume backed: "validator_backed H s"
  show "validator_backed H (out_state (apply_intent H i s))"
  proof (cases "\<exists>a v amt. i = Delegate a v amt")
    case True
    then show ?thesis
      using delegate_backed [OF distinct backed decs(5)] decs(6) ok(2) by auto
  next
    case False
    then have "delegations H (out_state (apply_intent H i s)) = delegations H s"
      by (intro delegations_untouched delegation_untouched distinct) auto
    then show ?thesis
      using validator_backing [OF distinct lock decs(3)] decs(4) ok(2) backed
      unfolding backing_def validator_backed_def by simp
  qed
qed

lemma backed_trace:
  assumes "reserved_distinct H" "registries_ok H n s" "n + length is < 2 ^ 32" "\<forall>i \<in> set is. \<not> locks_reserved H i"
    and "authority_backed H s \<and> validator_backed H s"
  shows "authority_backed H (run_intents H is s) \<and> validator_backed H (run_intents H is s)"
  using assms(2-5)
proof (induction "is" arbitrary: s n)
  case (Cons i "is")
  let ?t = "out_state (apply_intent H i s)"
  have "registries_ok H (Suc n) ?t"
    using registries_ok_trace [OF assms(1) Cons.prems(1), of "[i]"] Cons.prems(2) by simp
  moreover have "authority_backed H ?t \<and> validator_backed H ?t"
    using backed_step [OF assms(1) Cons.prems(1), of i] Cons.prems(2-4) by simp
  ultimately show ?case
    using Cons.IH [of "Suc n" ?t] Cons.prems(2,3) by simp
qed simp

text \<open>
  C2.  The stake pools stay solvent: along any sequence of intents (admissions, exits, deposits,
  withdrawals, delegations, ejections with their slashing waterfall, transfers, slashes, in any order
  and whether they succeed or fail) each ring's pool holds at least the sum of the deposits its
  registry records, plus, for validators, all delegations.  The hypothesis on the intents excludes
  bridge locks in the name of a protocol account, which the code lets through.
\<close>

theorem stake_pools_solvent:
  assumes "reserved_distinct H" "registries_ok H n s" "n + length is < 2 ^ 32" "\<forall>i \<in> set is. \<not> locks_reserved H i"
    and "authority_backed H s \<and> validator_backed H s"
  shows "authority_backed H (run_intents H is s) \<and> validator_backed H (run_intents H is s)"
  using assms by (rule backed_trace)

lemma backed_new: "authority_backed H substrate_new" "validator_backed H substrate_new"
  by (simp_all add: authority_backed_def validator_backed_def deposits_def delegations_def authority_decode_def
      validator_decode_def slot_decode_def delegation_decode_def decode_fixed_def)

theorem stake_pools_solvent_witness:
  "let is = [GenesisAllocation [(1, 100)], AdmitAuthority 3 10 [1] [2], DepositAuthorityStake 1 3 40, EjectAuthority 3 0] in
   authority_backed demo_blake (run_intents demo_blake is substrate_new) \<and>
   validator_backed demo_blake (run_intents demo_blake is substrate_new)"
  unfolding Let_def
  by (rule stake_pools_solvent [OF demo_reserved_distinct registries_ok_new]) (simp_all add: backed_new)

end
