(* ===== verification/Block_Exec.thy ===== *)
theory Block_Exec
  imports Stake_Safety
begin

text \<open>
  The block executor, \<open>suwappu-execution/src/block.rs\<close>: intents are applied in order and the block
  stops at the first error.  Sequences of blocks lift the guarantees of the substrate from sequences
  of intents to the chain, ending in the claim that exited stake can be withdrawn.
\<close>

section \<open>Blocks\<close>

record Block =
  blk_round :: u64
  blk_intents :: "Intent list"

record ExecutionReport =
  er_round :: u64
  er_applied :: nat
  er_first_error :: "(nat \<times> ExecutionError) option"
  er_skipped :: nat
  er_post_root :: hash32

text \<open>The loop, with its three local variables and the substrate; \<open>idx\<close> is the enumeration.\<close>

fun execute_intents ::
  "hasher \<Rightarrow> nat \<Rightarrow> Intent list \<Rightarrow> nat \<times> (nat \<times> ExecutionError) option \<times> nat \<times> InMemorySubstrate \<Rightarrow>
    nat \<times> (nat \<times> ExecutionError) option \<times> nat \<times> InMemorySubstrate" where
  "execute_intents H idx [] acc = acc"
| "execute_intents H idx (intent # intents) (applied, first_error, skipped, s) =
     execute_intents H (Suc idx) intents
       (if first_error \<noteq> None then (applied, first_error, Suc skipped, s)
        else case apply_intent H intent s of
               Ok t \<Rightarrow> (Suc applied, first_error, skipped, t)
             | Err e t \<Rightarrow> (applied, Some (idx, e), skipped, t))"

definition execute_block :: "hasher \<Rightarrow> Block \<Rightarrow> InMemorySubstrate \<Rightarrow> ExecutionReport \<times> InMemorySubstrate" where
  "execute_block H block s =
     (let s0 = set_current_block_height (blk_round block) s;
          (applied, first_error, skipped, t) = execute_intents H 0 (blk_intents block) (0, None, 0, s0)
      in (\<lparr>er_round = blk_round block, er_applied = applied, er_first_error = first_error, er_skipped = skipped,
           er_post_root = state_root H t\<rparr>, t))"

text \<open>The chain: the state each block leaves is the state the next one starts from.\<close>

definition execute_chain :: "hasher \<Rightarrow> Block list \<Rightarrow> InMemorySubstrate \<Rightarrow> InMemorySubstrate" where
  "execute_chain H blocks s = foldl (\<lambda>s block. snd (execute_block H block s)) s blocks"

section \<open>Reference: all or the first failure\<close>

fun apply_all :: "hasher \<Rightarrow> Intent list \<Rightarrow> InMemorySubstrate \<Rightarrow> InMemorySubstrate option" where
  "apply_all H [] s = Some s"
| "apply_all H (i # is) s = (case apply_intent H i s of Ok t \<Rightarrow> apply_all H is t | Err e t \<Rightarrow> None)"

lemma execute_skips: "execute_intents H idx is (applied, Some err, skipped, s) = (applied, Some err, skipped + length is, s)"
  by (induction "is" arbitrary: idx skipped) simp_all

text \<open>What the loop computes from a state without an error, by the first intent that fails.\<close>

lemma execute_intents_cases:
  "(\<exists>t. apply_all H is s = Some t \<and> execute_intents H idx is (applied, None, 0, s) = (applied + length is, None, 0, t)) \<or>
   (\<exists>done i rest t e u. is = done @ i # rest \<and> apply_all H done s = Some t \<and> apply_intent H i t = Err e u \<and>
      execute_intents H idx is (applied, None, 0, s) =
        (applied + length done, Some (idx + length done, e), length rest, u))"
proof (induction "is" arbitrary: idx applied s)
  case (Cons i "is")
  show ?case
  proof (cases "apply_intent H i s")
    case (Ok t)
    from Cons.IH [of t "Suc idx" "Suc applied"] show ?thesis
    proof (elim disjE exE conjE)
      fix done' j rest t' e u
      assume "is = done' @ j # rest" "apply_all H done' t = Some t'" "apply_intent H j t' = Err e u"
        "execute_intents H (Suc idx) is (Suc applied, None, 0, t) =
          (Suc applied + length done', Some (Suc idx + length done', e), length rest, u)"
      then show ?thesis
        using Ok by (intro disjI2 exI [of _ "i # done'"] exI [of _ j] exI [of _ rest] exI [of _ t'] exI [of _ e] exI [of _ u]) simp
    qed (use Ok in simp)
  next
    case (Err e u)
    then show ?thesis
      by (intro disjI2 exI [of _ "[]"] exI [of _ i] exI [of _ "is"] exI [of _ s] exI [of _ e] exI [of _ u])
        (simp add: execute_skips)
  qed
qed simp

lemma apply_all_append: "apply_all H (xs @ ys) s = Option.bind (apply_all H xs s) (apply_all H ys)"
  by (induction xs arbitrary: s) (auto split: outcome.split)

lemma apply_all_run:
  "apply_all H is s = Some t \<Longrightarrow> run_intents H is s = t \<and> successful H is s = is"
  by (induction "is" arbitrary: s) (auto split: outcome.splits)

lemma apply_all_supply:
  assumes "apply_all H is s = Some t" "coin_supply s + sum_list (map minted is) < 2 ^ 128"
  shows "coin_supply t = coin_supply s + sum_list (map minted is)"
  using supply_trace [OF assms(2), of H] apply_all_run [OF assms(1)] by simp

lemma set_height_simps [simp]:
  "stored (set_current_block_height h s) a = stored s a" "balance (set_current_block_height h s) a = balance s a"
  "coin_supply (set_current_block_height h s) = coin_supply s" "balances (set_current_block_height h s) = balances s"
  "current_block_height (set_current_block_height h s) = h"
  by (simp_all add: set_current_block_height_def stored_def read_bytes_def balance_def coin_supply_def)

lemma failed_intent_leaves:
  assumes "coin_supply s + minted i < 2 ^ 128" "apply_intent H i s = Err e t"
  shows "t = s \<or> (\<exists>b r amt p asset c. i = L2BurnProven b r amt p asset c \<and> balances t = balances s)"
  using failed_balances [OF assms] apply_intent_undone [OF assms(1), of H] assms(2) unfolding undone_def by blast

text \<open>
  C19.  Executing a block.  The report accounts for every intent of the block; the block succeeds
  exactly if all its intents do, one after the other; and otherwise exactly the intents before the
  reported index took effect.  The failing intent itself left nothing behind, unless it is a proven
  burn.  The reported root is the root of the resulting state.
\<close>

theorem execute_block_correct:
  assumes "execute_block H block s = (rep, t)" "s0 = set_current_block_height (blk_round block) s"
    and "coin_supply s + sum_list (map minted (blk_intents block)) < 2 ^ 128"
  shows "er_applied rep + er_skipped rep + (if er_first_error rep = None then 0 else 1) = length (blk_intents block) \<and>
    er_post_root rep = state_root H t \<and>
    (er_first_error rep = None \<longrightarrow> apply_all H (blk_intents block) s0 = Some t \<and> er_applied rep = length (blk_intents block)) \<and>
    (\<forall>idx e. er_first_error rep = Some (idx, e) \<longrightarrow>
       idx = er_applied rep \<and> apply_all H (blk_intents block) s0 = None \<and>
       (\<exists>u. apply_all H (take idx (blk_intents block)) s0 = Some u \<and> apply_intent H (blk_intents block ! idx) u = Err e t \<and>
         (t = u \<or> (\<exists>b r amt p asset c. blk_intents block ! idx = L2BurnProven b r amt p asset c \<and> balances t = balances u))))"
proof -
  let ?is = "blk_intents block"
  have room: "coin_supply s0 + sum_list (map minted ?is) < 2 ^ 128"
    using assms(2,3) by simp
  from execute_intents_cases [of H ?is s0 0 0] show ?thesis
  proof (elim disjE exE conjE)
    fix t'
    assume "apply_all H ?is s0 = Some t'" "execute_intents H 0 ?is (0, None, 0, s0) = (0 + length ?is, None, 0, t')"
    then show ?thesis
      using assms(1,2) by (auto simp: execute_block_def)
  next
    fix done' i rest u e t'
    assume split: "?is = done' @ i # rest" and run: "apply_all H done' s0 = Some u" "apply_intent H i u = Err e t'"
      "execute_intents H 0 ?is (0, None, 0, s0) = (0 + length done', Some (0 + length done', e), length rest, t')"
    have "coin_supply u + minted i < 2 ^ 128"
      using apply_all_supply [OF run(1)] room split by simp
    from failed_intent_leaves [OF this run(2)] split run show ?thesis
      using assms(1,2) by (auto simp: execute_block_def apply_all_append)
  qed
qed

theorem execute_block_correct_witness:
  "let (rep, t) = execute_block demo_blake \<lparr>blk_round = 9, blk_intents =
       [GenesisAllocation [(1, 100)], MintInflation 0 1 1 1, Transfer 1 2 30]\<rparr> substrate_new
   in er_applied rep + er_skipped rep + (if er_first_error rep = None then 0 else 1) = 3 \<and>
      er_post_root rep = state_root demo_blake t"
proof -
  let ?b = "\<lparr>blk_round = 9, blk_intents = [GenesisAllocation [(1, 100)], MintInflation 0 1 1 1, Transfer 1 2 30]\<rparr>"
  obtain rep t where run: "execute_block demo_blake ?b substrate_new = (rep, t)"
    by fastforce
  have "coin_supply substrate_new + sum_list (map minted (blk_intents ?b)) < 2 ^ 128"
    by (simp add: substrate_new_def coin_supply_def)
  from execute_block_correct [OF run refl this] run show ?thesis
    by simp
qed

section \<open>Chains of blocks\<close>

lemma run_intents_append: "run_intents H (xs @ ys) s = run_intents H ys (run_intents H xs s)"
  by (induction xs arbitrary: s) simp_all

lemma block_run:
  "\<exists>k. snd (execute_block H block s) =
     run_intents H (take k (blk_intents block)) (set_current_block_height (blk_round block) s)"
proof -
  let ?is = "blk_intents block" and ?s = "set_current_block_height (blk_round block) s"
  have "\<exists>k. (\<exists>a e b. execute_intents H 0 ?is (0, None, 0, ?s) = (a, e, b, run_intents H (take k ?is) ?s))"
    using execute_intents_cases [of H ?is ?s 0 0]
  proof (elim disjE exE conjE)
    fix done' i rest t e u
    assume "?is = done' @ i # rest" "apply_all H done' ?s = Some t" "apply_intent H i t = Err e u"
      "execute_intents H 0 ?is (0, None, 0, ?s) = (0 + length done', Some (0 + length done', e), length rest, u)"
    note run = this apply_all_run [OF this(2)]
    show ?thesis
      by (rule exI [of _ "Suc (length done')"]) (use run in \<open>simp add: run_intents_append\<close>)
  qed (use apply_all_run in \<open>fastforce intro: exI [of _ "length ?is"]\<close>)
  then show ?thesis
    by (auto simp: execute_block_def)
qed

lemma registries_ok_mono: "registries_ok H n s \<Longrightarrow> n \<le> n' \<Longrightarrow> registries_ok H n' s"
  by (auto simp: registries_ok_def decodes_iff intro: le_trans)

lemma registries_ok_height [simp]: "registries_ok H n (set_current_block_height h s) = registries_ok H n s"
  by (simp add: registries_ok_def)

lemma backed_height [simp]:
  "authority_backed H (set_current_block_height h s) = authority_backed H s"
  "validator_backed H (set_current_block_height h s) = validator_backed H s"
  by (simp_all add: authority_backed_def validator_backed_def deposits_def delegations_def)

text \<open>What holds of a state after intents \<open>is\<close>, relative to the state \<open>s\<close> before them.\<close>

definition slots_continue ::
  "('a \<Rightarrow> u32 \<Rightarrow> 's slot_record option) \<Rightarrow> 's \<Rightarrow> 's \<Rightarrow> 'a \<Rightarrow> 'a \<Rightarrow> bool" where
  "slots_continue slot_of active ejected s t \<longleftrightarrow>
     (\<forall>k r. slot_of s k = Some r \<longrightarrow> (\<exists>r'. slot_of t k = Some r' \<and> slot_successor active ejected r r'))"

definition follows :: "hasher \<Rightarrow> nat \<Rightarrow> InMemorySubstrate \<Rightarrow> Intent list \<Rightarrow> InMemorySubstrate \<Rightarrow> bool" where
  "follows H n s is t \<longleftrightarrow>
     registries_ok H (n + length is) t \<and> authority_backed H t \<and> validator_backed H t \<and>
     coin_supply t \<le> coin_supply s + sum_list (map minted is) \<and>
     slots_continue (authority_record H) AuthActive AuthEjected s t \<and>
     slots_continue (validator_record H) ValActive ValEjected s t"

lemma slots_continue_trans:
  assumes "slots_continue slot_of active ejected s t" "slots_continue slot_of active ejected t u" "active \<noteq> ejected"
  shows "slots_continue slot_of active ejected s u"
  unfolding slots_continue_def
proof (intro allI impI)
  fix k r
  assume "slot_of s k = Some r"
  then obtain r1 where "slot_of t k = Some r1" "slot_successor active ejected r r1"
    using assms(1) unfolding slots_continue_def by blast
  moreover from this(1) obtain r2 where "slot_of u k = Some r2" "slot_successor active ejected r1 r2"
    using assms(2) unfolding slots_continue_def by blast
  ultimately show "\<exists>r'. slot_of u k = Some r' \<and> slot_successor active ejected r r'"
    using slot_successor_trans [of active ejected r r1 r2] assms(3) by simp
qed

lemma authority_record_height [simp]: "authority_record H (set_current_block_height h s) k = authority_record H s k"
  by (simp add: authority_record_def lookup_registry_def set_current_block_height_def read_bytes_def)

lemma validator_record_height [simp]: "validator_record H (set_current_block_height h s) k = validator_record H s k"
  by (simp add: validator_record_def lookup_registry_def set_current_block_height_def read_bytes_def)

lemma follows_run:
  assumes "reserved_distinct H" "registries_ok H n s" "authority_backed H s" "validator_backed H s"
    and "n + length is < 2 ^ 32" "coin_supply s + sum_list (map minted is) < 2 ^ 128" "\<forall>i \<in> set is. \<not> locks_reserved H i"
  shows "follows H n s is (run_intents H is s)"
proof -
  have "slots_continue (authority_record H) AuthActive AuthEjected s (run_intents H is s)"
    using assms(2) unfolding slots_continue_def authority_record_def registries_ok_def
    by (intro allI impI auth_lookup.lookup_history [OF assms(1) _ assms(5)]) (auto intro: slot_successor_refl ring_step_successor)
  moreover have "slots_continue (validator_record H) ValActive ValEjected s (run_intents H is s)"
    using assms(2) unfolding slots_continue_def validator_record_def registries_ok_def
    by (intro allI impI val_lookup.lookup_history [OF assms(1) _ assms(5)]) (auto intro: slot_successor_refl ring_step_successor)
  ultimately show ?thesis
    using registries_ok_trace [OF assms(1,2,5)] backed_trace [OF assms(1,2,5,7)] assms(3,4)
      supply_trace [OF assms(6), of H] successful_minted_le [of H "is" s]
    unfolding follows_def by simp
qed

lemma sum_take_le: "sum_list (map f (take k js)) \<le> (sum_list (map f js) :: nat)"
  by (metis append_take_drop_id le_add1 map_append sum_list_append)

lemma follows_take: "follows H n s (take k js) t \<Longrightarrow> follows H n s js t"
  using registries_ok_mono [of H "n + length (take k js)" t "n + length js"] sum_take_le [of minted k js]
  by (auto simp: follows_def)

lemma follows_trans:
  assumes "follows H n s is t" "follows H (n + length is) t js u"
  shows "follows H n s (is @ js) u"
  using assms slots_continue_trans [of "authority_record H" AuthActive AuthEjected s t u]
    slots_continue_trans [of "validator_record H" ValActive ValEjected s t u]
  by (simp add: follows_def add.assoc)

lemma follows_block:
  assumes "reserved_distinct H" "registries_ok H n s" "authority_backed H s" "validator_backed H s"
    and "n + length (blk_intents b) < 2 ^ 32" "coin_supply s + sum_list (map minted (blk_intents b)) < 2 ^ 128"
    and "\<forall>i \<in> set (blk_intents b). \<not> locks_reserved H i"
  shows "follows H n s (blk_intents b) (snd (execute_block H b s))"
proof -
  let ?s = "set_current_block_height (blk_round b) s"
  obtain k where k: "snd (execute_block H b s) = run_intents H (take k (blk_intents b)) ?s"
    using block_run by blast
  have "follows H n ?s (take k (blk_intents b)) (run_intents H (take k (blk_intents b)) ?s)"
    using assms sum_take_le [of minted k "blk_intents b"] by (intro follows_run) (auto dest: in_set_takeD)
  then have "follows H n ?s (blk_intents b) (snd (execute_block H b s))"
    unfolding k by (rule follows_take)
  then show ?thesis
    by (simp add: follows_def slots_continue_def)
qed

lemma follows_chain:
  assumes "reserved_distinct H" "registries_ok H n s" "authority_backed H s" "validator_backed H s"
    and "n + length (concat (map blk_intents bs)) < 2 ^ 32"
    and "coin_supply s + sum_list (map minted (concat (map blk_intents bs))) < 2 ^ 128"
    and "\<forall>i \<in> set (concat (map blk_intents bs)). \<not> locks_reserved H i"
  shows "follows H n s (concat (map blk_intents bs)) (execute_chain H bs s)"
  using assms(2-7)
proof (induction bs arbitrary: s n)
  case Nil
  then show ?case
    by (simp add: follows_def slots_continue_def execute_chain_def slot_successor_refl)
next
  case (Cons b bs)
  have step: "follows H n s (blk_intents b) (snd (execute_block H b s))"
    using Cons.prems by (intro follows_block [OF assms(1)]) auto
  then have "follows H (n + length (blk_intents b)) (snd (execute_block H b s)) (concat (map blk_intents bs))
      (execute_chain H bs (snd (execute_block H b s)))"
    using Cons.prems by (intro Cons.IH) (auto simp: follows_def)
  from follows_trans [OF step this] show ?case
    by (simp add: execute_chain_def)
qed

lemma u64_there_and_back: "ucast (ucast (d :: u64) :: Balance) = d"
  by transfer simp

text \<open>A stake pool that covers a deposit pays it out.\<close>

lemma pool_pays:
  assumes "is_reserved H pool" "\<not> is_reserved H dst" "unat stake \<le> unat (balance s pool)" "coin_supply s < 2 ^ 128"
    and "unat amt \<le> unat (stake :: u64)"
  obtains u where "transfer_internal pool dst amt s = Ok u" "unat (balance u dst) = unat (balance s dst) + unat amt"
proof -
  have apart: "pool \<noteq> dst"
    using assms(1,2) by blast
  have "succeeds (and_then (debit_unchecked pool amt s) (credit_unchecked dst amt))"
    using assms(3-5) by (intro succeeds_move) (simp_all add: unat_le_iff)
  then obtain u where u: "transfer_internal pool dst amt s = Ok u"
    by (auto simp: transfer_internal_rollback succeeds_def rollback_Ok_iff)
  with transfer_OkD(2) [OF u apart] show ?thesis
    using that by simp
qed

lemma whole_deposit:
  fixes d :: u64
  assumes "d \<noteq> 0"
  shows "(ucast d :: Balance) \<noteq> 0" "unat (ucast d :: Balance) = unat d" "d - ucast (ucast d :: Balance) = 0"
  using assms unat_u64_as_u128 [of d] u64_there_and_back [of d] by (auto simp: unat_eq_0 [symmetric] simp del: unat_eq_0)

lemma authority_withdraw_pays:
  assumes ok: "registries_ok H n s" "Suc n < 2 ^ 32" and sup: "coin_supply s < 2 ^ 128"
    and backed: "authority_backed H s" and slot: "authority_record H s k = Some r" "sr_status r = AuthExiting"
    and due: "saturating_add (sr_exit_block_height r) EXIT_COOLDOWN_BLOCKS \<le> current_block_height s"
    and d: "sr_deposited_stake r \<noteq> 0" and dst: "\<not> is_reserved H dst"
  shows "\<exists>t. apply_intent H (WithdrawAuthorityStake dst k (ucast (sr_deposited_stake r))) s = Ok t \<and>
    unat (balance t dst) = unat (balance s dst) + unat (sr_deposited_stake r) \<and> authority_deposited_stake H t k = 0"
proof -
  let ?amt = "ucast (sr_deposited_stake r) :: Balance" and ?r = "r\<lparr>sr_deposited_stake := 0\<rparr>"
  note amt = whole_deposit [OF d]
  obtain m where m: "authority_decode H (stored s (authority_registry_address H)) = Inr m" "bt_get m k = Some r" "bt_len m \<le> n"
    using slot(1) ok(1) by (auto simp: authority_record_def auth_lookup.lookup_iff registries_ok_def decodes_iff)
  have "unat (sr_deposited_stake r) \<le> unat (balance s (authority_stake_pool_address H))"
    using backed bt_sum_ge [of "\<lambda>r. unat (sr_deposited_stake r)" m k] m(1,2) by (simp add: authority_backed_def deposits_def)
  then obtain u where u: "transfer_internal (authority_stake_pool_address H) dst ?amt s = Ok u"
      "unat (balance u dst) = unat (balance s dst) + unat ?amt"
    using pool_pays [OF stake_pools_reserved(1) dst _ sup, of "sr_deposited_stake r" ?amt] amt(2) by auto
  let ?t = "write_bytes_unchecked (authority_registry_address H) (authority_encode (bt_insert k ?r m)) u"
  have "apply_intent H (WithdrawAuthorityStake dst k ?amt) s = Ok ?t"
    using m(1,2) slot(2) due amt(1,3) dst u(1) by (simp add: apply_withdraw_authority_def Let_def not_less [symmetric])
  moreover have "unat (balance ?t dst) = unat (balance s dst) + unat (sr_deposited_stake r)"
    using u(2) amt(2) by simp
  moreover have "authority_decode H (authority_encode (bt_insert k ?r m)) = Inr (bt_insert k ?r m)"
    using auth_store.stored_fits [OF m(1,2)] m(3) ok(2) by (intro auth_map.store_insert [OF m(1)]) (simp_all add: slot_fits_def)
  then have "authority_record H ?t k = Some ?r"
    by (simp add: authority_record_def auth_lookup.lookup_iff bt.get_insert)
  then have "authority_deposited_stake H ?t k = 0"
    by (simp add: authority_deposited_stake_def)
  ultimately show ?thesis
    by blast
qed

lemma validator_withdraw_pays:
  assumes ok: "registries_ok H n s" "Suc n < 2 ^ 32" and sup: "coin_supply s < 2 ^ 128"
    and backed: "validator_backed H s" and slot: "validator_record H s k = Some r" "sr_status r = ValExiting"
    and due: "saturating_add (sr_exit_block_height r) EXIT_COOLDOWN_BLOCKS \<le> current_block_height s"
    and d: "sr_deposited_stake r \<noteq> 0" and dst: "\<not> is_reserved H dst"
  shows "\<exists>t. apply_intent H (WithdrawValidatorStake dst k (ucast (sr_deposited_stake r))) s = Ok t \<and>
    unat (balance t dst) = unat (balance s dst) + unat (sr_deposited_stake r) \<and> validator_deposited_stake H t k = 0"
proof -
  let ?amt = "ucast (sr_deposited_stake r) :: Balance" and ?r = "r\<lparr>sr_deposited_stake := 0\<rparr>"
  note amt = whole_deposit [OF d]
  obtain m where m: "validator_decode H (stored s (validator_registry_address H)) = Inr m" "bt_get m k = Some r" "bt_len m \<le> n"
    using slot(1) ok(1) by (auto simp: validator_record_def val_lookup.lookup_iff registries_ok_def decodes_iff)
  have "unat (sr_deposited_stake r) \<le> unat (balance s (validator_stake_pool_address H))"
    using backed bt_sum_ge [of "\<lambda>r. unat (sr_deposited_stake r)" m k] m(1,2) by (simp add: validator_backed_def deposits_def)
  then obtain u where u: "transfer_internal (validator_stake_pool_address H) dst ?amt s = Ok u"
      "unat (balance u dst) = unat (balance s dst) + unat ?amt"
    using pool_pays [OF stake_pools_reserved(2) dst _ sup, of "sr_deposited_stake r" ?amt] amt(2) by auto
  let ?t = "write_bytes_unchecked (validator_registry_address H) (validator_encode (bt_insert k ?r m)) u"
  have "apply_intent H (WithdrawValidatorStake dst k ?amt) s = Ok ?t"
    using m(1,2) slot(2) due amt(1,3) dst u(1) by (simp add: apply_withdraw_validator_def Let_def not_less [symmetric])
  moreover have "unat (balance ?t dst) = unat (balance s dst) + unat (sr_deposited_stake r)"
    using u(2) amt(2) by simp
  moreover have "validator_decode H (validator_encode (bt_insert k ?r m)) = Inr (bt_insert k ?r m)"
    using val_store.stored_fits [OF m(1,2)] m(3) ok(2) by (intro val_map.store_insert [OF m(1)]) (simp_all add: slot_fits_def)
  then have "validator_record H ?t k = Some ?r"
    by (simp add: validator_record_def val_lookup.lookup_iff bt.get_insert)
  then have "validator_deposited_stake H ?t k = 0"
    by (simp add: validator_deposited_stake_def)
  ultimately show ?thesis
    by blast
qed

text \<open>A slot that was exiting and has not been ejected is exiting with the same exit height.\<close>

lemma still_exiting:
  assumes "slots_continue slot_of active ejected s t" "slot_of s k = Some r" "sr_status r \<noteq> active" "slot_of t k = Some r'"
    and "sr_status r' \<noteq> ejected"
  shows "sr_status r' = sr_status r" "sr_exit_block_height r' = sr_exit_block_height r"
proof -
  have "slot_successor active ejected r r'"
    using assms(1,2,4) unfolding slots_continue_def by fastforce
  then show "sr_status r' = sr_status r" "sr_exit_block_height r' = sr_exit_block_height r"
    using assms(3,5) by (auto simp: slot_successor_def)
qed

text \<open>
  C12.  Exited stake can be withdrawn.  Take a slot of the authority or the validator ring that is exiting, and any
  chain of blocks after that, with any intents, successful or failing, except bridge locks in the name of
  a protocol account, which the code lets through, and minting no more than a balance can hold.  If the slot has not been
  ejected, then once the height reaches the recorded exit height plus the cooldown, a withdrawal of all that
  is still deposited succeeds: the recipient receives exactly that amount and the deposit is empty.
\<close>

theorem exited_stake_withdrawable:
  assumes "reserved_distinct H" "registries_ok H n s" "authority_backed H s" "validator_backed H s"
    and "Suc (n + length (concat (map blk_intents bs))) < 2 ^ 32"
    and "coin_supply s + sum_list (map minted (concat (map blk_intents bs))) < 2 ^ 128"
    and "\<forall>i \<in> set (concat (map blk_intents bs)). \<not> locks_reserved H i"
    and "t = execute_chain H bs s" "\<not> is_reserved H dst"
  shows "(\<forall>r r'. authority_record H s k = Some r \<and> sr_status r = AuthExiting \<and>
      authority_record H t k = Some r' \<and> sr_status r' \<noteq> AuthEjected \<and> sr_deposited_stake r' \<noteq> 0 \<and>
      saturating_add (sr_exit_block_height r) EXIT_COOLDOWN_BLOCKS \<le> current_block_height t \<longrightarrow>
      (\<exists>u. apply_intent H (WithdrawAuthorityStake dst k (ucast (sr_deposited_stake r'))) t = Ok u \<and>
         unat (balance u dst) = unat (balance t dst) + unat (sr_deposited_stake r') \<and> authority_deposited_stake H u k = 0)) \<and>
    (\<forall>r r'. validator_record H s k = Some r \<and> sr_status r = ValExiting \<and>
      validator_record H t k = Some r' \<and> sr_status r' \<noteq> ValEjected \<and> sr_deposited_stake r' \<noteq> 0 \<and>
      saturating_add (sr_exit_block_height r) EXIT_COOLDOWN_BLOCKS \<le> current_block_height t \<longrightarrow>
      (\<exists>u. apply_intent H (WithdrawValidatorStake dst k (ucast (sr_deposited_stake r'))) t = Ok u \<and>
         unat (balance u dst) = unat (balance t dst) + unat (sr_deposited_stake r') \<and> validator_deposited_stake H u k = 0))"
proof -
  have after: "follows H n s (concat (map blk_intents bs)) t"
    unfolding assms(8) using assms(5) by (intro follows_chain assms) simp
  then have ok: "registries_ok H (n + length (concat (map blk_intents bs))) t" and sup: "coin_supply t < 2 ^ 128"
    and backed: "authority_backed H t" "validator_backed H t"
    and auth: "slots_continue (authority_record H) AuthActive AuthEjected s t"
    and val: "slots_continue (validator_record H) ValActive ValEjected s t"
    using assms(6) by (simp_all add: follows_def)
  show ?thesis
  proof (intro conjI allI impI; elim conjE)
    fix r r'
    assume "authority_record H s k = Some r" "sr_status r = AuthExiting" "authority_record H t k = Some r'"
      "sr_status r' \<noteq> AuthEjected" "sr_deposited_stake r' \<noteq> 0"
      "saturating_add (sr_exit_block_height r) EXIT_COOLDOWN_BLOCKS \<le> current_block_height t"
    with still_exiting [OF auth this(1) _ this(3,4)]
    show "\<exists>u. apply_intent H (WithdrawAuthorityStake dst k (ucast (sr_deposited_stake r'))) t = Ok u \<and>
         unat (balance u dst) = unat (balance t dst) + unat (sr_deposited_stake r') \<and> authority_deposited_stake H u k = 0"
      by (intro authority_withdraw_pays [OF ok assms(5) sup backed(1) _ _ _ _ assms(9)]) simp_all
  next
    fix r r'
    assume "validator_record H s k = Some r" "sr_status r = ValExiting" "validator_record H t k = Some r'"
      "sr_status r' \<noteq> ValEjected" "sr_deposited_stake r' \<noteq> 0"
      "saturating_add (sr_exit_block_height r) EXIT_COOLDOWN_BLOCKS \<le> current_block_height t"
    with still_exiting [OF val this(1) _ this(3,4)]
    show "\<exists>u. apply_intent H (WithdrawValidatorStake dst k (ucast (sr_deposited_stake r'))) t = Ok u \<and>
         unat (balance u dst) = unat (balance t dst) + unat (sr_deposited_stake r') \<and> validator_deposited_stake H u k = 0"
      by (intro validator_withdraw_pays [OF ok assms(5) sup backed(2) _ _ _ _ assms(9)]) simp_all
  qed
qed

section \<open>Example\<close>

text \<open>A slot that exited at height 7 with 40 coins deposited.\<close>

definition demo_slot :: AuthorityRecord where
  "demo_slot = \<lparr>sr_mldsa_public_key = [1], sr_bls_public_key = [2], sr_stake_suwappu = 10,
     sr_deposited_stake = 40, sr_exit_block_height = 7, sr_status = AuthExiting\<rparr>"

definition demo_exit :: InMemorySubstrate where
  "demo_exit = write_bytes_unchecked (authority_registry_address demo_blake) (authority_encode (bt_insert 3 demo_slot bt_empty))
     (substrate_new\<lparr>balances := bt_insert (authority_stake_pool_address demo_blake) 40 bt_empty\<rparr>)"

definition demo_chain :: "Block list" where
  "demo_chain = [\<lparr>blk_round = 2419207, blk_intents = [PostL2DA 0 []]\<rparr>]"

lemma demo_exit_decode:
  "authority_decode demo_blake (stored demo_exit (authority_registry_address demo_blake)) = Inr (bt_insert 3 demo_slot bt_empty)"
  using auth_map.store_insert [OF auth_lookup.decode_nil, of 3 demo_slot demo_blake]
  by (simp add: demo_exit_def demo_slot_def slot_fits_def slot_size_defs)

lemma demo_exit_stored:
  "a \<noteq> authority_registry_address demo_blake \<Longrightarrow> stored demo_exit a = []"
  by (simp add: demo_exit_def)

lemma demo_exit_ok: "registries_ok demo_blake 1 demo_exit"
proof -
  have new: "registries_ok demo_blake 1 substrate_new"
    by (rule registries_ok_mono [OF registries_ok_new]) simp
  have "bt_len (bt_insert 3 demo_slot bt_empty) \<le> 1"
    using bt_len_insert_le [of 3 demo_slot bt_empty] by simp
  then show ?thesis
    using new demo_exit_decode registries_distinct [OF demo_reserved_distinct]
    unfolding registries_ok_def by (auto simp: demo_exit_stored decodes_def)
qed

lemma demo_exit_backed: "authority_backed demo_blake demo_exit" "validator_backed demo_blake demo_exit"
proof -
  have bal: "balance demo_exit (authority_stake_pool_address demo_blake) = 40"
    by (simp add: demo_exit_def balance_def bt.get_insert)
  show "authority_backed demo_blake demo_exit"
    using bt_sum_insert [of "\<lambda>r. unat (sr_deposited_stake r)" "3 :: u32" demo_slot bt_empty]
    by (simp add: authority_backed_def deposits_def demo_exit_decode bal demo_slot_def)
  show "validator_backed demo_blake demo_exit"
    using registries_distinct [OF demo_reserved_distinct]
    by (auto simp: validator_backed_def deposits_def delegations_def demo_exit_stored val_lookup.decode_nil
        delegation_decode_def decode_fixed_def)
qed

theorem exited_stake_withdrawable_witness:
  "\<exists>u. apply_intent demo_blake (WithdrawAuthorityStake 1 3 40) (execute_chain demo_blake demo_chain demo_exit) = Ok u \<and>
    unat (balance u 1) = 40 \<and> authority_deposited_stake demo_blake u 3 = 0"
proof -
  let ?t = "execute_chain demo_blake demo_chain demo_exit"
  have t: "?t = set_current_block_height 2419207 demo_exit"
    by (simp add: execute_chain_def demo_chain_def execute_block_def)
  have rec: "authority_record demo_blake demo_exit 3 = Some demo_slot"
    by (simp add: authority_record_def auth_lookup.lookup_iff demo_exit_decode bt.get_insert)
  have "coin_supply demo_exit = 40"
    using bt_sum_insert [of unat "authority_stake_pool_address demo_blake" "40 :: Balance" bt_empty]
    by (simp add: demo_exit_def coin_supply_def)
  moreover have "1 \<noteq> authority_stake_pool_address demo_blake"
    using demo_user(1) stake_pools_reserved(1) [of demo_blake] by auto
  then have "balance demo_exit 1 = 0"
    by (simp add: demo_exit_def balance_def bt.get_insert)
  ultimately show ?thesis
    using exited_stake_withdrawable [OF demo_reserved_distinct demo_exit_ok demo_exit_backed, of demo_chain ?t 1 3]
      rec demo_user(1)
    by (simp add: t [unfolded demo_chain_def] demo_chain_def demo_slot_def EXIT_COOLDOWN_BLOCKS_def saturating_add_eq)
qed

end
