(* ===== verification/State_Commitment.thy ===== *)
theory State_Commitment
  imports Block_Exec
begin

text \<open>
  The state root as a commitment.  \<open>canonical\<close> is the zero-is-absent invariant of the two maps of the
  substrate; every intent keeps it, so the root is a function of the logical state, and equal roots
  mean equal states up to an exhibited collision of the hash.  The locale \<open>primitive_invariant\<close> is the
  contract of an invariant of the state: what the three mutation primitives keep, every intent keeps.
\<close>

section \<open>Invariants of the primitives\<close>

definition canonical :: "InMemorySubstrate \<Rightarrow> bool" where
  "canonical s \<longleftrightarrow> bt_all (\<lambda>a bal. bal \<noteq> 0) (balances s) \<and> bt_all (\<lambda>a d. d \<noteq> []) (bytes_state s)"

locale primitive_invariant =
  fixes Q :: "InMemorySubstrate \<Rightarrow> bool"
  assumes credit_keeps: "Q s \<Longrightarrow> Q (out_state (credit_unchecked a amt s))"
    and debit_keeps: "Q s \<Longrightarrow> Q (out_state (debit_unchecked a amt s))"
    and write_keeps: "Q s \<Longrightarrow> Q (write_bytes_unchecked a bs s)"
begin

lemma then_keeps: "Q (out_state m) \<Longrightarrow> (\<And>t. Q t \<Longrightarrow> Q (out_state (k t))) \<Longrightarrow> Q (out_state (and_then m k))"
  by (cases m) simp_all

lemma rollback_keeps: "Q s \<Longrightarrow> Q (out_state m) \<Longrightarrow> Q (out_state (rollback m s))"
  by (cases m) simp_all

lemma try_keeps: "Q s \<Longrightarrow> (\<And>a. r = Inr a \<Longrightarrow> Q (out_state (k a))) \<Longrightarrow> Q (out_state (try_value r s k))"
  by (cases r) simp_all

lemma if_keeps: "Q (out_state x) \<Longrightarrow> Q (out_state y) \<Longrightarrow> Q (out_state (if b then x else y))"
  by simp

lemma option_keeps: "Q (out_state r) \<Longrightarrow> (\<And>a. Q (out_state (k a))) \<Longrightarrow> Q (out_state (case x of None \<Rightarrow> r | Some a \<Rightarrow> k a))"
  by (cases x) simp_all

lemma sum_keeps: "(\<And>a. Q (out_state (f a))) \<Longrightarrow> (\<And>a. Q (out_state (k a))) \<Longrightarrow> Q (out_state (case x of Inl a \<Rightarrow> f a | Inr a \<Rightarrow> k a))"
  by (cases x) simp_all

lemma pair_keeps: "(\<And>a b. Q (out_state (f a b))) \<Longrightarrow> Q (out_state (case x of (a, b) \<Rightarrow> f a b))"
  by (cases x) simp

lemma map_error_keeps: "Q (out_state m) \<Longrightarrow> Q (out_state (case m of Ok t \<Rightarrow> Ok t | Err e t \<Rightarrow> Err (f e) t))"
  by (cases m) simp_all

lemma Ok_keeps: "Q s \<Longrightarrow> Q (out_state (Ok s))"
  by simp

lemma Err_keeps: "Q s \<Longrightarrow> Q (out_state (Err e s))"
  by simp

lemma credit_all_keeps: "Q s \<Longrightarrow> Q (out_state (credit_all cs s))"
  by (induction cs arbitrary: s) (auto intro!: then_keeps credit_keeps)

lemma atomic_keeps:
  assumes "Q s"
  shows "Q (out_state (transfer_internal a b amt s))" "Q (out_state (credit_many_atomic cs s))"
    "Q (out_state (drain_and_credit_atomic a cs s))"
  unfolding transfer_internal_rollback credit_many_rollback drain_and_credit_rollback
  by (intro rollback_keeps then_keeps try_keeps debit_keeps credit_keeps credit_all_keeps assms | assumption)+

lemma split_slash_keeps: "Q s \<Longrightarrow> Q (out_state (split_slash H amt s))"
  unfolding split_slash_def Let_def by (intro then_keeps credit_keeps)

lemma pay_bounty_keeps: "Q s \<Longrightarrow> Q (out_state (pay_bounty H bounty a s))"
  unfolding pay_bounty_def Let_def by (intro if_keeps then_keeps debit_keeps credit_keeps Ok_keeps)

lemma intent_keeps:
  assumes "Q s"
  shows "Q (out_state (apply_intent H i s))"
proof (induction i)
  case (SlashSequencer reason h)
  show ?case
    by (cases reason; simp only: apply_intent.simps apply_slash.simps apply_slash_missed_def apply_slash_offense_def
        Let_def;
        (intro then_keeps try_keeps if_keeps option_keeps split_slash_keeps pay_bounty_keeps Ok_keeps Err_keeps credit_keeps debit_keeps write_keeps assms | assumption)+)
qed (simp only: apply_intent.simps ring_arms fund_arms l2_arms apply_l2_burn_def apply_eject_sequencer_def Let_def,
     (intro then_keeps try_keeps if_keeps option_keeps sum_keeps pair_keeps map_error_keeps Ok_keeps Err_keeps
        credit_keeps debit_keeps write_keeps atomic_keeps credit_all_keeps pay_bounty_keeps assms | assumption)+)+

lemma trace_keeps: "Q s \<Longrightarrow> Q (run_intents H is s)"
  by (induction "is" arbitrary: s) (simp_all add: intent_keeps)

end

section \<open>Zero is absent\<close>

lemma bt_all_remove: "bt_all P m \<Longrightarrow> bt_all P (bt_remove k m)"
  by (simp add: bt_all_iff bt.get_remove)

interpretation canonical_state: primitive_invariant canonical
proof
  fix s a amt
  assume s: "canonical s"
  show "canonical (out_state (credit_unchecked a amt s))"
  proof (cases "credit_unchecked a amt s")
    case (Ok t)
    have "new \<noteq> 0" if "checked_add (balance s a) amt = Some new" "amt \<noteq> 0" for new
      using checked_add_SomeD [OF that(1)] that(2) by (auto simp: unat_eq_0 [symmetric] simp del: unat_eq_0)
    then show ?thesis
      using s Ok by (auto simp: credit_unchecked_def outcome_simps canonical_def bt_all_insert split: if_splits)
  qed (use s credit_ErrD in fastforce)
  show "canonical (out_state (debit_unchecked a amt s))"
    using s by (auto simp: debit_unchecked_def Let_def canonical_def put_balance_def bt_all_insert bt_all_remove)
  show "canonical (write_bytes_unchecked a bs s)" for bs
    using s by (auto simp: write_bytes_unchecked_def canonical_def bt_all_insert bt_all_remove)
qed

lemma canonical_get:
  assumes "canonical s"
  shows "bt_get (balances s) a = (if balance s a = 0 then None else Some (balance s a))"
    and "bt_get (bytes_state s) a = (if stored s a = [] then None else Some (stored s a))"
  using assms unfolding canonical_def bt_all_iff
  by (cases "bt_get (balances s) a"; simp add: balance_def; blast)
    (use assms in \<open>cases "bt_get (bytes_state s) a"; auto simp: canonical_def bt_all_iff stored_def read_bytes_def\<close>)

lemma canonical_ext:
  assumes "canonical s" "canonical t" "\<And>a. balance s a = balance t a" "\<And>a. stored s a = stored t a"
  shows "balances s = balances t" "bytes_state s = bytes_state t"
  by (rule bt.map_ext, simp add: canonical_get assms)+

section \<open>Encodings without ambiguity\<close>

lemma be_bytes_not_Nil [simp]: "be_bytes (numeral k) w \<noteq> []"
  by (simp add: be_bytes_numeral)

lemma concat_map_inject:
  assumes "\<And>x y u v. x \<in> A \<Longrightarrow> y \<in> A \<Longrightarrow> e x @ u = e y @ v \<Longrightarrow> x = y \<and> u = v" "\<And>x. e x \<noteq> []"
    and "concat (map e xs) = concat (map e ys)" "set xs \<subseteq> A" "set ys \<subseteq> A"
  shows "xs = ys"
  using assms(3-5)
proof (induction xs arbitrary: ys)
  case Nil
  then show ?case
    using assms(2) by (cases ys) auto
next
  case (Cons x xs)
  then obtain y ys' where "ys = y # ys'"
    using assms(2) by (cases ys) auto
  with Cons assms(1) [of x y "concat (map e xs)" "concat (map e ys')"] show ?case
    by auto
qed

lemma balances_preimage_inject:
  assumes "balances_preimage xs = balances_preimage ys"
  shows "xs = ys"
proof (rule concat_map_inject [of UNIV "\<lambda>(a, b). be_bytes 20 a @ be_bytes 16 b"])
  show "concat (map (\<lambda>(a, b). be_bytes 20 a @ be_bytes 16 b) xs) = concat (map (\<lambda>(a, b). be_bytes 20 a @ be_bytes 16 b) ys)"
    using assms by (simp add: balances_preimage_def)
qed (auto simp: be_bytes_inject append_eq_append_conv)

lemma bytes_preimage_inject:
  assumes "bytes_preimage xs = bytes_preimage ys" "\<forall>(a, d) \<in> set xs \<union> set ys. length d < 2 ^ 32"
  shows "xs = ys"
proof (rule concat_map_inject [of "{p. length (snd p) < 2 ^ 32}" "\<lambda>(a, d). be_bytes 20 a @ be_bytes 4 (len_u32 d) @ d"])
  show "concat (map (\<lambda>(a, d). be_bytes 20 a @ be_bytes 4 (len_u32 d) @ d) xs) =
      concat (map (\<lambda>(a, d). be_bytes 20 a @ be_bytes 4 (len_u32 d) @ d) ys)"
    using assms(1) by (simp add: bytes_preimage_def)
  fix x y :: "address \<times> bytes" and u v
  assume "x \<in> {p. length (snd p) < 2 ^ 32}" "y \<in> {p. length (snd p) < 2 ^ 32}"
    and eq: "(case x of (a, d) \<Rightarrow> be_bytes 20 a @ be_bytes 4 (len_u32 d) @ d) @ u =
      (case y of (a, d) \<Rightarrow> be_bytes 20 a @ be_bytes 4 (len_u32 d) @ d) @ v"
  then have "unat (len_u32 (snd x)) = length (snd x)" "unat (len_u32 (snd y)) = length (snd y)"
    by (auto intro: len_u32_unat)
  with eq show "x = y \<and> u = v"
    by (cases x; cases y) (auto simp: be_bytes_inject append_eq_append_conv)
qed (use assms(2) in auto)

section \<open>The root commits to the state\<close>

definition collides :: "hasher \<Rightarrow> bytes \<Rightarrow> bytes \<Rightarrow> bool" where
  "collides H x y \<longleftrightarrow> x \<noteq> y \<and> H x = H y"

definition root_preimage :: "hasher \<Rightarrow> InMemorySubstrate \<Rightarrow> bytes" where
  "root_preimage H s =
     string_bytes ''SUWAPPU-STATE-ROOT-V2'' @ be_bytes 32 (H (balances_preimage (bt_entries (balances s)))) @
       be_bytes 32 (H (bytes_preimage (bt_entries (bytes_state s))))"

definition root_collision :: "hasher \<Rightarrow> InMemorySubstrate \<Rightarrow> InMemorySubstrate \<Rightarrow> bool" where
  "root_collision H s t \<longleftrightarrow>
     collides H (root_preimage H s) (root_preimage H t) \<or>
     collides H (balances_preimage (bt_entries (balances s))) (balances_preimage (bt_entries (balances t))) \<or>
     collides H (bytes_preimage (bt_entries (bytes_state s))) (bytes_preimage (bt_entries (bytes_state t)))"

lemma equal_roots:
  assumes "state_root H s = state_root H t" "\<not> root_collision H s t"
    and "\<forall>a. length (stored s a) < 2 ^ 32" "\<forall>a. length (stored t a) < 2 ^ 32"
  shows "balances s = balances t \<and> bytes_state s = bytes_state t"
proof -
  have top: "state_root H u = H (root_preimage H u)" for u
    by (simp add: state_root_def compute_state_root_v2_def root_preimage_def)
  have "root_preimage H s = root_preimage H t"
    using assms(1,2) by (auto simp: top root_collision_def collides_def)
  then have eq: "balances_preimage (bt_entries (balances s)) = balances_preimage (bt_entries (balances t))"
    "bytes_preimage (bt_entries (bytes_state s)) = bytes_preimage (bt_entries (bytes_state t))"
    using assms(2) by (auto simp: root_preimage_def be_bytes_inject root_collision_def collides_def)
  have "length d < 2 ^ 32" if "(a, d) \<in> set (bt_entries (bytes_state u))" "u = s \<or> u = t" for a d u
    using that assms(3,4) [THEN spec, of a] by (auto simp: bt.entries_get stored_def read_bytes_def)
  with eq have "bt_entries (balances s) = bt_entries (balances t)" "bt_entries (bytes_state s) = bt_entries (bytes_state t)"
    by (auto intro!: balances_preimage_inject bytes_preimage_inject)
  then show ?thesis
    by (simp add: bt_entries_inject)
qed

text \<open>
  C16.  The state root commits to the ledger.  Take two executions from a state in which no zero balance and
  no empty byte string is stored, such as the empty substrate.  When both end with the same logical state
  (every balance and every byte string read back equal), their roots are equal, whatever the two histories
  were.  Conversely equal roots mean equal logical states, unless the preimages of one of the three hashes
  of the root are an explicit collision; byte strings are shorter than the \<open>2 ^ 32\<close> of their length prefix.
\<close>

theorem state_root_commits:
  assumes "canonical s0" "s = run_intents H is s0" "t = run_intents H js s0"
    and "\<forall>a. length (stored s a) < 2 ^ 32" "\<forall>a. length (stored t a) < 2 ^ 32"
  shows "(state_root H s = state_root H t \<and> \<not> root_collision H s t \<longrightarrow> (\<forall>a. balance s a = balance t a \<and> stored s a = stored t a)) \<and>
    ((\<forall>a. balance s a = balance t a \<and> stored s a = stored t a) \<longrightarrow> state_root H s = state_root H t)"
proof (intro conjI impI)
  assume "state_root H s = state_root H t \<and> \<not> root_collision H s t"
  then have "balances s = balances t \<and> bytes_state s = bytes_state t"
    using equal_roots assms(4,5) by blast
  then show "\<forall>a. balance s a = balance t a \<and> stored s a = stored t a"
    by (simp add: balance_def stored_def read_bytes_def)
next
  assume "\<forall>a. balance s a = balance t a \<and> stored s a = stored t a"
  then show "state_root H s = state_root H t"
    using canonical_ext [of s t] canonical_state.trace_keeps assms(1-3) by (simp add: state_root_def)
qed

lemma canonical_new: "canonical substrate_new"
  by (simp add: canonical_def substrate_new_def bt_all_iff)

theorem state_root_commits_witness:
  "state_root demo_blake (run_intents demo_blake [GenesisAllocation [(1, 5)], GenesisAllocation [(2, 7)]] substrate_new) =
   state_root demo_blake (run_intents demo_blake [GenesisAllocation [(2, 7)], GenesisAllocation [(1, 5)]] substrate_new)"
proof -
  let ?s = "run_intents demo_blake [GenesisAllocation [(1, 5)], GenesisAllocation [(2, 7)]] substrate_new"
  let ?t = "run_intents demo_blake [GenesisAllocation [(2, 7)], GenesisAllocation [(1, 5)]] substrate_new"
  have st: "balance ?s a = balance ?t a" "stored ?s a = []" "stored ?t a = []" for a
    by (simp_all add: apply_genesis_def credit_many_rollback substrate_new_def credit_unchecked_def balance_def
        outcome_simps bt.get_insert checked_add_def stored_def read_bytes_def)
  show ?thesis
    by (rule state_root_commits [OF canonical_new refl refl, THEN conjunct2, THEN mp]) (simp_all only: st, simp_all)
qed

end
