(* ===== verification/Checkpoint.thy ===== *)
theory Checkpoint
  imports State_Commitment Authority_Ring
begin

text \<open>
  Checkpoints, \<open>suwappu-execution/src/checkpoint.rs\<close>: the checkpoint and its domain-separated hash, signing,
  ratification by an authority quorum, and the cadence-driven producer that chains checkpoints by hash.
  \<open>Checkpointer::new\<close> panics on a zero cadence, which is \<open>None\<close> here.  The lemmas characterise ratification,
  count the authorities two ratified checkpoints share, and show that the hash of the latest checkpoint
  binds the whole chain behind it.
\<close>

record Checkpoint =
  ck_height :: u64
  ck_round :: Round
  ck_state_root :: hash32
  ck_prev_checkpoint :: hash32

definition checkpoint_preimage :: "Checkpoint \<Rightarrow> bytes" where
  "checkpoint_preimage c =
     string_bytes ''SUWAPPU-CHECKPOINT-V1'' @ be_bytes 8 (ck_height c) @ be_bytes 8 (ck_round c) @
     be_bytes 32 (ck_state_root c) @ be_bytes 32 (ck_prev_checkpoint c)"

definition checkpoint_hash :: "hasher \<Rightarrow> Checkpoint \<Rightarrow> hash32" where
  "checkpoint_hash H c = H (checkpoint_preimage c)"

record CheckpointSignature =
  cs_authority :: AuthorityId
  cs_signature :: bytes

record CoSignedCheckpoint =
  co_checkpoint :: Checkpoint
  co_signatures :: "CheckpointSignature list"

datatype CheckpointError =
    CkBelowQuorum u32 u32
  | CkUnknownSigner AuthorityId
  | CkInvalidSignature AuthorityId
  | CkMalformedKey AuthorityId

definition sign_checkpoint ::
  "hasher \<Rightarrow> mldsa65 \<Rightarrow> AuthorityId \<Rightarrow> SecretKey \<Rightarrow> Checkpoint \<Rightarrow> CryptoError + CheckpointSignature" where
  "sign_checkpoint H M authority sk c =
     res_bind (mldsa_sign M (be_bytes 32 (checkpoint_hash H c)) sk) (\<lambda>sig.
       Inr \<lparr>cs_authority = authority, cs_signature = sig_bytes sig\<rparr>)"

text \<open>One iteration of the loop of \<open>ratify_checkpoint\<close>, the checks on one signature.\<close>

definition verify_signer ::
  "mldsa65 \<Rightarrow> hash32 \<Rightarrow> AuthorityRegistry \<Rightarrow> CheckpointSignature \<Rightarrow> CheckpointError + unit" where
  "verify_signer M digest registry sig =
     (case authority_get registry (cs_authority sig) of
        None \<Rightarrow> Inl (CkUnknownSigner (cs_authority sig))
      | Some m \<Rightarrow>
          (case pk_from_bytes M (am_public_key_bytes m) of
             Inl _ \<Rightarrow> Inl (CkMalformedKey (cs_authority sig))
           | Inr pk \<Rightarrow>
               (case sig_from_bytes M (cs_signature sig) of
                  Inl _ \<Rightarrow> Inl (CkInvalidSignature (cs_authority sig))
                | Inr sig_typed \<Rightarrow>
                    (case mldsa_verify M (be_bytes 32 digest) sig_typed pk of
                       Inl _ \<Rightarrow> Inl (CkInvalidSignature (cs_authority sig))
                     | Inr _ \<Rightarrow> Inr ()))))"

fun collect_verified ::
  "mldsa65 \<Rightarrow> hash32 \<Rightarrow> AuthorityRegistry \<Rightarrow> CheckpointSignature list \<Rightarrow> (AuthorityId, CheckpointSignature) btmap \<Rightarrow>
     CheckpointError + (AuthorityId, CheckpointSignature) btmap" where
  "collect_verified M digest registry [] verified = Inr verified"
| "collect_verified M digest registry (sig # sigs) verified =
     res_bind (verify_signer M digest registry sig) (\<lambda>_.
       collect_verified M digest registry sigs (bt_insert (cs_authority sig) sig verified))"

definition ratify_checkpoint ::
  "hasher \<Rightarrow> mldsa65 \<Rightarrow> Checkpoint \<Rightarrow> CheckpointSignature list \<Rightarrow> AuthorityRegistry \<Rightarrow> CheckpointError + CoSignedCheckpoint" where
  "ratify_checkpoint H M c signatures registry =
     (let digest = checkpoint_hash H c; need = authority_quorum_threshold registry in
      res_bind (collect_verified M digest registry signatures bt_empty) (\<lambda>verified.
        let have_n = word_of_nat (bt_len verified) :: u32 in
        if have_n < need then Inl (CkBelowQuorum have_n need)
        else Inr \<lparr>co_checkpoint = c, co_signatures = bt_values verified\<rparr>))"

record Checkpointer =
  cp_cadence :: u32
  cp_next_height :: u64
  cp_last_hash :: hash32

definition checkpointer_new :: "u32 \<Rightarrow> Checkpointer option" where
  "checkpointer_new cadence =
     (if 1 \<le> cadence then Some \<lparr>cp_cadence = cadence, cp_next_height = 0, cp_last_hash = 0\<rparr> else None)"

definition maybe_emit :: "hasher \<Rightarrow> Round \<Rightarrow> hash32 \<Rightarrow> Checkpointer \<Rightarrow> Checkpoint option \<times> Checkpointer" where
  "maybe_emit H r root p =
     (if r mod ucast (cp_cadence p) = 0
      then let c = \<lparr>ck_height = cp_next_height p, ck_round = r, ck_state_root = root, ck_prev_checkpoint = cp_last_hash p\<rparr>
           in (Some c, p\<lparr>cp_last_hash := checkpoint_hash H c, cp_next_height := cp_next_height p + 1\<rparr>)
      else (None, p))"

text \<open>A run of the producer over the rounds a node decides, with what it emitted, oldest first.\<close>

fun emit_all :: "hasher \<Rightarrow> (Round \<times> hash32) list \<Rightarrow> Checkpointer \<Rightarrow> Checkpoint list \<times> Checkpointer" where
  "emit_all H [] p = ([], p)"
| "emit_all H ((r, root) # obs) p =
     (case maybe_emit H r root p of (c, p') \<Rightarrow>
       (case emit_all H obs p' of (cs, q) \<Rightarrow> ((case c of None \<Rightarrow> cs | Some c \<Rightarrow> c # cs), q)))"

section \<open>Ratification\<close>

definition signer_valid :: "mldsa65 \<Rightarrow> hash32 \<Rightarrow> AuthorityRegistry \<Rightarrow> AuthorityId \<Rightarrow> bytes \<Rightarrow> bool" where
  "signer_valid M digest registry a sg \<longleftrightarrow>
     (case authority_get registry a of None \<Rightarrow> False
      | Some m \<Rightarrow> raw_pk_ok M (am_public_key_bytes m) \<and> raw_sig_ok M sg \<and>
          raw_verify_detached M sg (be_bytes 32 digest) (am_public_key_bytes m))"

lemma verify_signer_ok: "verify_signer M digest registry sig = Inr u \<longleftrightarrow> signer_valid M digest registry (cs_authority sig) (cs_signature sig)"
  by (auto simp: verify_signer_def signer_valid_def pk_from_bytes_def sig_from_bytes_def mldsa_verify_def split: option.splits)

lemma signer_valid_iff: "signer_valid M digest registry (cs_authority sig) (cs_signature sig) \<longleftrightarrow> verify_signer M digest registry sig = Inr ()"
  by (simp add: verify_signer_ok)

lemma find_SomeD: "find P xs = Some x \<Longrightarrow> P x \<and> x \<in> set xs"
  by (auto simp: find_Some_iff)

definition collected :: "CheckpointSignature list \<Rightarrow> (AuthorityId, CheckpointSignature) btmap \<Rightarrow> (AuthorityId, CheckpointSignature) btmap" where
  "collected sigs verified = foldl (\<lambda>m sig. bt_insert (cs_authority sig) sig m) verified sigs"

lemma collect_verified_Inr:
  "collect_verified M digest registry sigs verified = Inr m \<longleftrightarrow>
     (\<forall>sig \<in> set sigs. signer_valid M digest registry (cs_authority sig) (cs_signature sig)) \<and> m = collected sigs verified"
proof (induction sigs arbitrary: verified)
  case (Cons sig sigs)
  then show ?case
    by (cases "verify_signer M digest registry sig") (auto simp: collected_def signer_valid_iff)
qed (auto simp: collected_def)

lemma collect_verified_Inl:
  "collect_verified M digest registry sigs verified = Inl e \<longleftrightarrow>
     (\<exists>pre sig post. sigs = pre @ sig # post \<and> verify_signer M digest registry sig = Inl e \<and>
        (\<forall>x \<in> set pre. signer_valid M digest registry (cs_authority x) (cs_signature x)))"
  (is "?lhs sigs verified \<longleftrightarrow> ?rhs sigs")
proof (induction sigs arbitrary: verified)
  case (Cons sig sigs)
  have split_Cons: "?rhs (sig # sigs) \<longleftrightarrow>
      verify_signer M digest registry sig = Inl e \<or> verify_signer M digest registry sig = Inr () \<and> ?rhs sigs"
    (is "_ \<longleftrightarrow> ?split")
  proof
    assume "?rhs (sig # sigs)"
    then obtain pre x post where *: "sig # sigs = pre @ x # post" "verify_signer M digest registry x = Inl e"
      "\<forall>x \<in> set pre. signer_valid M digest registry (cs_authority x) (cs_signature x)"
      by blast
    then show ?split
      by (cases pre) (auto simp: signer_valid_iff)
  next
    assume ?split
    then show "?rhs (sig # sigs)"
    proof (elim disjE conjE exE)
      assume "verify_signer M digest registry sig = Inl e"
      then show ?thesis
        by (intro exI [of _ "[]"] exI [of _ sig] exI [of _ sigs]) simp
    next
      fix pre x post
      assume "verify_signer M digest registry sig = Inr ()" "sigs = pre @ x # post" "verify_signer M digest registry x = Inl e"
        "\<forall>x \<in> set pre. signer_valid M digest registry (cs_authority x) (cs_signature x)"
      then show ?thesis
        by (intro exI [of _ "sig # pre"] exI [of _ x] exI [of _ post]) (simp add: signer_valid_iff)
    qed
  qed
  show ?case
    unfolding split_Cons by (cases "verify_signer M digest registry sig") (simp_all add: Cons)
qed simp

lemma collected_get:
  "bt_get (collected sigs verified) a =
     (case find (\<lambda>x. cs_authority x = a) (rev sigs) of None \<Rightarrow> bt_get verified a | Some x \<Rightarrow> Some x)"
  by (induction sigs rule: rev_induct) (auto simp: collected_def bt.get_insert)

lemma collected_keys: "set (bt_keys (collected sigs bt_empty)) = cs_authority ` set sigs"
proof -
  have "bt_get (collected sigs bt_empty) a \<noteq> None \<longleftrightarrow> a \<in> cs_authority ` set sigs" for a
    by (auto simp: collected_get find_None_iff dest: find_SomeD split: option.splits)
  then show ?thesis
    by (auto simp: set_bt_keys)
qed

lemma collected_values:
  "map cs_authority (bt_values (collected sigs bt_empty)) = bt_keys (collected sigs bt_empty)"
  "set (bt_values (collected sigs bt_empty)) \<subseteq> set sigs"
proof -
  have "cs_authority x = a \<and> x \<in> set sigs" if "(a, x) \<in> set (bt_entries (collected sigs bt_empty))" for a x
    using that by (auto simp: bt.entries_get collected_get dest: find_SomeD split: option.splits)
  then show "map cs_authority (bt_values (collected sigs bt_empty)) = bt_keys (collected sigs bt_empty)"
    "set (bt_values (collected sigs bt_empty)) \<subseteq> set sigs"
    by (auto simp: bt_values_def bt_keys_def)
qed

lemma ring_quorum:
  assumes "authority_ring_ok registry" "0 < authority_len registry"
  shows "unat (authority_quorum_threshold registry) = authority_len registry - (authority_len registry - 1) div 3"
proof -
  have "authority_len registry \<le> 50"
    using assms(1) by (simp add: ring_ok_def AUTHORITY_RING_MAX_def authority_len_def)
  then have "unat (word_of_nat (authority_len registry) :: u32) = authority_len registry"
    by (simp add: unsigned_of_nat take_bit_nat_eq_self)
  then show ?thesis
    using assms(2) unat_quorum_threshold [of "word_of_nat (authority_len registry)"]
    by (simp add: authority_quorum_eq [OF assms(1)] word_less_nat_alt authority_len_def)
qed

lemma signer_seated: "signer_valid M digest registry a sg \<Longrightarrow> a \<in> set (bt_keys (auth_members registry))"
  by (auto simp: signer_valid_def set_bt_keys authority_get_def split: option.splits)

lemma collected_len:
  assumes "authority_ring_ok registry" "\<forall>sig \<in> set sigs. signer_valid M digest registry (cs_authority sig) (cs_signature sig)"
  shows "bt_len (collected sigs bt_empty) = card (cs_authority ` set sigs)"
    "unat (word_of_nat (bt_len (collected sigs bt_empty)) :: u32) = card (cs_authority ` set sigs)"
proof -
  show eq: "bt_len (collected sigs bt_empty) = card (cs_authority ` set sigs)"
    by (simp add: bt_len_keys collected_keys)
  have "card (cs_authority ` set sigs) \<le> card (set (bt_keys (auth_members registry)))"
    using assms(2) by (intro card_mono) (auto dest: signer_seated)
  also have "\<dots> \<le> 50"
    using assms(1) by (simp add: bt_len_keys ring_ok_def AUTHORITY_RING_MAX_def)
  finally show "unat (word_of_nat (bt_len (collected sigs bt_empty)) :: u32) = card (cs_authority ` set sigs)"
    by (simp add: eq unsigned_of_nat take_bit_nat_eq_self)
qed

lemma ratify_Inr_iff:
  assumes "authority_ring_ok registry"
  shows "ratify_checkpoint H M c sigs registry = Inr x \<longleftrightarrow>
    (\<forall>sig \<in> set sigs. signer_valid M (checkpoint_hash H c) registry (cs_authority sig) (cs_signature sig)) \<and>
    unat (authority_quorum_threshold registry) \<le> card (cs_authority ` set sigs) \<and>
    x = \<lparr>co_checkpoint = c, co_signatures = bt_values (collected sigs bt_empty)\<rparr>" (is "?lhs \<longleftrightarrow> ?rhs")
proof (cases "\<forall>sig \<in> set sigs. signer_valid M (checkpoint_hash H c) registry (cs_authority sig) (cs_signature sig)")
  case True
  then have "collect_verified M (checkpoint_hash H c) registry sigs bt_empty = Inr (collected sigs bt_empty)"
    by (simp add: collect_verified_Inr)
  with True collected_len [OF assms True] show ?thesis
    by (auto simp: ratify_checkpoint_def Let_def word_less_nat_alt)
next
  case False
  then show ?thesis
    by (cases "collect_verified M (checkpoint_hash H c) registry sigs bt_empty")
      (auto simp: ratify_checkpoint_def Let_def collect_verified_Inr)
qed

lemma ratify_Inl_iff:
  assumes "authority_ring_ok registry"
  shows "ratify_checkpoint H M c sigs registry = Inl e \<longleftrightarrow>
    (\<exists>pre sig post. sigs = pre @ sig # post \<and> verify_signer M (checkpoint_hash H c) registry sig = Inl e \<and>
       (\<forall>x \<in> set pre. signer_valid M (checkpoint_hash H c) registry (cs_authority x) (cs_signature x))) \<or>
    (\<forall>sig \<in> set sigs. signer_valid M (checkpoint_hash H c) registry (cs_authority sig) (cs_signature sig)) \<and>
    card (cs_authority ` set sigs) < unat (authority_quorum_threshold registry) \<and>
    e = CkBelowQuorum (word_of_nat (card (cs_authority ` set sigs))) (authority_quorum_threshold registry)"
  (is "_ \<longleftrightarrow> ?bad \<or> _")
proof (cases "collect_verified M (checkpoint_hash H c) registry sigs bt_empty")
  case (Inl e')
  then have "\<not> (\<forall>sig \<in> set sigs. signer_valid M (checkpoint_hash H c) registry (cs_authority sig) (cs_signature sig))"
    using collect_verified_Inr [of M "checkpoint_hash H c" registry sigs bt_empty "collected sigs bt_empty"] by auto
  moreover have "?bad \<longleftrightarrow> e' = e"
    unfolding collect_verified_Inl [of _ _ _ _ bt_empty, symmetric] by (simp add: Inl)
  ultimately show ?thesis
    unfolding ratify_checkpoint_def Inl Let_def by (simp only: res_bind.simps) auto
next
  case (Inr m)
  then have valid: "\<forall>sig \<in> set sigs. signer_valid M (checkpoint_hash H c) registry (cs_authority sig) (cs_signature sig)"
    and m: "m = collected sigs bt_empty"
    by (simp_all add: collect_verified_Inr)
  moreover have "\<not> ?bad"
    unfolding collect_verified_Inl [of _ _ _ _ bt_empty, symmetric] by (simp add: Inr)
  ultimately show ?thesis
    using collected_len [OF assms valid] by (auto simp: ratify_checkpoint_def Inr Let_def word_less_nat_alt)
qed

lemma ratified_signers:
  assumes "authority_ring_ok registry" "ratify_checkpoint H M c sigs registry = Inr x"
  shows "set (map cs_authority (co_signatures x)) \<subseteq> set (bt_keys (auth_members registry))"
    "distinct (map cs_authority (co_signatures x))"
    "unat (authority_quorum_threshold registry) \<le> card (set (map cs_authority (co_signatures x)))"
    "\<forall>sig \<in> set (co_signatures x). signer_valid M (checkpoint_hash H c) registry (cs_authority sig) (cs_signature sig)"
proof -
  note ok = assms(2) [unfolded ratify_Inr_iff [OF assms(1)]]
  then show valid: "\<forall>sig \<in> set (co_signatures x). signer_valid M (checkpoint_hash H c) registry (cs_authority sig) (cs_signature sig)"
    using collected_values(2) by auto
  then show "set (map cs_authority (co_signatures x)) \<subseteq> set (bt_keys (auth_members registry))"
    by (auto dest: signer_seated)
  show "distinct (map cs_authority (co_signatures x))"
    using ok by (simp add: collected_values(1) bt_keys_distinct)
  have "set (map cs_authority (co_signatures x)) = cs_authority ` set sigs"
    using ok by (simp only: CoSignedCheckpoint.simps collected_values(1) collected_keys)
  with ok show "unat (authority_quorum_threshold registry) \<le> card (set (map cs_authority (co_signatures x)))"
    by simp
qed

lemma quorums_overlap:
  assumes "finite N" "A \<subseteq> N" "B \<subseteq> N" "card N - (card N - 1) div 3 \<le> card A" "card N - (card N - 1) div 3 \<le> card B" "N \<noteq> {}"
  shows "(card N - 1) div 3 < card (A \<inter> B)"
proof -
  have "card (A \<union> B) \<le> card N"
    using assms by (intro card_mono) auto
  moreover have "card A + card B = card (A \<union> B) + card (A \<inter> B)"
    using assms by (intro card_Un_Int) (auto intro: finite_subset)
  moreover have "0 < card N"
    using assms by (simp add: card_gt_0_iff)
  ultimately show ?thesis
    using assms(4,5) by linarith
qed

lemma is_ok_iff: "is_ok r \<longleftrightarrow> (\<exists>x. r = Inr x)"
  by (cases r) simp_all

section \<open>The checkpoint chain\<close>

definition linked :: "hasher \<Rightarrow> Checkpoint list \<Rightarrow> bool" where
  "linked H cs \<longleftrightarrow>
     (\<forall>i < length cs. ck_height (cs ! i) = word_of_nat i \<and>
        ck_prev_checkpoint (cs ! i) = (if i = 0 then 0 else checkpoint_hash H (cs ! (i - 1))))"

definition tip_hash :: "hasher \<Rightarrow> Checkpoint list \<Rightarrow> hash32" where
  "tip_hash H cs = (if cs = [] then 0 else checkpoint_hash H (last cs))"

lemma linked_snoc:
  "linked H (cs @ [c]) \<longleftrightarrow> linked H cs \<and> ck_height c = word_of_nat (length cs) \<and> ck_prev_checkpoint c = tip_hash H cs"
proof -
  have "(cs @ [c]) ! i = cs ! i" "(cs @ [c]) ! (i - 1) = cs ! (i - 1)" if "i < length cs" for i
    using that by (simp_all add: nth_append)
  moreover have "(cs @ [c]) ! (length cs - 1) = last cs" if "cs \<noteq> []"
    using that by (simp add: nth_append last_conv_nth)
  ultimately show ?thesis
    by (auto simp: linked_def tip_hash_def All_less_Suc)
qed

lemma checkpoint_preimage_inject [simp]: "checkpoint_preimage c = checkpoint_preimage d \<longleftrightarrow> c = d"
  by (auto simp: checkpoint_preimage_def be_bytes_inject)

definition chain_collision :: "hasher \<Rightarrow> Checkpoint list \<Rightarrow> Checkpoint list \<Rightarrow> bool" where
  "chain_collision H xs ys \<longleftrightarrow>
     list_ex (\<lambda>(c, d). collides H (checkpoint_preimage c) (checkpoint_preimage d)) (zip (rev xs) (rev ys))"

lemma tip_binds_chain:
  assumes "linked H xs" "linked H ys" "xs \<noteq> []" "ys \<noteq> []" "length xs < 2 ^ 64" "length ys < 2 ^ 64"
    and "tip_hash H xs = tip_hash H ys" "\<not> chain_collision H xs ys"
  shows "xs = ys"
  using assms
proof (induction xs arbitrary: ys rule: rev_induct)
  case (snoc c xs)
  then obtain d zs where ys: "ys = zs @ [d]"
    by (metis append_butlast_last_id)
  with snoc.prems have cd: "c = d"
    by (auto simp: chain_collision_def collides_def tip_hash_def checkpoint_hash_def)
  with snoc.prems ys have "(word_of_nat (length xs) :: u64) = word_of_nat (length zs)"
    by (simp add: linked_snoc)
  then have "unat (word_of_nat (length xs) :: u64) = unat (word_of_nat (length zs) :: u64)"
    by simp
  then have len: "length xs = length zs"
    using snoc.prems(5,6) ys by (simp add: unsigned_of_nat take_bit_nat_eq_self)
  show ?case
  proof (cases "xs = []")
    case False
    then have "xs = zs"
      using snoc.prems ys cd len
      by (intro snoc.IH) (auto simp: linked_snoc chain_collision_def)
    with ys cd show ?thesis by simp
  qed (use len ys cd in simp)
qed simp

lemma emit_all_chain:
  assumes "emit_all H obs p = (cs, q)" "linked H pre" "cp_next_height p = word_of_nat (length pre)" "cp_last_hash p = tip_hash H pre"
  shows "linked H (pre @ cs) \<and> cp_last_hash q = tip_hash H (pre @ cs) \<and> cp_next_height q = word_of_nat (length (pre @ cs)) \<and>
    map (\<lambda>c. (ck_round c, ck_state_root c)) cs = filter (\<lambda>(r, root). r mod ucast (cp_cadence p) = 0) obs"
  using assms
proof (induction obs arbitrary: p pre cs)
  case (Cons ob obs)
  obtain r root where ob: "ob = (r, root)" by (cases ob)
  show ?case
  proof (cases "r mod ucast (cp_cadence p) = 0")
    case False
    with Cons.prems Cons.IH [of p cs pre] ob show ?thesis
      by (auto simp: maybe_emit_def split: prod.splits)
  next
    case True
    let ?c = "\<lparr>ck_height = cp_next_height p, ck_round = r, ck_state_root = root, ck_prev_checkpoint = cp_last_hash p\<rparr>"
    let ?p = "p\<lparr>cp_last_hash := checkpoint_hash H ?c, cp_next_height := cp_next_height p + 1\<rparr>"
    obtain cs' where cs': "emit_all H obs ?p = (cs', q)" "cs = ?c # cs'"
      using Cons.prems(1) True ob by (auto simp: maybe_emit_def Let_def split: prod.splits)
    have "linked H (pre @ [?c])" "cp_next_height ?p = word_of_nat (length (pre @ [?c]))" "cp_last_hash ?p = tip_hash H (pre @ [?c])"
      using Cons.prems(2-4) by (simp_all add: linked_snoc tip_hash_def)
    from Cons.IH [OF cs'(1) this] True ob show ?thesis
      by (simp add: cs'(2))
  qed
qed simp

lemma sign_checkpoint_valid:
  assumes "sign_checkpoint H M a sk c = Inr sig" "authority_get registry a = Some m"
    and "mldsa_correct M (PublicKey (am_public_key_bytes m)) sk"
  shows "cs_authority sig = a \<and> signer_valid M (checkpoint_hash H c) registry a (cs_signature sig)"
  using assms by (auto simp: sign_checkpoint_def mldsa_sign_def signer_valid_def mldsa_correct_def Let_def)

section \<open>Properties\<close>

text \<open>C36. Ratification is exact on every branch.  Under a well-formed authority ring a checkpoint is
  ratified if and only if every supplied signature is by a seated authority and verifies under its
  registered key over the checkpoint hash, and the distinct signers reach the quorum threshold.  Otherwise
  the error is that of the first bad signature in the order supplied, or the shortfall with the exact
  distinct count.  A signature that \<open>sign_checkpoint\<close> makes with the key of a seated authority is valid.\<close>

theorem ratify_checkpoint_exact:
  assumes "authority_ring_ok registry"
  shows "(is_ok (ratify_checkpoint H M c sigs registry) \<longleftrightarrow>
      (\<forall>sig \<in> set sigs. signer_valid M (checkpoint_hash H c) registry (cs_authority sig) (cs_signature sig)) \<and>
      unat (authority_quorum_threshold registry) \<le> card (cs_authority ` set sigs)) \<and>
    (ratify_checkpoint H M c sigs registry = Inl e \<longleftrightarrow>
      (\<exists>pre sig post. sigs = pre @ sig # post \<and> verify_signer M (checkpoint_hash H c) registry sig = Inl e \<and>
         (\<forall>x \<in> set pre. signer_valid M (checkpoint_hash H c) registry (cs_authority x) (cs_signature x))) \<or>
      (\<forall>sig \<in> set sigs. signer_valid M (checkpoint_hash H c) registry (cs_authority sig) (cs_signature sig)) \<and>
      card (cs_authority ` set sigs) < unat (authority_quorum_threshold registry) \<and>
      e = CkBelowQuorum (word_of_nat (card (cs_authority ` set sigs))) (authority_quorum_threshold registry)) \<and>
    (sign_checkpoint H M a sk c = Inr sg \<and> authority_get registry a = Some m \<and>
      mldsa_correct M (PublicKey (am_public_key_bytes m)) sk \<longrightarrow>
      cs_authority sg = a \<and> signer_valid M (checkpoint_hash H c) registry a (cs_signature sg))"
proof (intro conjI)
  show "is_ok (ratify_checkpoint H M c sigs registry) \<longleftrightarrow>
      (\<forall>sig \<in> set sigs. signer_valid M (checkpoint_hash H c) registry (cs_authority sig) (cs_signature sig)) \<and>
      unat (authority_quorum_threshold registry) \<le> card (cs_authority ` set sigs)"
    unfolding is_ok_iff ratify_Inr_iff [OF assms] by simp
qed (rule ratify_Inl_iff [OF assms], intro impI, elim conjE, rule sign_checkpoint_valid)

definition demo_solo :: AuthorityRegistry where
  "demo_solo = \<lparr>auth_members = bt_insert 0 \<lparr>am_id = 0, am_stake_suwappu = 100000, am_public_key_bytes = [1]\<rparr> bt_empty\<rparr>"

lemma demo_solo_ok: "authority_ring_ok demo_solo" "authority_len demo_solo = 1"
  by (simp_all add: demo_solo_def ring_ok_def bt_len_insert AUTHORITY_RING_MAX_def AUTHORITY_STAKE_THRESHOLD_SUWAPPU_def
      bt.get_insert authority_len_def bt_contains_get)

definition demo_signed :: "Checkpoint \<Rightarrow> CheckpointSignature" where
  "demo_signed c = \<lparr>cs_authority = 0, cs_signature = [1] @ be_bytes 32 (checkpoint_hash demo_blake c)\<rparr>"

lemma demo_signed_valid:
  "signer_valid demo_mldsa (checkpoint_hash demo_blake c) demo_solo (cs_authority (demo_signed c)) (cs_signature (demo_signed c))"
  by (simp add: signer_valid_def authority_get_def demo_solo_def bt.get_insert demo_mldsa_def demo_signed_def)

lemma demo_threshold: "authority_quorum_threshold demo_solo = 1"
  using demo_solo_ok(2) by (simp add: authority_quorum_threshold_def authority_len_def)

theorem ratify_checkpoint_exact_witness:
  "\<exists>c. is_ok (ratify_checkpoint demo_blake demo_mldsa c [demo_signed c] demo_solo) \<and>
    ratify_checkpoint demo_blake demo_mldsa c [] demo_solo = Inl (CkBelowQuorum 0 1)"
proof -
  let ?c = "\<lparr>ck_height = 0, ck_round = 0, ck_state_root = 7, ck_prev_checkpoint = 0\<rparr>"
  have "is_ok (ratify_checkpoint demo_blake demo_mldsa ?c [demo_signed ?c] demo_solo)"
    using ratify_checkpoint_exact [OF demo_solo_ok(1), THEN conjunct1, of demo_blake demo_mldsa ?c "[demo_signed ?c]"]
      demo_signed_valid [of ?c] by (simp add: demo_threshold)
  moreover have "ratify_checkpoint demo_blake demo_mldsa ?c [] demo_solo = Inl (CkBelowQuorum 0 1)"
    using ratify_checkpoint_exact [OF demo_solo_ok(1), THEN conjunct2, THEN conjunct1, of demo_blake demo_mldsa ?c "[]" "CkBelowQuorum 0 1"]
    by (simp add: demo_threshold)
  ultimately show ?thesis
    by blast
qed

text \<open>C17. Checkpoint safety.  The signers of a ratified checkpoint are distinct seated authorities, at
  least a quorum of them, each with a signature that verifies over that checkpoint.  Any two checkpoints
  ratified under the same well-formed ring of \<open>n\<close> seats share more than \<open>(n - 1) div 3\<close> signers: two
  conflicting checkpoints are ratified only when more than the tolerated third signed both.\<close>

theorem ratified_checkpoints_overlap:
  assumes "authority_ring_ok registry" "0 < authority_len registry"
    and "ratify_checkpoint H M c sigs registry = Inr x" "ratify_checkpoint H M d sigs' registry = Inr y"
  shows "co_checkpoint x = c \<and> distinct (map cs_authority (co_signatures x)) \<and>
    authority_len registry - (authority_len registry - 1) div 3 \<le> length (co_signatures x) \<and>
    (\<forall>sig \<in> set (co_signatures x). signer_valid M (checkpoint_hash H c) registry (cs_authority sig) (cs_signature sig)) \<and>
    (authority_len registry - 1) div 3 <
      card (cs_authority ` set (co_signatures x) \<inter> cs_authority ` set (co_signatures y))"
proof -
  let ?N = "set (bt_keys (auth_members registry))"
  note x = ratified_signers [OF assms(1,3)] and y = ratified_signers [OF assms(1,4)]
  have N: "card ?N = authority_len registry"
    by (simp add: authority_len_def bt_len_keys)
  have "(card ?N - 1) div 3 < card (set (map cs_authority (co_signatures x)) \<inter> set (map cs_authority (co_signatures y)))"
    by (rule quorums_overlap)
      (use x y N ring_quorum [OF assms(1,2)] assms(2) in \<open>auto simp del: set_map\<close>)
  moreover have "authority_len registry - (authority_len registry - 1) div 3 \<le> length (co_signatures x)"
    using x(2,3) distinct_card [of "map cs_authority (co_signatures x)"] by (simp add: ring_quorum [OF assms(1,2)])
  moreover have "co_checkpoint x = c"
    using assms(3) by (simp add: ratify_Inr_iff [OF assms(1)])
  ultimately show ?thesis
    using x(2,4) by (simp add: N)
qed

theorem ratified_checkpoints_overlap_witness:
  "\<exists>c d x y. c \<noteq> d \<and> ratify_checkpoint demo_blake demo_mldsa c [demo_signed c] demo_solo = Inr x \<and>
    ratify_checkpoint demo_blake demo_mldsa d [demo_signed d] demo_solo = Inr y \<and>
    0 < card (cs_authority ` set (co_signatures x) \<inter> cs_authority ` set (co_signatures y))"
proof -
  let ?ck = "\<lambda>root. \<lparr>ck_height = 0, ck_round = 0, ck_state_root = root, ck_prev_checkpoint = 0\<rparr>"
  have "\<exists>x. ratify_checkpoint demo_blake demo_mldsa c [demo_signed c] demo_solo = Inr x" for c
    using demo_signed_valid [of c] by (simp add: ratify_Inr_iff [OF demo_solo_ok(1)] demo_threshold)
  then obtain x y where xy: "ratify_checkpoint demo_blake demo_mldsa (?ck 7) [demo_signed (?ck 7)] demo_solo = Inr x"
    "ratify_checkpoint demo_blake demo_mldsa (?ck 8) [demo_signed (?ck 8)] demo_solo = Inr y"
    by meson
  have "0 < card (cs_authority ` set (co_signatures x) \<inter> cs_authority ` set (co_signatures y))"
    using ratified_checkpoints_overlap [OF demo_solo_ok(1) _ xy] by (simp add: demo_solo_ok(2))
  with xy show ?thesis
    by (intro exI [of _ "?ck 7"] exI [of _ "?ck 8"]) auto
qed

text \<open>C18. The checkpoint chain.  A producer emits exactly at the rounds its cadence divides, with heights
  0, 1, 2, \<open>\<dots>\<close> and each checkpoint carrying the hash of its predecessor (zero at the first).  The hash
  of the latest checkpoint binds the whole chain: two producers that have each emitted and agree on it
  have emitted the same checkpoints, so the same state roots at the same rounds, unless two checkpoints at
  the same depth below the tips are an explicit hash collision.\<close>

theorem checkpoint_chain_binding:
  assumes "checkpointer_new cadence = Some p" "checkpointer_new cadence' = Some p'"
    and "emit_all H obs p = (cs, q)" "emit_all H obs' p' = (cs', q')"
    and "length cs < 2 ^ 64" "length cs' < 2 ^ 64"
  shows "linked H cs \<and> cp_last_hash q = tip_hash H cs \<and> cp_next_height q = word_of_nat (length cs) \<and>
    map (\<lambda>c. (ck_round c, ck_state_root c)) cs = filter (\<lambda>(r, root). r mod ucast cadence = 0) obs \<and>
    (cs \<noteq> [] \<and> cs' \<noteq> [] \<and> cp_last_hash q = cp_last_hash q' \<and> \<not> chain_collision H cs cs' \<longrightarrow> cs = cs')"
proof -
  have new: "linked H [] \<and> cp_cadence p = cadence \<and> cp_next_height p = word_of_nat (length ([] :: Checkpoint list)) \<and> cp_last_hash p = tip_hash H []"
    if "checkpointer_new cadence = Some p" for cadence p
    using that by (auto simp: checkpointer_new_def linked_def tip_hash_def split: if_splits)
  note e = emit_all_chain [OF assms(3), of "[]"] and e' = emit_all_chain [OF assms(4), of "[]"]
  show ?thesis
    using e e' new [OF assms(1)] new [OF assms(2)] tip_binds_chain [OF _ _ _ _ assms(5,6), of H] by auto
qed

theorem checkpoint_chain_binding_witness:
  "\<exists>p q cs. checkpointer_new 2 = Some p \<and> emit_all demo_blake [(0, 5), (1, 6), (2, 7)] p = (cs, q) \<and> linked demo_blake cs \<and>
    map (\<lambda>c. (ck_round c, ck_state_root c)) cs = [(0, 5), (2, 7)]"
proof -
  obtain p where p: "checkpointer_new 2 = Some p"
    by (simp add: checkpointer_new_def)
  obtain cs q where cs: "emit_all demo_blake [(0, 5), (1, 6), (2, 7)] p = (cs, q)"
    by fastforce
  have "cp_cadence p = 2"
    using p by (auto simp: checkpointer_new_def)
  then have "length cs < 2 ^ 64"
    using cs by (auto simp: maybe_emit_def Let_def)
  then have "linked demo_blake cs \<and> map (\<lambda>c. (ck_round c, ck_state_root c)) cs = [(0, 5), (2, 7)]"
    using checkpoint_chain_binding [OF p p cs cs] by simp
  with p cs show ?thesis
    by (intro exI conjI) auto
qed

end
