(* ===== verification/Validator_Node.thy ===== *)
theory Validator_Node
  imports Checkpoint
begin

text \<open>
  The in-memory validator of \<open>suwappu-node/src/validator.rs\<close>: one authority with its certificate DAG, its
  substrate and its checkpointer, and the genesis flow that composes the authority ring, the DAG, the commit
  rule, block execution and checkpoint ratification.  Key pairs come from the random \<open>keypair()\<close> of the
  signature library and are arguments.  A panic (a failed \<open>assert\<close>, \<open>expect\<close> or out-of-range index) is an
  outer \<open>None\<close>.  The lemmas show that the genesis flow commits and ratifies for every ring size the registry
  admits, and that validators with the same checkpoint hash hold the same ledger.
\<close>

section \<open>The validator\<close>

datatype NodeError =
    NodeAdmission AuthorityAdmissionError
  | NodeDag ConsensusError
  | NodeCheckpoint CheckpointError
  | NodeUnknownSigner AuthorityId
  | NodeMalformedAuthorPublicKey AuthorityId
  | NodeInvalidCertificateSignature AuthorityId

record Validator =
  v_id :: AuthorityId
  v_mldsa_sk :: SecretKey
  v_dag :: DagStore
  v_substrate :: InMemorySubstrate
  v_checkpointer :: Checkpointer

definition validator_node_new :: "PublicKey \<times> SecretKey \<Rightarrow> AuthorityId \<Rightarrow> u32 \<Rightarrow> Validator option" where
  "validator_node_new kp i checkpoint_cadence =
     map_option (\<lambda>p. \<lparr>v_id = i, v_mldsa_sk = snd kp, v_dag = dag_new, v_substrate = substrate_new, v_checkpointer = p\<rparr>)
       (checkpointer_new checkpoint_cadence)"

definition validator_public_key_bytes :: "Validator \<Rightarrow> bytes" where
  "validator_public_key_bytes v = []"

definition produce_genesis :: "hasher \<Rightarrow> mldsa65 \<Rightarrow> hash32 \<Rightarrow> Validator \<Rightarrow> Certificate option" where
  "produce_genesis H M payload_digest v = cert_sign H M (v_mldsa_sk v) (genesis_cert (v_id v) payload_digest)"

definition author_round ::
  "hasher \<Rightarrow> mldsa65 \<Rightarrow> Round \<Rightarrow> CertHash list \<Rightarrow> hash32 \<Rightarrow> Validator \<Rightarrow> Certificate option" where
  "author_round H M r parents payload_digest v =
     cert_sign H M (v_mldsa_sk v)
       \<lparr>c_author = v_id v, c_round = r, c_parents = parents, c_payload_digest = payload_digest, c_signature = []\<rparr>"

definition observe :: "hasher \<Rightarrow> Certificate \<Rightarrow> Validator \<Rightarrow> NodeError + CertHash \<times> Validator" where
  "observe H cert v =
     (case dag_insert H (v_dag v) cert of
        Inl e \<Rightarrow> Inl (NodeDag e)
      | Inr (h, d) \<Rightarrow> Inr (h, v\<lparr>v_dag := d\<rparr>))"

definition insert_verified ::
  "hasher \<Rightarrow> mldsa65 \<Rightarrow> DagStore \<Rightarrow> Certificate \<Rightarrow> AuthorityRegistry \<Rightarrow> NodeError + CertHash \<times> DagStore" where
  "insert_verified H M dag cert registry =
     (case authority_get registry (c_author cert) of
        None \<Rightarrow> Inl (NodeUnknownSigner (c_author cert))
      | Some author \<Rightarrow>
          (case pk_from_bytes M (am_public_key_bytes author) of
             Inl _ \<Rightarrow> Inl (NodeMalformedAuthorPublicKey (c_author cert))
           | Inr pk \<Rightarrow>
               (if \<not> cert_verify_signature H M pk cert then Inl (NodeInvalidCertificateSignature (c_author cert))
                else case dag_insert H dag cert of Inl e \<Rightarrow> Inl (NodeDag e) | Inr res \<Rightarrow> Inr res)))"

definition observe_verified ::
  "hasher \<Rightarrow> mldsa65 \<Rightarrow> Certificate \<Rightarrow> AuthorityRegistry \<Rightarrow> Validator \<Rightarrow> NodeError + CertHash \<times> Validator" where
  "observe_verified H M cert registry v =
     (case insert_verified H M (v_dag v) cert registry of
        Inl e \<Rightarrow> Inl e
      | Inr (h, d) \<Rightarrow> Inr (h, v\<lparr>v_dag := d\<rparr>))"

definition own_cert_at :: "Round \<Rightarrow> Validator \<Rightarrow> CertHash option" where
  "own_cert_at r v = cert_at (v_dag v) r (v_id v)"

definition validator_execute :: "hasher \<Rightarrow> Block \<Rightarrow> Validator \<Rightarrow> (ExecutionReport \<times> hash32) \<times> Validator" where
  "validator_execute H block v =
     (let (report, s) = execute_block H block (v_substrate v) in ((report, state_root H s), v\<lparr>v_substrate := s\<rparr>))"

definition emit_and_sign_checkpoint ::
  "hasher \<Rightarrow> mldsa65 \<Rightarrow> Round \<Rightarrow> Validator \<Rightarrow> (Checkpoint \<times> CheckpointSignature) option \<times> Validator" where
  "emit_and_sign_checkpoint H M r v =
     (let (ck, p) = maybe_emit H r (state_root H (v_substrate v)) (v_checkpointer v); v' = v\<lparr>v_checkpointer := p\<rparr> in
      (case ck of
         None \<Rightarrow> (None, v')
       | Some ck \<Rightarrow>
           (case sign_checkpoint H M (v_id v) (v_mldsa_sk v) ck of
              Inl _ \<Rightarrow> (None, v')
            | Inr sig \<Rightarrow> (Some (ck, sig), v'))))"

section \<open>The genesis flow\<close>

text \<open>\<open>seed_registry\<close>; the key pairs of the calls to \<open>keypair()\<close> in order.\<close>

fun seed_loop :: "(PublicKey \<times> SecretKey) list \<Rightarrow> nat \<Rightarrow> AuthorityRegistry \<times> SecretKey list \<Rightarrow> (AuthorityRegistry \<times> SecretKey list) option" where
  "seed_loop [] i acc = Some acc"
| "seed_loop ((pk, sk) # kps) i (registry, sks) =
     (case authority_admit \<lparr>am_id = word_of_nat i, am_stake_suwappu = AUTHORITY_STAKE_THRESHOLD_SUWAPPU,
             am_public_key_bytes = pk_bytes pk\<rparr> registry of
        Inl _ \<Rightarrow> None
      | Inr registry' \<Rightarrow> seed_loop kps (Suc i) (registry', sks @ [sk]))"

definition seed_registry :: "(nat \<Rightarrow> PublicKey \<times> SecretKey) \<Rightarrow> u32 \<Rightarrow> (AuthorityRegistry \<times> SecretKey list) option" where
  "seed_registry keypair n = seed_loop (map keypair [0..<unat n]) 0 (authority_new, [])"

definition round0_payload :: "u32 \<Rightarrow> u8 \<Rightarrow> hash32" where
  "round0_payload i payload_seed = of_be ([ucast i, payload_seed] @ replicate 30 0)"

definition round1_payload :: "u32 \<Rightarrow> hash32" where
  "round1_payload i = of_be (ucast i # replicate 31 0xAB)"

definition round1_cert :: "CertHash list \<Rightarrow> u32 \<Rightarrow> Certificate" where
  "round1_cert parents i =
     \<lparr>c_author = i, c_round = 1, c_parents = parents, c_payload_digest = round1_payload i, c_signature = []\<rparr>"

text \<open>The range \<open>0..n\<close> of the loops.\<close>

definition genesis_ids :: "u32 \<Rightarrow> u32 list" where
  "genesis_ids n = map word_of_nat [0..<unat n]"

text \<open>The inner loop: every DAG verifies and inserts the certificate.\<close>

fun admit_everywhere ::
  "hasher \<Rightarrow> mldsa65 \<Rightarrow> AuthorityRegistry \<Rightarrow> Certificate \<Rightarrow> DagStore list \<Rightarrow> NodeError + DagStore list" where
  "admit_everywhere H M registry cert [] = Inr []"
| "admit_everywhere H M registry cert (dag # dags) =
     res_bind (insert_verified H M dag cert registry) (\<lambda>(h, dag').
       res_bind (admit_everywhere H M registry cert dags) (\<lambda>dags'. Inr (dag' # dags')))"

text \<open>One round of the flow: author, sign and gossip the certificates of the listed authorities.  The
  hashes collected are used for round 0 only.\<close>

fun genesis_round ::
  "hasher \<Rightarrow> mldsa65 \<Rightarrow> AuthorityRegistry \<Rightarrow> SecretKey list \<Rightarrow> (u32 \<Rightarrow> Certificate) \<Rightarrow> u32 list \<Rightarrow> CertHash list \<Rightarrow>
     DagStore list \<Rightarrow> (NodeError + CertHash list \<times> DagStore list) option" where
  "genesis_round H M registry sks mk [] hashes dags = Some (Inr (hashes, dags))"
| "genesis_round H M registry sks mk (i # is) hashes dags =
     (case cert_sign H M (sks ! unat i) (mk i) of
        None \<Rightarrow> None
      | Some cert \<Rightarrow>
          (case admit_everywhere H M registry cert dags of
             Inl e \<Rightarrow> Some (Inl e)
           | Inr dags' \<Rightarrow> genesis_round H M registry sks mk is (hashes @ [cert_hash H cert]) dags'))"

fun cosign_all :: "hasher \<Rightarrow> mldsa65 \<Rightarrow> Checkpoint \<Rightarrow> nat \<Rightarrow> SecretKey list \<Rightarrow> CheckpointSignature list option" where
  "cosign_all H M ck i [] = Some []"
| "cosign_all H M ck i (sk # sks) =
     (case sign_checkpoint H M (word_of_nat i) sk ck of
        Inl _ \<Rightarrow> None
      | Inr sig \<Rightarrow> map_option (Cons sig) (cosign_all H M ck (Suc i) sks))"

definition run_genesis_flow_with_keys ::
  "hasher \<Rightarrow> mldsa65 \<Rightarrow> u32 \<Rightarrow> AuthorityRegistry \<Rightarrow> SecretKey list \<Rightarrow> u8 \<Rightarrow>
     (NodeError + (CertHash \<times> hash32 \<times> CoSignedCheckpoint) option) option" where
  "run_genesis_flow_with_keys H M n registry sks payload_seed =
     (let ids = genesis_ids n in
      if word_of_nat (length sks) \<noteq> n then None
      else case genesis_round H M registry sks (\<lambda>i. genesis_cert i (round0_payload i payload_seed)) ids []
                  (replicate (unat n) dag_new) of
        None \<Rightarrow> None
      | Some (Inl e) \<Rightarrow> Some (Inl e)
      | Some (Inr (round_0_hashes, dags)) \<Rightarrow>
          (case genesis_round H M registry sks (round1_cert round_0_hashes) ids [] dags of
             None \<Rightarrow> None
           | Some (Inl e) \<Rightarrow> Some (Inl e)
           | Some (Inr (_, [])) \<Rightarrow> None
           | Some (Inr (_, dag # dags)) \<Rightarrow>
               (let leader_opt = commit_leader dag 0 n;
                    roots = map (\<lambda>s. state_root H (snd (execute_block H \<lparr>blk_round = 0, blk_intents = []\<rparr> s)))
                              (replicate (unat n) substrate_new);
                    canonical_root = hd roots;
                    ck = \<lparr>ck_height = 0, ck_round = 0, ck_state_root = canonical_root, ck_prev_checkpoint = 0\<rparr> in
                if list_ex (\<lambda>r. r \<noteq> canonical_root) roots then Some (Inr None)
                else case cosign_all H M ck 0 sks of
                  None \<Rightarrow> None
                | Some sigs \<Rightarrow>
                    (case ratify_checkpoint H M ck sigs registry of
                       Inl e \<Rightarrow> Some (Inl (NodeCheckpoint e))
                     | Inr cosigned \<Rightarrow> Some (Inr (map_option (\<lambda>h. (h, canonical_root, cosigned)) leader_opt))))))"

section \<open>Seeding\<close>

lemma u32_nat: "i < 2 ^ 32 \<Longrightarrow> unat (word_of_nat i :: u32) = i"
  by (simp add: unsigned_of_nat take_bit_nat_eq_self)

lemma u32_nat_inject: "i < 2 ^ 32 \<Longrightarrow> j < 2 ^ 32 \<Longrightarrow> (word_of_nat i :: u32) = word_of_nat j \<longleftrightarrow> i = j"
  using u32_nat by metis

definition seat :: "PublicKey \<times> SecretKey \<Rightarrow> nat \<Rightarrow> AuthorityMember" where
  "seat kp i = \<lparr>am_id = word_of_nat i, am_stake_suwappu = AUTHORITY_STAKE_THRESHOLD_SUWAPPU, am_public_key_bytes = pk_bytes (fst kp)\<rparr>"

lemma seed_loop_run:
  assumes "i + length kps \<le> 50" "bt_len (auth_members registry) = i"
    and "\<And>j. i \<le> j \<Longrightarrow> j < 50 \<Longrightarrow> bt_get (auth_members registry) (word_of_nat j) = None"
  shows "\<exists>registry'. seed_loop kps i (registry, sks) = Some (registry', sks @ map snd kps) \<and>
    bt_len (auth_members registry') = i + length kps \<and> (authority_ring_ok registry \<longrightarrow> authority_ring_ok registry') \<and>
    (\<forall>j < 50. authority_get registry' (word_of_nat j) =
       (if i \<le> j \<and> j < i + length kps then Some (seat (kps ! (j - i)) j) else authority_get registry (word_of_nat j)))"
  using assms
proof (induction kps arbitrary: i registry sks)
  case (Cons kp kps)
  let ?m = "seat kp i"
  obtain pk sk where kp: "kp = (pk, sk)" by (cases kp)
  define registry1 where "registry1 = registry\<lparr>auth_members := bt_insert (word_of_nat i) ?m (auth_members registry)\<rparr>"
  have free: "bt_get (auth_members registry) (word_of_nat i) = None"
    using Cons.prems(1,3) by simp
  have adm: "authority_admit ?m registry = Inr registry1"
    using Cons.prems(1,2) free by (simp add: authority_admit_def registry1_def seat_def AUTHORITY_RING_MAX_def bt_contains_get)
  have len: "bt_len (auth_members registry1) = Suc i"
    using Cons.prems(2) free by (simp add: registry1_def bt_len_insert bt_contains_get)
  have get: "bt_get (auth_members registry1) (word_of_nat j) = (if j = i then Some ?m else bt_get (auth_members registry) (word_of_nat j))"
    if "j < 50" for j
    using that Cons.prems(1) by (simp add: registry1_def bt.get_insert u32_nat_inject)
  have "\<exists>registry'. seed_loop kps (Suc i) (registry1, sks @ [sk]) = Some (registry', (sks @ [sk]) @ map snd kps) \<and>
    bt_len (auth_members registry') = Suc i + length kps \<and> (authority_ring_ok registry1 \<longrightarrow> authority_ring_ok registry') \<and>
    (\<forall>j < 50. authority_get registry' (word_of_nat j) =
       (if Suc i \<le> j \<and> j < Suc i + length kps then Some (seat (kps ! (j - Suc i)) j) else authority_get registry1 (word_of_nat j)))"
    by (rule Cons.IH) (use Cons.prems(1,3) len get in auto)
  then obtain registry' where r: "seed_loop kps (Suc i) (registry1, sks @ [sk]) = Some (registry', (sks @ [sk]) @ map snd kps)"
    "bt_len (auth_members registry') = Suc i + length kps" "authority_ring_ok registry1 \<longrightarrow> authority_ring_ok registry'"
    "\<forall>j < 50. authority_get registry' (word_of_nat j) =
       (if Suc i \<le> j \<and> j < Suc i + length kps then Some (seat (kps ! (j - Suc i)) j) else authority_get registry1 (word_of_nat j))"
    by blast
  show ?case
  proof (intro exI [of _ registry'] conjI allI impI)
    show "seed_loop (kp # kps) i (registry, sks) = Some (registry', sks @ map snd (kp # kps))"
      using adm r(1) by (simp add: kp seat_def)
    show "authority_ring_ok registry'" if "authority_ring_ok registry"
      using r(3) auth.admit_keeps [OF that adm] by simp
    show "authority_get registry' (word_of_nat j) =
       (if i \<le> j \<and> j < i + length (kp # kps) then Some (seat ((kp # kps) ! (j - i)) j) else authority_get registry (word_of_nat j))"
      if "j < 50" for j
      using r(4) that get [OF that] by (auto simp: authority_get_def nth_Cons')
  qed (use r(2) in simp)
qed auto

lemma seed_registry_run:
  assumes "seed_registry keypair n = Some (registry, sks)" "n \<le> 50"
  shows "authority_ring_ok registry" "authority_len registry = unat n" "sks = map (snd \<circ> keypair) [0..<unat n]"
    "\<And>j. j < unat n \<Longrightarrow> authority_get registry (word_of_nat j) = Some (seat (keypair j) j)"
proof -
  have n: "unat n \<le> 50"
    using assms(2) by (simp add: unat_le_iff)
  have "\<exists>registry'. seed_loop (map keypair [0..<unat n]) 0 (authority_new, []) = Some (registry', [] @ map snd (map keypair [0..<unat n])) \<and>
    bt_len (auth_members registry') = 0 + length (map keypair [0..<unat n]) \<and>
    (authority_ring_ok authority_new \<longrightarrow> authority_ring_ok registry') \<and>
    (\<forall>j < 50. authority_get registry' (word_of_nat j) =
       (if 0 \<le> j \<and> j < 0 + length (map keypair [0..<unat n]) then Some (seat (map keypair [0..<unat n] ! (j - 0)) j)
        else authority_get authority_new (word_of_nat j)))"
    by (rule seed_loop_run) (use n in \<open>simp_all add: authority_new_def\<close>)
  then show "authority_ring_ok registry" "authority_len registry = unat n" "sks = map (snd \<circ> keypair) [0..<unat n]"
    "\<And>j. j < unat n \<Longrightarrow> authority_get registry (word_of_nat j) = Some (seat (keypair j) j)"
    using assms(1) n authority_new_ok by (auto simp: seed_registry_def authority_len_def)
qed

section \<open>One round of certificates\<close>

definition signed_cert :: "hasher \<Rightarrow> mldsa65 \<Rightarrow> SecretKey \<Rightarrow> Certificate \<Rightarrow> Certificate" where
  "signed_cert H M sk c = c\<lparr>c_signature := raw_detached_sign M (be_bytes 32 (cert_hash H c)) (sk_bytes sk)\<rparr>"

lemma signed_cert_simps [simp]:
  "c_author (signed_cert H M sk c) = c_author c" "c_round (signed_cert H M sk c) = c_round c"
  "c_parents (signed_cert H M sk c) = c_parents c" "cert_hash H (signed_cert H M sk c) = cert_hash H c"
  by (simp_all add: signed_cert_def cert_hash_def cert_preimage_def)

lemma insert_verified_signed:
  assumes "authority_get registry (c_author c) = Some m" "mldsa_correct M (PublicKey (am_public_key_bytes m)) sk"
    and "dag_insert H d (signed_cert H M sk c) = Inr hd'"
  shows "insert_verified H M d (signed_cert H M sk c) registry = Inr hd'"
    "cert_sign H M sk c = Some (signed_cert H M sk c)"
proof -
  have "cert_verify_signature H M (PublicKey (am_public_key_bytes m)) (signed_cert H M sk c)"
    using assms(2) by (auto simp: cert_verify_signature_def sig_from_bytes_def mldsa_verify_ok_iff mldsa_correct_def Let_def signed_cert_def
        cert_hash_def cert_preimage_def)
  with assms show "insert_verified H M d (signed_cert H M sk c) registry = Inr hd'"
    by (auto simp: insert_verified_def pk_from_bytes_def mldsa_correct_def)
  show "cert_sign H M sk c = Some (signed_cert H M sk c)"
    using assms(2) by (simp add: cert_sign_def mldsa_sign_def mldsa_correct_def signed_cert_def)
qed

lemma admit_everywhere_replicate:
  assumes "insert_verified H M d cert registry = Inr (h, d')"
  shows "admit_everywhere H M registry cert (replicate k d) = Inr (replicate k d')"
  using assms by (induction k) simp_all

lemma genesis_round_run:
  assumes "\<And>i. i \<in> set is \<Longrightarrow> \<exists>m. authority_get registry (c_author (mk i)) = Some m \<and>
      mldsa_correct M (PublicKey (am_public_key_bytes m)) (sks ! unat i)"
    and "insert_all H d (map (\<lambda>i. signed_cert H M (sks ! unat i) (mk i)) is) = Inr d'"
  shows "genesis_round H M registry sks mk is hashes (replicate k d) =
    Some (Inr (hashes @ map (\<lambda>i. cert_hash H (mk i)) is, replicate k d'))"
  using assms
proof (induction "is" arbitrary: d hashes)
  case (Cons i "is")
  let ?c = "signed_cert H M (sks ! unat i) (mk i)"
  obtain h1 d1 where ins: "dag_insert H d ?c = Inr (h1, d1)" and rest: "insert_all H d1 (map (\<lambda>i. signed_cert H M (sks ! unat i) (mk i)) is) = Inr d'"
    using Cons.prems(2) by (auto split: sum.splits prod.splits)
  obtain m where m: "authority_get registry (c_author (mk i)) = Some m" "mldsa_correct M (PublicKey (am_public_key_bytes m)) (sks ! unat i)"
    using Cons.prems(1) [of i] by auto
  note ok = insert_verified_signed [OF m ins]
  show ?case
    using Cons.IH [OF Cons.prems(1) rest] ok(2) admit_everywhere_replicate [OF ok(1)] by simp
qed simp

lemma insert_all_fresh:
  assumes "distinct (map (cert_hash H) cs)"
    and "\<And>c. c \<in> set cs \<Longrightarrow> dag_get d (cert_hash H c) = None \<and> (c_round c = 0 \<longrightarrow> c_parents c = []) \<and>
      (\<forall>p \<in> set (c_parents c). \<exists>pc. dag_get d p = Some pc \<and> c_round pc < c_round c)"
  shows "\<exists>d'. insert_all H d cs = Inr d'"
  using assms
proof (induction cs arbitrary: d)
  case (Cons c cs)
  have "dag_insert H d c = Inr (cert_hash H c, dag_record H d c)"
    using Cons.prems(2) [of c] by (auto simp: dag_insert_Inr_iff)
  moreover have "\<exists>d'. insert_all H (dag_record H d c) cs = Inr d'"
  proof (rule Cons.IH)
    fix x
    assume "x \<in> set cs"
    moreover from this have "cert_hash H x \<noteq> cert_hash H c"
      using Cons.prems(1) by (auto simp: image_iff)
    moreover have "dag_get d (cert_hash H c) = None"
      using Cons.prems(2) by simp
    ultimately show "dag_get (dag_record H d c) (cert_hash H x) = None \<and> (c_round x = 0 \<longrightarrow> c_parents x = []) \<and>
        (\<forall>p \<in> set (c_parents x). \<exists>pc. dag_get (dag_record H d c) p = Some pc \<and> c_round pc < c_round x)"
      using Cons.prems(2) [of x] by fastforce
  qed (use Cons.prems(1) in simp)
  ultimately show ?case
    by simp
qed simp

section \<open>The genesis flow commits\<close>

lemma genesis_cert_simps [simp]:
  "c_author (genesis_cert i p) = i" "c_round (genesis_cert i p) = 0" "c_parents (genesis_cert i p) = []"
  "c_author (round1_cert ps i) = i" "c_round (round1_cert ps i) = 1" "c_parents (round1_cert ps i) = ps"
  by (simp_all add: genesis_cert_def round1_cert_def)

definition round0_certs :: "u32 \<Rightarrow> u8 \<Rightarrow> Certificate list" where
  "round0_certs n payload_seed = map (\<lambda>i. genesis_cert i (round0_payload i payload_seed)) (genesis_ids n)"

definition genesis_certs :: "hasher \<Rightarrow> u32 \<Rightarrow> u8 \<Rightarrow> Certificate list" where
  "genesis_certs H n payload_seed =
     round0_certs n payload_seed @ map (round1_cert (map (cert_hash H) (round0_certs n payload_seed))) (genesis_ids n)"

lemma set_genesis_ids: "i \<in> set (genesis_ids n) \<longleftrightarrow> i < n"
proof
  assume "i < n"
  then show "i \<in> set (genesis_ids n)"
    by (auto simp: genesis_ids_def image_iff unat_less_iff intro!: bexI [of _ "unat i"])
qed (auto simp: genesis_ids_def unat_less_iff unsigned_of_nat intro: order_le_less_trans [OF take_bit_nat_less_eq_self])

lemma distinct_genesis_ids: "distinct (genesis_ids n)"
proof -
  have "inj_on (word_of_nat :: nat \<Rightarrow> u32) {0..<unat n}"
    by (rule inj_onI) (use unsigned_less [of n, where ?'a = nat] in \<open>auto simp: u32_nat_inject\<close>)
  then show ?thesis
    by (simp add: genesis_ids_def distinct_map)
qed

lemma genesis_ids_interval: "set (genesis_ids n) = {0..<n}"
  by (rule set_eqI) (simp only: set_genesis_ids atLeastLessThan_iff word_zero_le simp_thms)

lemma card_genesis_ids: "card {0..<n} = unat (n :: u32)"
  using distinct_card [OF distinct_genesis_ids, of n] unfolding genesis_ids_interval by (simp add: genesis_ids_def)

lemma sorted_genesis_ids: "sorted (genesis_ids n)"
proof -
  have "sorted_wrt (\<lambda>i j. (word_of_nat i :: u32) \<le> word_of_nat j) [0..<unat n]"
    using unsigned_less [of n, where ?'a = nat]
    by (intro sorted_wrt_mono_rel [OF _ sorted_upt]) (auto simp: word_le_nat_alt u32_nat)
  then show ?thesis
    by (simp add: genesis_ids_def sorted_wrt_map)
qed

lemma sorted_bt_keys: "sorted (bt_keys m)"
  using bt_entries_strict [of m] by (simp add: strict_keys_def bt_keys_def strict_sorted_iff)

lemma cert_preimage_head:
  assumes "cert_preimage c = cert_preimage d"
  shows "c_author c = c_author d \<and> c_round c = c_round d"
  using assms by (auto simp: cert_preimage_def be_bytes_inject append_eq_append_conv)

lemma genesis_hashes_distinct:
  assumes "inj_on H (cert_preimage ` set (genesis_certs H n payload_seed))"
  shows "distinct (map (cert_hash H) (genesis_certs H n payload_seed))"
proof -
  have key: "distinct (map (\<lambda>c. (c_author c, c_round c)) (genesis_certs H n payload_seed))"
  proof -
    have "map (\<lambda>c. (c_author c, c_round c)) (genesis_certs H n payload_seed) =
        map (\<lambda>i. (i, 0)) (genesis_ids n) @ map (\<lambda>i. (i, 1)) (genesis_ids n)"
      by (simp add: genesis_certs_def round0_certs_def)
    moreover have "distinct (map (\<lambda>i. (i, 0 :: Round)) (genesis_ids n) @ map (\<lambda>i. (i, 1)) (genesis_ids n))"
      using distinct_genesis_ids [of n] by (auto simp: distinct_map inj_on_def)
    ultimately show ?thesis
      by simp
  qed
  have "inj_on (cert_hash H) (set (genesis_certs H n payload_seed))"
  proof (rule inj_onI)
    fix c d
    assume cd: "c \<in> set (genesis_certs H n payload_seed)" "d \<in> set (genesis_certs H n payload_seed)" "cert_hash H c = cert_hash H d"
    then have "cert_preimage c = cert_preimage d"
      unfolding cert_hash_def by (intro inj_onD [OF assms] imageI)
    then have "(c_author c, c_round c) = (c_author d, c_round d)"
      using cert_preimage_head [of c d] by simp
    then show "c = d"
      using key cd(1,2) inj_onD [of "\<lambda>c. (c_author c, c_round c)" _ c d] unfolding distinct_map by blast
  qed
  moreover have "distinct (genesis_certs H n payload_seed)"
    using key by (simp add: distinct_map)
  ultimately show ?thesis
    by (simp add: distinct_map)
qed

text \<open>The store every validator ends with: the signed certificates of both rounds.\<close>

lemma genesis_store:
  assumes "inj_on H (cert_preimage ` set (genesis_certs H n payload_seed))"
  defines "mk0 \<equiv> \<lambda>i. genesis_cert i (round0_payload i payload_seed)"
    and "mk1 \<equiv> round1_cert (map (cert_hash H) (round0_certs n payload_seed))"
  obtains d0 d1 where "insert_all H dag_new (map (\<lambda>i. signed_cert H M (sks ! unat i) (mk0 i)) (genesis_ids n)) = Inr d0"
    "insert_all H d0 (map (\<lambda>i. signed_cert H M (sks ! unat i) (mk1 i)) (genesis_ids n)) = Inr d1"
    "dag_wf H d1"
    "\<And>h c. dag_get d1 h = Some c \<longleftrightarrow> (\<exists>i < n. (c = signed_cert H M (sks ! unat i) (mk0 i) \<or> c = signed_cert H M (sks ! unat i) (mk1 i)) \<and> cert_hash H c = h)"
proof -
  let ?s0 = "map (\<lambda>i. signed_cert H M (sks ! unat i) (mk0 i)) (genesis_ids n)"
  let ?s1 = "map (\<lambda>i. signed_cert H M (sks ! unat i) (mk1 i)) (genesis_ids n)"
  have certs: "map (cert_hash H) ?s0 = map (cert_hash H) (round0_certs n payload_seed)"
    "map (cert_hash H) (genesis_certs H n payload_seed) = map (cert_hash H) (?s0 @ ?s1)"
    by (simp_all add: genesis_certs_def round0_certs_def mk0_def mk1_def)
  have dist: "distinct (map (cert_hash H) (?s0 @ ?s1))"
    using genesis_hashes_distinct [OF assms(1)] by (simp only: certs)
  have "\<exists>d0. insert_all H dag_new ?s0 = Inr d0"
    by (rule insert_all_fresh) (use dist in \<open>auto simp: mk0_def\<close>)
  then obtain d0 where d0: "insert_all H dag_new ?s0 = Inr d0" ..
  have get0: "dag_get d0 h = Some c \<longleftrightarrow> c \<in> set ?s0 \<and> cert_hash H c = h" for h c
    using insert_all_get [OF d0] by simp
  have "\<exists>d1. insert_all H d0 ?s1 = Inr d1"
  proof (rule insert_all_fresh)
    show "distinct (map (cert_hash H) ?s1)"
      using dist by simp
    fix c
    assume c: "c \<in> set ?s1"
    then have old: "cert_hash H c \<notin> cert_hash H ` set ?s0"
      using dist unfolding map_append distinct_append set_map by blast
    have "dag_get d0 (cert_hash H c) = None"
    proof (rule ccontr)
      assume "dag_get d0 (cert_hash H c) \<noteq> None"
      then obtain x where "x \<in> set ?s0" "cert_hash H x = cert_hash H c"
        unfolding get0 not_None_eq by (elim exE conjE)
      then have "cert_hash H c \<in> cert_hash H ` set ?s0"
        using imageI [of x "set ?s0" "cert_hash H"] by (simp only:)
      with old show False
        by contradiction
    qed
    moreover have "c_round c = 1" "c_parents c = map (cert_hash H) ?s0"
      using c by (auto simp: mk1_def certs(1) simp del: map_map)
    moreover have "\<exists>pc. dag_get d0 p = Some pc \<and> c_round pc < 1" if "p \<in> set (map (cert_hash H) ?s0)" for p
    proof -
      from that obtain x where "x \<in> set ?s0" "cert_hash H x = p"
        unfolding set_map [of "cert_hash H"] by (elim imageE) simp
      moreover from this have "c_round x = 0"
        by (auto simp: mk0_def)
      ultimately show ?thesis
        using get0 [of p x] by auto
    qed
    ultimately show "dag_get d0 (cert_hash H c) = None \<and> (c_round c = 0 \<longrightarrow> c_parents c = []) \<and>
        (\<forall>p \<in> set (c_parents c). \<exists>pc. dag_get d0 p = Some pc \<and> c_round pc < c_round c)"
      by (simp del: set_map)
  qed
  then obtain d1 where d1: "insert_all H d0 ?s1 = Inr d1" ..
  have "dag_wf H d1"
    using insert_all_wf [OF insert_all_wf [OF dag_wf_new d0] d1] .
  moreover have "dag_get d1 h = Some c \<longleftrightarrow> (\<exists>i < n. (c = signed_cert H M (sks ! unat i) (mk0 i) \<or> c = signed_cert H M (sks ! unat i) (mk1 i)) \<and> cert_hash H c = h)" for h c
    unfolding insert_all_get [OF d1] get0 by (auto simp: image_iff set_genesis_ids)
  ultimately show ?thesis
    using that d0 d1 by blast
qed

lemma genesis_commits:
  assumes "inj_on H (cert_preimage ` set (genesis_certs H n payload_seed))" "0 < n" "dag_wf H d"
    and get: "\<And>h c. dag_get d h = Some c \<longleftrightarrow> (\<exists>i < n. (c = signed_cert H M (sks ! unat i) (genesis_cert i (round0_payload i payload_seed)) \<or>
        c = signed_cert H M (sks ! unat i) (round1_cert (map (cert_hash H) (round0_certs n payload_seed)) i)) \<and> cert_hash H c = h)"
  shows "commit_leader d 0 n = Some (cert_hash H (genesis_cert 0 (round0_payload 0 payload_seed)))"
proof -
  let ?h = "cert_hash H (genesis_cert 0 (round0_payload 0 payload_seed))"
  have stored: "dag_get d ?h = Some (signed_cert H M (sks ! unat 0) (genesis_cert 0 (round0_payload 0 payload_seed)))"
    using assms(2) unfolding get by (intro exI [of _ 0]) simp
  have only: "h = ?h" if "dag_get d h = Some c" "c_round c = 0" "c_author c = 0" for h c
    using that unfolding get by auto
  have at: "cert_at d 0 (leader 0 n) = Some ?h"
    unfolding cert_at_Some_iff [OF assms(3)] leader_def
  proof (intro conjI allI impI)
    show "\<exists>c. dag_get d ?h = Some c \<and> c_round c = 0 \<and> c_author c = ucast ((0 :: u64) mod ucast n)"
      using stored by simp
    show "?h \<le> h" if "dag_get d h = Some c" "c_round c = 0" "c_author c = ucast ((0 :: u64) mod ucast n)" for h c
      using only [OF that(1,2)] that(3) by simp
  qed
  have parent: "?h \<in> set (map (cert_hash H) (round0_certs n payload_seed))"
    using assms(2) by (auto simp: round0_certs_def set_genesis_ids)
  have "i \<in> supporters d ?h 1 \<longleftrightarrow> i \<in> {0..<n}" for i
  proof
    assume "i \<in> supporters d ?h 1"
    then show "i \<in> {0..<n}"
      unfolding supporters_iff [OF assms(3)] get by auto
  next
    assume "i \<in> {0..<n}"
    then have "dag_get d (cert_hash H (signed_cert H M (sks ! unat i) (round1_cert (map (cert_hash H) (round0_certs n payload_seed)) i))) =
        Some (signed_cert H M (sks ! unat i) (round1_cert (map (cert_hash H) (round0_certs n payload_seed)) i))"
      unfolding get by auto
    with parent show "i \<in> supporters d ?h 1"
      unfolding supporters_iff [OF assms(3)] by (intro exI conjI) auto
  qed
  then have "supporters d ?h 1 = {0..<n}"
    by blast
  moreover have "card {0..<n} = unat n"
    by (rule card_genesis_ids)
  moreover have "quorum_threshold n \<le> n"
    using assms(2) by (simp add: unat_le_iff unat_quorum_threshold)
  ultimately have "quorum_threshold n \<le> word_of_nat (card (supporters d ?h (0 + 1)))"
    by simp
  with at have "try_direct_decide d 0 n = Direct ?h"
    by (simp add: try_direct_decide_iff)
  then show ?thesis
    by (simp add: commit_leader_def decide_slot_def)
qed

lemma cosign_all_run:
  assumes "\<And>j. j < length sks \<Longrightarrow> \<exists>m. authority_get registry (word_of_nat (i + j)) = Some m \<and>
      mldsa_correct M (PublicKey (am_public_key_bytes m)) (sks ! j)"
  shows "\<exists>sigs. cosign_all H M ck i sks = Some sigs \<and> map cs_authority sigs = map word_of_nat [i..<i + length sks] \<and>
    (\<forall>sig \<in> set sigs. signer_valid M (checkpoint_hash H ck) registry (cs_authority sig) (cs_signature sig))"
  using assms
proof (induction sks arbitrary: i)
  case (Cons sk sks)
  obtain m where m: "authority_get registry (word_of_nat i) = Some m" "mldsa_correct M (PublicKey (am_public_key_bytes m)) sk"
    using Cons.prems [of 0] by auto
  then obtain sig where sig: "sign_checkpoint H M (word_of_nat i) sk ck = Inr sig"
    by (auto simp: sign_checkpoint_def mldsa_sign_def mldsa_correct_def)
  have "\<exists>m. authority_get registry (word_of_nat (Suc i + j)) = Some m \<and> mldsa_correct M (PublicKey (am_public_key_bytes m)) (sks ! j)"
    if "j < length sks" for j
    using Cons.prems [of "Suc j"] that by simp
  from Cons.IH [OF this] obtain sigs where "cosign_all H M ck (Suc i) sks = Some sigs"
    "map cs_authority sigs = map word_of_nat [Suc i..<Suc i + length sks]"
    "\<forall>sig \<in> set sigs. signer_valid M (checkpoint_hash H ck) registry (cs_authority sig) (cs_signature sig)"
    by blast
  with sign_checkpoint_valid [OF sig m] sig show ?case
    by (simp add: upt_conv_Cons del: upt_Suc)
qed simp

lemma execute_empty: "state_root H (snd (execute_block H \<lparr>blk_round = r, blk_intents = []\<rparr> s)) = state_root H s"
  by (simp add: execute_block_def state_root_def set_current_block_height_def)

lemma quorum_le_self: "authority_ring_ok registry \<Longrightarrow> 0 < authority_len registry \<Longrightarrow> unat (authority_quorum_threshold registry) \<le> authority_len registry"
  by (simp add: ring_quorum)

section \<open>Properties\<close>

text \<open>C5. Genesis is live.  For every ring of 1 to 50 authorities that \<open>seed_registry\<close> seats with working
  key pairs, and a hash that does not collide on the \<open>2n\<close> certificates of the flow, the genesis flow
  neither panics nor errs: every certificate passes signature verification and DAG insertion at every
  validator, the commit rule commits the round-0 certificate of authority 0, all substrates agree on the
  root of the empty ledger, and the checkpoint over it is ratified with the signatures of all \<open>n\<close>
  authorities.\<close>

theorem genesis_flow_live:
  assumes "0 < n" "n \<le> 50" "seed_registry keypair n = Some (registry, sks)"
    and keys: "\<And>j. j < unat n \<Longrightarrow> mldsa_correct M (fst (keypair j)) (snd (keypair j))"
    and inj: "inj_on H (cert_preimage ` set (genesis_certs H n payload_seed))"
  shows "\<exists>cosigned. run_genesis_flow_with_keys H M n registry sks payload_seed =
      Some (Inr (Some (cert_hash H (genesis_cert 0 (round0_payload 0 payload_seed)), state_root H substrate_new, cosigned))) \<and>
    co_checkpoint cosigned = \<lparr>ck_height = 0, ck_round = 0, ck_state_root = state_root H substrate_new, ck_prev_checkpoint = 0\<rparr> \<and>
    map cs_authority (co_signatures cosigned) = genesis_ids n"
proof -
  note seeded = seed_registry_run [OF assms(3,2)]
  let ?mk0 = "\<lambda>i. genesis_cert i (round0_payload i payload_seed)"
  let ?hs = "map (cert_hash H) (round0_certs n payload_seed)"
  have member: "\<exists>m. authority_get registry (word_of_nat j) = Some m \<and> mldsa_correct M (PublicKey (am_public_key_bytes m)) (sks ! j)"
    if "j < unat n" for j
    using seeded(3,4) keys [OF that] that by (simp add: seat_def)
  then have member': "\<exists>m. authority_get registry i = Some m \<and> mldsa_correct M (PublicKey (am_public_key_bytes m)) (sks ! unat i)"
    if "i \<in> set (genesis_ids n)" for i
    using that [unfolded set_genesis_ids] member [of "unat i"] by (simp add: unat_less_iff)
  obtain d0 d1 where d: "insert_all H dag_new (map (\<lambda>i. signed_cert H M (sks ! unat i) (?mk0 i)) (genesis_ids n)) = Inr d0"
    "insert_all H d0 (map (\<lambda>i. signed_cert H M (sks ! unat i) (round1_cert ?hs i)) (genesis_ids n)) = Inr d1"
    and wf: "dag_wf H d1"
    and get: "\<And>h c. dag_get d1 h = Some c \<longleftrightarrow>
      (\<exists>i < n. (c = signed_cert H M (sks ! unat i) (?mk0 i) \<or> c = signed_cert H M (sks ! unat i) (round1_cert ?hs i)) \<and> cert_hash H c = h)"
    by (rule genesis_store [OF inj, of M sks], rule that)
  have commit: "commit_leader d1 0 n = Some (cert_hash H (?mk0 0))"
    by (rule genesis_commits [OF inj assms(1) wf get])
  have r0: "genesis_round H M registry sks ?mk0 (genesis_ids n) [] (replicate k dag_new) = Some (Inr (?hs, replicate k d0))" for k
    using genesis_round_run [of "genesis_ids n" registry ?mk0 M sks H dag_new d0 "[]" k] member' d(1)
    by (simp add: round0_certs_def)
  have r1: "genesis_round H M registry sks (round1_cert ?hs) (genesis_ids n) [] (replicate k d0) =
      Some (Inr (map (\<lambda>i. cert_hash H (round1_cert ?hs i)) (genesis_ids n), replicate k d1))" for k
    using genesis_round_run [of "genesis_ids n" registry "round1_cert ?hs" M sks H d0 d1 "[]" k] member' d(2) by simp
  obtain k where k: "unat n = Suc k"
    using assms(1) by (metis gr0_implies_Suc unat_gt_0 word_neq_0_conv)
  then have rep: "replicate (unat n) x = x # replicate k x" for x :: 'x
    by simp
  let ?ck = "\<lparr>ck_height = 0, ck_round = 0, ck_state_root = state_root H substrate_new, ck_prev_checkpoint = 0\<rparr>"
  have len: "length sks = unat n"
    by (simp add: seeded(3))
  obtain sigs where sigs: "cosign_all H M ?ck 0 sks = Some sigs" "map cs_authority sigs = genesis_ids n"
    "\<forall>sig \<in> set sigs. signer_valid M (checkpoint_hash H ?ck) registry (cs_authority sig) (cs_signature sig)"
    using cosign_all_run [of sks registry 0 M H ?ck] member by (auto simp: len genesis_ids_def)
  have signers: "cs_authority ` set sigs = {0..<n}"
    using arg_cong [OF sigs(2), of set] by (simp add: genesis_ids_interval)
  let ?co = "\<lparr>co_checkpoint = ?ck, co_signatures = bt_values (collected sigs bt_empty)\<rparr>"
  have "ratify_checkpoint H M ?ck sigs registry = Inr ?co"
    unfolding ratify_Inr_iff [OF seeded(1)] signers
    using sigs(3) quorum_le_self [OF seeded(1)] assms(1) by (simp add: card_genesis_ids seeded(2) unat_gt_0)
  then have "run_genesis_flow_with_keys H M n registry sks payload_seed =
      Some (Inr (Some (cert_hash H (?mk0 0), state_root H substrate_new, ?co)))"
    using r0 [of "unat n", unfolded rep] r1 [of "unat n", unfolded rep] commit sigs(1)
    by (simp add: run_genesis_flow_with_keys_def Let_def rep execute_empty list_ex_iff len)
  moreover have "map cs_authority (co_signatures ?co) = genesis_ids n"
    using sorted_distinct_set_unique [OF sorted_bt_keys bt_keys_distinct sorted_genesis_ids distinct_genesis_ids, of "collected sigs bt_empty" n]
    by (simp add: collected_values(1) collected_keys signers genesis_ids_interval)
  ultimately show ?thesis
    by (intro exI [of _ ?co]) simp
qed

text \<open>A hash that reads the low byte of the round, which tells the two certificates of a solo ring apart.\<close>

definition demo_round_hash :: hasher where
  "demo_round_hash bs = ucast (bs ! 26)"

lemma demo_genesis_injective: "inj_on demo_round_hash (cert_preimage ` set (genesis_certs demo_round_hash 1 7))"
proof -
  have apart: "demo_round_hash (cert_preimage (genesis_cert 0 (round0_payload 0 7))) \<noteq> demo_round_hash (cert_preimage (round1_cert ps 0))" if "length ps = 1" for ps
  proof -
    obtain x where ps: "ps = [x]"
      using \<open>length ps = 1\<close> by (auto simp: length_Suc_conv)
    show ?thesis
      by (simp add: ps demo_round_hash_def cert_preimage_def genesis_cert_def round1_cert_def round0_payload_def round1_payload_def
          string_bytes_def nth_append be_bytes_numeral len_u32_def)
  qed
  show ?thesis
    using apart [of "[cert_hash demo_round_hash (genesis_cert 0 (round0_payload 0 7))]"]
    by (auto simp: genesis_certs_def round0_certs_def genesis_ids_def)
qed

theorem genesis_flow_live_witness:
  "\<exists>registry sks cosigned. seed_registry (\<lambda>_. (PublicKey [1], SecretKey [1])) 1 = Some (registry, sks) \<and>
    run_genesis_flow_with_keys demo_round_hash demo_mldsa 1 registry sks 7 =
      Some (Inr (Some (cert_hash demo_round_hash (genesis_cert 0 (round0_payload 0 7)), state_root demo_round_hash substrate_new, cosigned))) \<and>
    map cs_authority (co_signatures cosigned) = [0]"
proof -
  obtain registry sks where seeded: "seed_registry (\<lambda>_. (PublicKey [1], SecretKey [1])) 1 = Some (registry, sks)"
    using seed_loop_run [of 0 "[(PublicKey [1], SecretKey [1])]" authority_new "[]"]
    by (auto simp: seed_registry_def authority_new_def)
  have "\<exists>cosigned. run_genesis_flow_with_keys demo_round_hash demo_mldsa 1 registry sks 7 =
      Some (Inr (Some (cert_hash demo_round_hash (genesis_cert 0 (round0_payload 0 7)), state_root demo_round_hash substrate_new, cosigned))) \<and>
    co_checkpoint cosigned = \<lparr>ck_height = 0, ck_round = 0, ck_state_root = state_root demo_round_hash substrate_new, ck_prev_checkpoint = 0\<rparr> \<and>
    map cs_authority (co_signatures cosigned) = genesis_ids 1"
    by (rule genesis_flow_live [OF _ _ seeded _ demo_genesis_injective]) (simp_all add: demo_mldsa_correct)
  moreover have "genesis_ids 1 = [0]"
    by (simp add: genesis_ids_def)
  ultimately show ?thesis
    using seeded by (elim exE conjE) (intro exI conjI; simp only:)
qed

section \<open>Validators with the same checkpoints hold the same ledger\<close>

datatype validator_op = OpExecute Block | OpCheckpoint Round

definition validator_step :: "hasher \<Rightarrow> mldsa65 \<Rightarrow> Validator \<Rightarrow> validator_op \<Rightarrow> Validator" where
  "validator_step H M v op =
     (case op of
        OpExecute block \<Rightarrow> snd (validator_execute H block v)
      | OpCheckpoint r \<Rightarrow> snd (emit_and_sign_checkpoint H M r v))"

definition run_validator :: "hasher \<Rightarrow> mldsa65 \<Rightarrow> validator_op list \<Rightarrow> Validator \<Rightarrow> Validator" where
  "run_validator H M ops v = foldl (validator_step H M) v ops"

text \<open>The ledger a validator holds at each call of its checkpointer.\<close>

fun ledger_at :: "hasher \<Rightarrow> validator_op list \<Rightarrow> InMemorySubstrate \<Rightarrow> (Round \<times> InMemorySubstrate) list" where
  "ledger_at H [] s = []"
| "ledger_at H (OpExecute block # ops) s = ledger_at H ops (snd (execute_block H block s))"
| "ledger_at H (OpCheckpoint r # ops) s = (r, s) # ledger_at H ops s"

definition emitted :: "hasher \<Rightarrow> validator_op list \<Rightarrow> Validator \<Rightarrow> Checkpoint list" where
  "emitted H ops v =
     fst (emit_all H (map (\<lambda>(r, s). (r, state_root H s)) (ledger_at H ops (v_substrate v))) (v_checkpointer v))"

lemma run_validator_checkpointer:
  "v_checkpointer (run_validator H M ops v) =
     snd (emit_all H (map (\<lambda>(r, s). (r, state_root H s)) (ledger_at H ops (v_substrate v))) (v_checkpointer v))"
proof (induction ops arbitrary: v)
  case (Cons op ops)
  then show ?case
    by (cases op)
      (auto simp: run_validator_def validator_step_def validator_execute_def emit_and_sign_checkpoint_def Let_def
        split: prod.splits option.splits sum.splits)
qed (simp add: run_validator_def)

lemma emitted_chain:
  assumes "checkpointer_new cadence = Some (v_checkpointer v)"
  shows "linked H (emitted H ops v)"
    "cp_last_hash (v_checkpointer (run_validator H M ops v)) = tip_hash H (emitted H ops v)"
    "map (\<lambda>c. (ck_round c, ck_state_root c)) (emitted H ops v) =
       map (\<lambda>(r, s). (r, state_root H s)) (filter (\<lambda>(r, s). r mod ucast cadence = 0) (ledger_at H ops (v_substrate v)))"
proof -
  let ?root = "\<lambda>(r, s). (r, state_root H s)"
  obtain cs p where cs: "emit_all H (map ?root (ledger_at H ops (v_substrate v))) (v_checkpointer v) = (cs, p)"
    by fastforce
  have "linked H []" "cp_cadence (v_checkpointer v) = cadence" "cp_next_height (v_checkpointer v) = 0"
    "cp_last_hash (v_checkpointer v) = tip_hash H []"
    using assms by (auto simp: checkpointer_new_def linked_def tip_hash_def dest: sym split: if_splits)
  with emit_all_chain [OF cs, of "[]"] have chain: "linked H cs" "cp_last_hash p = tip_hash H cs"
    "map (\<lambda>c. (ck_round c, ck_state_root c)) cs =
       filter (\<lambda>(r, root). r mod ucast cadence = 0) (map ?root (ledger_at H ops (v_substrate v)))"
    by simp_all
  moreover have "filter (\<lambda>(r, root). r mod ucast cadence = 0) (map ?root xs) = map ?root (filter (\<lambda>(r, s). r mod ucast cadence = 0) xs)" for xs
    by (induction xs) auto
  ultimately show "linked H (emitted H ops v)"
    "cp_last_hash (v_checkpointer (run_validator H M ops v)) = tip_hash H (emitted H ops v)"
    "map (\<lambda>c. (ck_round c, ck_state_root c)) (emitted H ops v) =
       map ?root (filter (\<lambda>(r, s). r mod ucast cadence = 0) (ledger_at H ops (v_substrate v)))"
    by (simp_all add: emitted_def cs run_validator_checkpointer)
qed

lemma equal_images_list_all2:
  "map f xs = map f ys \<Longrightarrow> list_all2 (\<lambda>x y. f x = f y) xs ys"
  by (simp only: list_all2_eq list_all2_map1 list_all2_map2)

text \<open>C6. Agreement on a checkpoint is agreement on the ledger.  Two validators of the same cadence that
  started empty, executed their own blocks and took checkpoints, and now hold the same latest checkpoint
  hash, took checkpoints at the same rounds, and at each of them had equal balances and equal stored bytes
  at every address, unless the checkpoints or the state roots exhibit an explicit hash collision.\<close>

theorem checkpoint_agreement_is_ledger_agreement:
  assumes "validator_node_new kp i cadence = Some v" "validator_node_new kp' i' cadence = Some w"
    and A: "A = filter (\<lambda>(r, s). r mod ucast cadence = 0) (ledger_at H ops substrate_new)"
    and B: "B = filter (\<lambda>(r, s). r mod ucast cadence = 0) (ledger_at H ops' substrate_new)"
    and "A \<noteq> []" "B \<noteq> []" "length A < 2 ^ 64" "length B < 2 ^ 64"
    and fits: "\<forall>(r, s) \<in> set A \<union> set B. \<forall>a. length (stored s a) < 2 ^ 32"
    and "cp_last_hash (v_checkpointer (run_validator H M ops v)) = cp_last_hash (v_checkpointer (run_validator H M ops' w))"
    and "\<not> chain_collision H (emitted H ops v) (emitted H ops' w)"
  shows "list_all2 (\<lambda>(r, s) (r', t). r = r' \<and> (root_collision H s t \<or> (\<forall>a. balance s a = balance t a \<and> stored s a = stored t a))) A B"
proof -
  let ?root = "\<lambda>(r, s). (r, state_root H s)"
  have v: "v_substrate v = substrate_new" "checkpointer_new cadence = Some (v_checkpointer v)"
    and w: "v_substrate w = substrate_new" "checkpointer_new cadence = Some (v_checkpointer w)"
    using assms(1,2) by (auto simp: validator_node_new_def)
  note chain = emitted_chain [where cadence = cadence and H = H]
  have len: "length (emitted H ops v) = length A" "length (emitted H ops' w) = length B"
    using arg_cong [OF chain(3) [OF v(2), of ops], of length] arg_cong [OF chain(3) [OF w(2), of ops'], of length]
    by (simp_all add: v(1) w(1) A B)
  moreover have "tip_hash H (emitted H ops v) = tip_hash H (emitted H ops' w)"
    using assms(10) by (simp add: chain(2) [OF v(2)] chain(2) [OF w(2)])
  moreover have "emitted H ops v \<noteq> []" "emitted H ops' w \<noteq> []"
    using len assms(5,6) by auto
  ultimately have "emitted H ops v = emitted H ops' w"
    by (intro tip_binds_chain [OF chain(1) [OF v(2)] chain(1) [OF w(2)]]) (use assms(7,8,11) in simp_all)
  then have "map ?root A = map ?root B"
    using chain(3) [OF v(2), of ops] chain(3) [OF w(2), of ops'] by (simp add: v(1) w(1) A B)
  then have roots: "list_all2 (\<lambda>x y. ?root x = ?root y) A B"
    by (rule equal_images_list_all2)
  have agree: "r = r' \<and> (root_collision H s t \<or> (\<forall>a. balance s a = balance t a \<and> stored s a = stored t a))"
    if "(r, s) \<in> set A" "(r', t) \<in> set B" "?root (r, s) = ?root (r', t)" for r s r' t
  proof -
    have "\<forall>a. length (stored s a) < 2 ^ 32" "\<forall>a. length (stored t a) < 2 ^ 32"
      using fits that(1,2) by auto
    with that(3) equal_roots [of H s t] show ?thesis
      by (auto simp: balance_def stored_def read_bytes_def)
  qed
  show ?thesis
    by (rule list.rel_mono_strong [OF roots]) (use agree in \<open>auto split: prod.splits\<close>)
qed

theorem checkpoint_agreement_is_ledger_agreement_witness:
  "\<exists>v w. validator_node_new (PublicKey [1], SecretKey [1]) 0 1 = Some v \<and> validator_node_new (PublicKey [2], SecretKey [2]) 1 1 = Some w \<and>
    list_all2 (\<lambda>(r, s) (r', t). r = r' \<and> (root_collision demo_blake s t \<or> (\<forall>a. balance s a = balance t a \<and> stored s a = stored t a)))
      (ledger_at demo_blake [OpCheckpoint 4] substrate_new)
      (ledger_at demo_blake [OpExecute \<lparr>blk_round = 3, blk_intents = []\<rparr>, OpCheckpoint 4] substrate_new)"
proof -
  let ?ops = "[OpExecute \<lparr>blk_round = 3, blk_intents = []\<rparr>, OpCheckpoint 4]"
  obtain v w where vw: "validator_node_new (PublicKey [1], SecretKey [1]) 0 1 = Some v" "validator_node_new (PublicKey [2], SecretKey [2]) 1 1 = Some w"
    by (simp add: validator_node_new_def checkpointer_new_def)
  have new: "v_substrate v = substrate_new" "v_substrate w = substrate_new"
    "v_checkpointer v = \<lparr>cp_cadence = 1, cp_next_height = 0, cp_last_hash = 0\<rparr>" "v_checkpointer w = v_checkpointer v"
    using vw by (auto simp: validator_node_new_def checkpointer_new_def)
  have same: "emitted demo_blake [OpCheckpoint 4] v = emitted demo_blake ?ops w"
    by (simp add: emitted_def new execute_empty)
  have "list_all2 (\<lambda>(r, s) (r', t). r = r' \<and> (root_collision demo_blake s t \<or> (\<forall>a. balance s a = balance t a \<and> stored s a = stored t a)))
      (ledger_at demo_blake [OpCheckpoint 4] substrate_new) (ledger_at demo_blake ?ops substrate_new)"
  proof (rule checkpoint_agreement_is_ledger_agreement [OF vw, of _ demo_blake "[OpCheckpoint 4]" _ ?ops demo_mldsa])
    show "cp_last_hash (v_checkpointer (run_validator demo_blake demo_mldsa [OpCheckpoint 4] v)) =
        cp_last_hash (v_checkpointer (run_validator demo_blake demo_mldsa ?ops w))"
      by (simp add: run_validator_checkpointer new execute_empty)
    show "\<not> chain_collision demo_blake (emitted demo_blake [OpCheckpoint 4] v) (emitted demo_blake ?ops w)"
      unfolding same by (auto simp: chain_collision_def collides_def list_ex_iff set_zip)
  qed (simp_all add: execute_block_def set_current_block_height_def stored_def read_bytes_def substrate_new_def Let_def)
  with vw show ?thesis
    by blast
qed

end
