(* ===== verification/Leaky_Bucket.thy ===== *)
theory Leaky_Bucket
  imports Prelude Complex_Main
begin

text \<open>
  The per-peer token bucket of \<open>suwappu-mempool/src/bucket.rs\<close>.  The source computes in \<open>f64\<close>: every
  arithmetic operation here is the exact one followed by \<open>rnd\<close>, the rounding of the floating-point format,
  which is an argument.  What is used of it is \<open>ieee_rounding\<close>: rounding is monotone and idempotent and
  exact on integers up to \<open>2 ^ 53\<close> (IEEE 754 binary64).  No operation of the bucket overflows or meets a NaN;
  the division by a zero refill rate, infinity in the source, is its own branch.
\<close>

definition ieee_rounding :: "(real \<Rightarrow> real) \<Rightarrow> bool" where
  "ieee_rounding rnd \<longleftrightarrow>
     (\<forall>x y. x \<le> y \<longrightarrow> rnd x \<le> rnd y) \<and> (\<forall>x. rnd (rnd x) = rnd x) \<and> (\<forall>n \<le> 2 ^ 53. rnd (real n) = real n)"

record LeakyBucket =
  lb_tokens :: real
  lb_capacity :: real
  lb_refill_per_ms :: real
  lb_last_refill_ms :: u64

definition bucket_new :: "(real \<Rightarrow> real) \<Rightarrow> u64 \<Rightarrow> u64 \<Rightarrow> u64 \<Rightarrow> LeakyBucket" where
  "bucket_new rnd capacity refill_per_sec now_ms =
     \<lparr>lb_tokens = rnd (real (unat capacity)), lb_capacity = rnd (real (unat capacity)),
      lb_refill_per_ms = rnd (rnd (real (unat refill_per_sec)) / 1000), lb_last_refill_ms = now_ms\<rparr>"

definition refill :: "(real \<Rightarrow> real) \<Rightarrow> u64 \<Rightarrow> LeakyBucket \<Rightarrow> LeakyBucket" where
  "refill rnd now_ms b =
     (let elapsed = rnd (real (unat (saturating_sub now_ms (lb_last_refill_ms b)))) in
      if 0 < elapsed
      then b\<lparr>lb_tokens := min (rnd (lb_tokens b + rnd (elapsed * lb_refill_per_ms b))) (lb_capacity b),
             lb_last_refill_ms := now_ms\<rparr>
      else b)"

text \<open>The cast \<open>as u64\<close> of a float saturates at both ends.\<close>

definition as_u64 :: "real \<Rightarrow> u64" where
  "as_u64 x = (if x \<le> 0 then 0 else if 2 ^ 64 \<le> x then - 1 else word_of_int \<lfloor>x\<rfloor>)"

definition take_one :: "(real \<Rightarrow> real) \<Rightarrow> u64 \<Rightarrow> LeakyBucket \<Rightarrow> (u64 + unit) \<times> LeakyBucket" where
  "take_one rnd now_ms b0 =
     (let b = refill rnd now_ms b0 in
      if 1 \<le> lb_tokens b then (Inr (), b\<lparr>lb_tokens := rnd (lb_tokens b - 1)\<rparr>)
      else let needed = rnd (1 - lb_tokens b) in
           (Inl (if lb_refill_per_ms b = 0 then - 1 else as_u64 (of_int \<lceil>rnd (needed / lb_refill_per_ms b)\<rceil>)), b))"

section \<open>Bounds\<close>

definition bucket_ok :: "(real \<Rightarrow> real) \<Rightarrow> LeakyBucket \<Rightarrow> bool" where
  "bucket_ok rnd b \<longleftrightarrow>
     0 \<le> lb_tokens b \<and> lb_tokens b \<le> lb_capacity b \<and> rnd (lb_capacity b) = lb_capacity b \<and> 0 \<le> lb_refill_per_ms b"

lemma ieee_mono: "ieee_rounding rnd \<Longrightarrow> x \<le> y \<Longrightarrow> rnd x \<le> rnd y"
  by (simp add: ieee_rounding_def)

lemma ieee_exact: "ieee_rounding rnd \<Longrightarrow> n \<le> 2 ^ 53 \<Longrightarrow> rnd (real n) = real n"
  by (simp add: ieee_rounding_def)

lemma ieee_zero: "ieee_rounding rnd \<Longrightarrow> rnd 0 = 0"
  using ieee_exact [of rnd 0] by simp

lemma ieee_nonneg: "ieee_rounding rnd \<Longrightarrow> 0 \<le> x \<Longrightarrow> 0 \<le> rnd x"
  using ieee_mono [of rnd 0 x] by (simp add: ieee_zero)

lemma ieee_count: "ieee_rounding rnd \<Longrightarrow> 0 \<le> rnd (unsigned (n :: u64))"
  using ieee_nonneg [OF _ of_nat_0_le_iff, of rnd "unat n"] by simp

lemma ieee_idem: "ieee_rounding rnd \<Longrightarrow> rnd (rnd x) = rnd x"
  by (simp add: ieee_rounding_def)

lemma bucket_new_ok: "ieee_rounding rnd \<Longrightarrow> bucket_ok rnd (bucket_new rnd capacity rate now_ms)"
  by (simp add: bucket_ok_def bucket_new_def ieee_nonneg ieee_count ieee_idem)

lemma refill_ok:
  assumes "ieee_rounding rnd" "bucket_ok rnd b"
  shows "bucket_ok rnd (refill rnd now_ms b)"
proof -
  let ?e = "rnd (real (unat (saturating_sub now_ms (lb_last_refill_ms b))))"
  have b: "0 \<le> lb_tokens b" "0 \<le> lb_refill_per_ms b" "lb_tokens b \<le> lb_capacity b"
    using assms(2) by (simp_all add: bucket_ok_def)
  show ?thesis
  proof (cases "0 < ?e")
    case True
    have "0 \<le> rnd (?e * lb_refill_per_ms b)"
      using True b(2) by (intro ieee_nonneg [OF assms(1)] mult_nonneg_nonneg) linarith+
    then have "0 \<le> rnd (lb_tokens b + rnd (?e * lb_refill_per_ms b))"
      using b(1) by (intro ieee_nonneg [OF assms(1) add_nonneg_nonneg])
    moreover have "refill rnd now_ms b =
        b\<lparr>lb_tokens := min (rnd (lb_tokens b + rnd (?e * lb_refill_per_ms b))) (lb_capacity b), lb_last_refill_ms := now_ms\<rparr>"
      using True by (simp only: refill_def Let_def if_True)
    ultimately show ?thesis
      using assms(2) b by (simp add: bucket_ok_def)
  next
    case False
    then have "refill rnd now_ms b = b"
      by (simp only: refill_def Let_def if_False)
    with assms(2) show ?thesis
      by simp
  qed
qed

lemma refill_capacity [simp]: "lb_capacity (refill rnd now_ms b) = lb_capacity b"
  by (simp add: refill_def Let_def)

text \<open>A bucket that has nothing to refill at an instant.\<close>

definition refilled :: "(real \<Rightarrow> real) \<Rightarrow> u64 \<Rightarrow> LeakyBucket \<Rightarrow> bool" where
  "refilled rnd now_ms b \<longleftrightarrow> rnd (real (unat (saturating_sub now_ms (lb_last_refill_ms b)))) \<le> 0"

lemma refilled_refill: "refilled rnd now_ms b \<Longrightarrow> refill rnd now_ms b = b"
  by (simp add: refilled_def refill_def)

lemma refill_refilled: "ieee_rounding rnd \<Longrightarrow> refilled rnd now_ms (refill rnd now_ms b)"
  by (auto simp: refilled_def refill_def Let_def saturating_sub_def ieee_zero)

lemma refilled_tokens: "refilled rnd now_ms (b\<lparr>lb_tokens := x\<rparr>) \<longleftrightarrow> refilled rnd now_ms b"
  by (simp add: refilled_def)

lemma take_one_ok:
  assumes "ieee_rounding rnd" "bucket_ok rnd b"
  shows "bucket_ok rnd (snd (take_one rnd now_ms b))"
proof -
  have b: "bucket_ok rnd (refill rnd now_ms b)"
    by (rule refill_ok [OF assms])
  moreover have "rnd (lb_tokens (refill rnd now_ms b) - 1) \<le> lb_capacity (refill rnd now_ms b)"
    using b ieee_mono [OF assms(1), of "lb_tokens (refill rnd now_ms b) - 1" "lb_capacity (refill rnd now_ms b)"]
    by (simp add: bucket_ok_def)
  ultimately show ?thesis
    using assms(1) by (auto simp: take_one_def Let_def bucket_ok_def ieee_nonneg)
qed

text \<open>The calls of one peer, in order, and how many of them succeed.\<close>

fun take_run :: "(real \<Rightarrow> real) \<Rightarrow> u64 list \<Rightarrow> LeakyBucket \<Rightarrow> nat \<times> LeakyBucket" where
  "take_run rnd [] b = (0, b)"
| "take_run rnd (t # ts) b =
     (case take_one rnd t b of (r, b') \<Rightarrow> (case take_run rnd ts b' of (n, c) \<Rightarrow> (n + (case r of Inl _ \<Rightarrow> 0 | Inr _ \<Rightarrow> 1), c)))"

lemma take_run_ok: "ieee_rounding rnd \<Longrightarrow> bucket_ok rnd b \<Longrightarrow> bucket_ok rnd (snd (take_run rnd ts b))"
proof (induction ts arbitrary: b)
  case (Cons t ts)
  obtain r b' where b': "take_one rnd t b = (r, b')"
    by fastforce
  then have "bucket_ok rnd b'"
    using take_one_ok [OF Cons.prems, of t] by simp
  then have "bucket_ok rnd (snd (take_run rnd ts b'))"
    by (rule Cons.IH [OF Cons.prems(1)])
  then show ?case
    by (cases "take_run rnd ts b'") (simp add: b')
qed simp

lemma instant_burst:
  assumes "ieee_rounding rnd" "bucket_ok rnd b" "refilled rnd t b" "lb_tokens b \<le> real n" "n \<le> 2 ^ 53"
  shows "fst (take_run rnd (replicate k t) b) \<le> n"
  using assms(2-5)
proof (induction k arbitrary: b n)
  case (Suc k)
  show ?case
  proof (cases "1 \<le> lb_tokens b")
    case False
    then have "take_one rnd t b = (Inl (if lb_refill_per_ms b = 0 then - 1 else
        as_u64 (of_int \<lceil>rnd (rnd (1 - lb_tokens b) / lb_refill_per_ms b)\<rceil>)), b)"
      by (simp add: take_one_def refilled_refill [OF Suc.prems(2)])
    with Suc.IH [OF Suc.prems] show ?thesis
      by (cases "take_run rnd (replicate k t) b") simp
  next
    case True
    let ?b = "b\<lparr>lb_tokens := rnd (lb_tokens b - 1)\<rparr>"
    have take: "take_one rnd t b = (Inr (), ?b)"
      using True by (simp add: take_one_def refilled_refill [OF Suc.prems(2)])
    obtain m where n: "n = Suc m"
      using True Suc.prems(3) by (cases n) auto
    have "bucket_ok rnd ?b"
      using take_one_ok [OF assms(1) Suc.prems(1), of t] by (simp add: take)
    moreover have "refilled rnd t ?b"
      using Suc.prems(2) by (simp only: refilled_tokens)
    moreover have "lb_tokens ?b \<le> real m"
      using ieee_mono [OF assms(1), of "lb_tokens b - 1" "real m"] ieee_exact [OF assms(1), of m] Suc.prems(3,4)
      by (simp add: n)
    ultimately have "fst (take_run rnd (replicate k t) ?b) \<le> m"
      using Suc.IH Suc.prems(4) n by simp
    then show ?thesis
      by (cases "take_run rnd (replicate k t) ?b") (simp add: take n)
  qed
qed simp

section \<open>Property\<close>

text \<open>C37. Bounds of the rate limiter.  Whatever calls a peer makes and however the clock moves, the tokens
  stay between zero and the capacity, so a peer idle for any time has saved up no more than one burst;
  and of any number of calls made at one instant at most \<open>capacity\<close> succeed, for capacities that a double
  represents exactly.\<close>

theorem bucket_bounds:
  assumes "ieee_rounding rnd" "unat capacity \<le> 2 ^ 53"
    and b: "b = snd (take_run rnd ts (bucket_new rnd capacity refill_per_sec start_ms))"
  shows "0 \<le> lb_tokens b \<and> lb_tokens b \<le> real (unat capacity) \<and> fst (take_run rnd (replicate k now_ms) b) \<le> unat capacity"
proof -
  have ok: "bucket_ok rnd b"
    unfolding b by (rule take_run_ok [OF assms(1) bucket_new_ok [OF assms(1)]])
  have cap: "lb_capacity (snd (take_run rnd ts c)) = lb_capacity c" for ts c
  proof (induction ts arbitrary: c)
    case (Cons t ts)
    obtain r d where d: "take_one rnd t c = (r, d)"
      by fastforce
    then have "lb_capacity d = lb_capacity c"
      by (auto simp: take_one_def Let_def split: if_splits)
    with Cons [of d] show ?case
      by (cases "take_run rnd ts d") (simp add: d)
  qed simp
  have capacity: "lb_capacity b = real (unat capacity)"
    using ieee_exact [OF assms(1,2)] unfolding b cap by (simp add: bucket_new_def)
  have "fst (take_run rnd (replicate k now_ms) b) \<le> unat capacity"
  proof (cases k)
    case (Suc j)
    have "take_run rnd (replicate k now_ms) b = take_run rnd (replicate k now_ms) (refill rnd now_ms b)"
      using refilled_refill [OF refill_refilled [OF assms(1), of now_ms b]] by (simp add: Suc take_one_def)
    moreover have "lb_tokens (refill rnd now_ms b) \<le> real (unat capacity)"
      using refill_ok [OF assms(1) ok, of now_ms] capacity by (simp add: bucket_ok_def)
    ultimately show ?thesis
      using instant_burst [OF assms(1) refill_ok [OF assms(1) ok] refill_refilled [OF assms(1)] _ assms(2), of now_ms k] by simp
  qed simp
  with ok capacity show ?thesis
    by (simp add: bucket_ok_def)
qed

theorem bucket_bounds_witness:
  "fst (take_run id (replicate 5 9) (snd (take_run id [3, 4] (bucket_new id 2 1000 0)))) \<le> 2"
  using bucket_bounds [of id 2 _ "[3, 4]" 1000 0 5 9, OF _ _ refl] by (simp add: ieee_rounding_def)

end
