(* ===== verification/Mempool.thy ===== *)
theory Mempool
  imports Block_Exec Leaky_Bucket "HOL-Library.Product_Lexorder" "HOL-Library.List_Lexorder" "HOL-Library.Char_ord"
begin

text \<open>
  The mempool, \<open>suwappu-mempool/src/mempool.rs\<close>: a bounded priority queue ordered by descending priority,
  then submission time, then hash, with a deduplication set and one token bucket per peer.  The state is
  the guarded \<open>Inner\<close>; every method holds the lock for its whole body, so a method is one step.  The
  serialization of an intent is third-party (\<open>bincode\<close>) and an argument.  The lemmas show the invariant
  of the two containers, the exact outcome of a submission, and that blocks drain in priority order.
\<close>

section \<open>The queue key\<close>

datatype reverse = Reverse (unreverse: u64)

instantiation reverse :: linorder
begin

definition less_eq_reverse :: "reverse \<Rightarrow> reverse \<Rightarrow> bool" where
  "less_eq_reverse a b \<longleftrightarrow> unreverse b \<le> unreverse a"

definition less_reverse :: "reverse \<Rightarrow> reverse \<Rightarrow> bool" where
  "less_reverse a b \<longleftrightarrow> unreverse b < unreverse a"

instance
  by standard (auto simp: less_eq_reverse_def less_reverse_def reverse.expand)

end

type_synonym IntentHash = hash32
type_synonym EntryKey = "reverse \<times> u64 \<times> IntentHash"

abbreviation key_priority :: "EntryKey \<Rightarrow> u64" where
  "key_priority k \<equiv> unreverse (fst k)"

abbreviation key_hash :: "EntryKey \<Rightarrow> IntentHash" where
  "key_hash k \<equiv> snd (snd k)"

section \<open>State and operations\<close>

record MempoolConfig =
  mc_capacity :: nat
  mc_ttl_ms :: u64
  mc_per_peer_capacity :: u64
  mc_per_peer_refill_per_sec :: u64

definition mempool_config_default :: MempoolConfig where
  "mempool_config_default =
     \<lparr>mc_capacity = 10000, mc_ttl_ms = 60000, mc_per_peer_capacity = 100, mc_per_peer_refill_per_sec = 50\<rparr>"

record MempoolStats =
  ms_size :: nat
  ms_capacity :: nat
  ms_max_priority :: "u64 option"
  ms_min_priority :: "u64 option"
  ms_tracked_peers :: nat

datatype MempoolError =
    RateLimited u64
  | DuplicateIntent IntentHash
  | BelowFloor u64 u64 nat
  | EncodeError string

record Entry =
  en_intent :: Intent
  en_submit_ms :: u64

record Mempool =
  mp_queue :: "(EntryKey, Entry) btmap"
  mp_seen :: "IntentHash set"
  mp_buckets :: "(string, LeakyBucket) btmap"

definition mempool_new :: Mempool where
  "mempool_new = \<lparr>mp_queue = bt_empty, mp_seen = {}, mp_buckets = bt_empty\<rparr>"

text \<open>\<open>pop_first\<close> and \<open>pop_last\<close> of the ordered map.\<close>

definition bt_pop_first :: "('k::linorder, 'v) btmap \<Rightarrow> (('k \<times> 'v) \<times> ('k, 'v) btmap) option" where
  "bt_pop_first m = (case bt_entries m of [] \<Rightarrow> None | (k, v) # _ \<Rightarrow> Some ((k, v), bt_remove k m))"

definition bt_pop_last :: "('k::linorder, 'v) btmap \<Rightarrow> (('k \<times> 'v) \<times> ('k, 'v) btmap) option" where
  "bt_pop_last m =
     (if bt_entries m = [] then None else Some (last (bt_entries m), bt_remove (fst (last (bt_entries m))) m))"

text \<open>Step 2 of \<open>submit\<close>.  The bucket keeps its new state when the call is refused.\<close>

definition rate_limit :: "(real \<Rightarrow> real) \<Rightarrow> MempoolConfig \<Rightarrow> string option \<Rightarrow> u64 \<Rightarrow> Mempool \<Rightarrow> (u64 + unit) \<times> Mempool" where
  "rate_limit rnd cfg peer now_ms s =
     (case peer of
        None \<Rightarrow> (Inr (), s)
      | Some label \<Rightarrow>
          (let bucket = unwrap_or (bucket_new rnd (mc_per_peer_capacity cfg) (mc_per_peer_refill_per_sec cfg) now_ms)
                          (bt_get (mp_buckets s) label);
               (r, bucket') = take_one rnd now_ms bucket
           in (r, s\<lparr>mp_buckets := bt_insert label bucket' (mp_buckets s)\<rparr>)))"

text \<open>Step 4: at capacity, refuse at or below the floor, or evict the floor.\<close>

definition make_room :: "MempoolConfig \<Rightarrow> u64 \<Rightarrow> Mempool \<Rightarrow> MempoolError + Mempool" where
  "make_room cfg priority s =
     (if mc_capacity cfg \<le> bt_len (mp_queue s)
      then let floor_priority = unwrap_or 0 (map_option key_priority (bt_last_key (mp_queue s))) in
           if priority \<le> floor_priority then Inl (BelowFloor priority floor_priority (mc_capacity cfg))
           else (case bt_pop_last (mp_queue s) of
                   None \<Rightarrow> Inr s
                 | Some ((evicted_key, _), queue) \<Rightarrow>
                     Inr (s\<lparr>mp_queue := queue, mp_seen := mp_seen s - {key_hash evicted_key}\<rparr>))
      else Inr s)"

definition enqueue :: "Intent \<Rightarrow> u64 \<Rightarrow> u64 \<Rightarrow> IntentHash \<Rightarrow> Mempool \<Rightarrow> Mempool" where
  "enqueue intent priority now_ms h s =
     s\<lparr>mp_seen := insert h (mp_seen s),
       mp_queue := bt_insert (Reverse priority, now_ms, h) \<lparr>en_intent = intent, en_submit_ms = now_ms\<rparr> (mp_queue s)\<rparr>"

definition submit ::
  "hasher \<Rightarrow> (Intent \<Rightarrow> string + bytes) \<Rightarrow> (real \<Rightarrow> real) \<Rightarrow> MempoolConfig \<Rightarrow> Intent \<Rightarrow> u64 \<Rightarrow> string option \<Rightarrow> u64 \<Rightarrow> Mempool \<Rightarrow>
     (MempoolError + IntentHash) \<times> Mempool" where
  "submit H encode rnd cfg intent priority peer now_ms s0 =
     (case encode intent of
        Inl e \<Rightarrow> (Inl (EncodeError e), s0)
      | Inr bs \<Rightarrow>
          (let h = H bs in
           case rate_limit rnd cfg peer now_ms s0 of
             (Inl retry_after_ms, s) \<Rightarrow> (Inl (RateLimited retry_after_ms), s)
           | (Inr _, s) \<Rightarrow>
               (if h \<in> mp_seen s then (Inl (DuplicateIntent h), s)
                else case make_room cfg priority s of
                       Inl e \<Rightarrow> (Inl e, s)
                     | Inr t \<Rightarrow> (Inr h, enqueue intent priority now_ms h t))))"

text \<open>The loop of \<open>drain_for_block\<close>, counting down the room left in the block.\<close>

fun drain_for_block :: "nat \<Rightarrow> Mempool \<Rightarrow> Intent list \<times> Mempool" where
  "drain_for_block 0 s = ([], s)"
| "drain_for_block (Suc n) s =
     (case bt_pop_first (mp_queue s) of
        None \<Rightarrow> ([], s)
      | Some ((key, entry), queue) \<Rightarrow>
          (case drain_for_block n (s\<lparr>mp_queue := queue, mp_seen := mp_seen s - {key_hash key}\<rparr>) of
             (out, t) \<Rightarrow> (en_intent entry # out, t)))"

definition expire :: "MempoolConfig \<Rightarrow> u64 \<Rightarrow> Mempool \<Rightarrow> nat \<times> Mempool" where
  "expire cfg now_ms s =
     (let to_drop = map fst (filter (\<lambda>(key, entry). mc_ttl_ms cfg < saturating_sub now_ms (en_submit_ms entry)) (bt_entries (mp_queue s)))
      in (length to_drop,
          foldl (\<lambda>s key. s\<lparr>mp_queue := bt_remove key (mp_queue s), mp_seen := mp_seen s - {key_hash key}\<rparr>) s to_drop))"

definition mempool_stats :: "MempoolConfig \<Rightarrow> Mempool \<Rightarrow> MempoolStats" where
  "mempool_stats cfg s =
     \<lparr>ms_size = bt_len (mp_queue s), ms_capacity = mc_capacity cfg,
      ms_max_priority = (case bt_keys (mp_queue s) of [] \<Rightarrow> None | k # _ \<Rightarrow> Some (key_priority k)),
      ms_min_priority = map_option key_priority (bt_last_key (mp_queue s)),
      ms_tracked_peers = bt_len (mp_buckets s)\<rparr>"

definition gc_buckets :: "u64 \<Rightarrow> u64 \<Rightarrow> Mempool \<Rightarrow> nat \<times> Mempool" where
  "gc_buckets now_ms idle_threshold_ms s =
     (let kept = foldl (\<lambda>m (label, bucket).
            if saturating_sub now_ms (lb_last_refill_ms bucket) < idle_threshold_ms then m else bt_remove label m)
            (mp_buckets s) (bt_entries (mp_buckets s))
      in (bt_len (mp_buckets s) - bt_len kept, s\<lparr>mp_buckets := kept\<rparr>))"

section \<open>Ordered removal\<close>

lemma entries_remove: "bt_entries (bt_remove k m) = filter (\<lambda>p. fst p \<noteq> k) (bt_entries m)"
  by (rule bt_remove.rep_eq)

lemma entries_head:
  assumes "bt_entries m = (k, v) # es"
  shows "bt_entries (bt_remove k m) = es" "\<forall>p \<in> set es. k < fst p"
proof -
  show "\<forall>p \<in> set es. k < fst p"
    using bt_entries_strict [of m] assms by (auto simp: strict_keys_def)
  then show "bt_entries (bt_remove k m) = es"
    using assms by (auto simp: entries_remove intro!: filter_True)
qed

lemma pop_first_Some:
  "bt_pop_first m = Some ((k, v), m') \<longleftrightarrow> bt_entries m = (k, v) # bt_entries m' \<and> m' = bt_remove k m"
  by (auto simp: bt_pop_first_def entries_head(1) split: list.splits)

lemma pop_last_Some:
  assumes "bt_pop_last m = Some ((k, v), m')"
  shows "bt_get m k = Some v" "m' = bt_remove k m" "bt_last_key m = Some k" "\<And>k' w. bt_get m k' = Some w \<Longrightarrow> k' \<le> k"
proof -
  have last: "bt_entries m \<noteq> []" "last (bt_entries m) = (k, v)" "m' = bt_remove k m"
    using assms by (auto simp: bt_pop_last_def split: if_splits)
  then show "m' = bt_remove k m" "bt_last_key m = Some k"
    by (simp_all add: bt_last_key_def bt_keys_def last_map)
  have "(k, v) \<in> set (bt_entries m)"
    using last(1,2) last_in_set by metis
  then show "bt_get m k = Some v"
    by (simp add: bt.entries_get)
  obtain es where es: "bt_entries m = es @ [(k, v)]"
    using last(1,2) append_butlast_last_id by metis
  show "k' \<le> k" if "bt_get m k' = Some w" for k' w
  proof -
    have "(k', w) \<in> set (bt_entries m)"
      using that by (simp add: bt.entries_get)
    then show ?thesis
      using bt_entries_strict [of m] unfolding es strict_keys_def by (auto simp: sorted_wrt_append)
  qed
qed

section \<open>The invariant\<close>

definition intent_hash :: "hasher \<Rightarrow> (Intent \<Rightarrow> string + bytes) \<Rightarrow> Intent \<Rightarrow> IntentHash option" where
  "intent_hash H encode i = (case encode i of Inl _ \<Rightarrow> None | Inr bs \<Rightarrow> Some (H bs))"

text \<open>The deduplication set mirrors the queue, no hash is queued twice, keys describe their entries, and the
  queue is within capacity; a capacity of zero still admits one entry.\<close>

definition mempool_ok :: "hasher \<Rightarrow> (Intent \<Rightarrow> string + bytes) \<Rightarrow> MempoolConfig \<Rightarrow> Mempool \<Rightarrow> bool" where
  "mempool_ok H encode cfg s \<longleftrightarrow>
     mp_seen s = key_hash ` set (bt_keys (mp_queue s)) \<and> inj_on key_hash (set (bt_keys (mp_queue s))) \<and>
     (\<forall>k e. bt_get (mp_queue s) k = Some e \<longrightarrow> fst (snd k) = en_submit_ms e \<and> intent_hash H encode (en_intent e) = Some (key_hash k)) \<and>
     bt_len (mp_queue s) \<le> max 1 (mc_capacity cfg)"

datatype mempool_op =
    MpSubmit Intent u64 "string option" u64
  | MpDrain nat
  | MpExpire u64
  | MpGc u64 u64

definition mempool_step :: "hasher \<Rightarrow> (Intent \<Rightarrow> string + bytes) \<Rightarrow> (real \<Rightarrow> real) \<Rightarrow> MempoolConfig \<Rightarrow> Mempool \<Rightarrow> mempool_op \<Rightarrow> Mempool" where
  "mempool_step H encode rnd cfg s op =
     (case op of
        MpSubmit intent priority peer now_ms \<Rightarrow> snd (submit H encode rnd cfg intent priority peer now_ms s)
      | MpDrain n \<Rightarrow> snd (drain_for_block n s)
      | MpExpire now_ms \<Rightarrow> snd (expire cfg now_ms s)
      | MpGc now_ms idle_threshold_ms \<Rightarrow> snd (gc_buckets now_ms idle_threshold_ms s))"

definition run_mempool :: "hasher \<Rightarrow> (Intent \<Rightarrow> string + bytes) \<Rightarrow> (real \<Rightarrow> real) \<Rightarrow> MempoolConfig \<Rightarrow> mempool_op list \<Rightarrow> Mempool" where
  "run_mempool H encode rnd cfg ops = foldl (mempool_step H encode rnd cfg) mempool_new ops"

lemma keys_remove: "set (bt_keys (bt_remove k m)) = set (bt_keys m) - {k}"
  by (auto simp: set_bt_keys bt.get_remove split: if_splits)

lemma keys_insert: "set (bt_keys (bt_insert k v m)) = insert k (set (bt_keys m))"
  by (auto simp: set_bt_keys bt.get_insert split: if_splits)

definition unqueue :: "EntryKey \<Rightarrow> Mempool \<Rightarrow> Mempool" where
  "unqueue k s = s\<lparr>mp_queue := bt_remove k (mp_queue s), mp_seen := mp_seen s - {key_hash k}\<rparr>"

lemma unqueue_simps [simp]:
  "mp_queue (unqueue k s) = bt_remove k (mp_queue s)" "mp_seen (unqueue k s) = mp_seen s - {key_hash k}"
  by (simp_all add: unqueue_def)

lemma unqueue_ok:
  assumes "mempool_ok H encode cfg s" "bt_get (mp_queue s) k = Some e"
  shows "mempool_ok H encode cfg (unqueue k s)" "bt_len (mp_queue (unqueue k s)) < bt_len (mp_queue s)"
proof -
  have "k \<in> set (bt_keys (mp_queue s))"
    using assms(2) by (simp add: set_bt_keys)
  moreover show less: "bt_len (mp_queue (unqueue k s)) < bt_len (mp_queue s)"
    using bt_len_remove_less [of "mp_queue s" k] assms(2) by simp
  ultimately show "mempool_ok H encode cfg (unqueue k s)"
    using assms(1) unfolding mempool_ok_def unqueue_simps keys_remove
    by (auto simp: bt.get_remove inj_on_def split: if_splits)
qed

lemma enqueue_ok:
  assumes "mempool_ok H encode cfg s" "h \<notin> mp_seen s" "intent_hash H encode i = Some h" "bt_len (mp_queue s) < max 1 (mc_capacity cfg)"
  shows "mempool_ok H encode cfg (enqueue i p t h s)"
proof -
  have "bt_len (mp_queue (enqueue i p t h s)) \<le> max 1 (mc_capacity cfg)"
    using order_trans [OF bt_len_insert_le Suc_leI [OF assms(4)]] by (simp add: enqueue_def)
  with assms(1-3) show ?thesis
    unfolding mempool_ok_def by (auto simp: enqueue_def keys_insert bt.get_insert inj_on_def split: if_splits)
qed

lemma rate_limit_queue:
  "rate_limit rnd cfg peer now_ms s = (r, t) \<Longrightarrow> mp_queue t = mp_queue s \<and> mp_seen t = mp_seen s"
  by (auto simp: rate_limit_def Let_def split: option.splits prod.splits)

lemma mempool_ok_cong:
  "mp_queue s = mp_queue t \<Longrightarrow> mp_seen s = mp_seen t \<Longrightarrow> mempool_ok H encode cfg s \<longleftrightarrow> mempool_ok H encode cfg t"
  by (simp add: mempool_ok_def)

text \<open>Making room leaves the queue as it is, or evicts the last entry for a strictly higher priority.\<close>

lemma make_room_cases:
  assumes "make_room cfg p s = Inr t"
  obtains "t = s" "bt_len (mp_queue s) < max 1 (mc_capacity cfg)"
  | k e where "bt_get (mp_queue s) k = Some e" "t = unqueue k s" "mc_capacity cfg \<le> bt_len (mp_queue s)"
      "key_priority k < p" "\<And>k' e'. bt_get (mp_queue s) k' = Some e' \<Longrightarrow> key_priority k \<le> key_priority k'"
proof (cases "mc_capacity cfg \<le> bt_len (mp_queue s)")
  case False
  with assms that(1) show ?thesis
    by (simp add: make_room_def)
next
  case full: True
  show ?thesis
  proof (cases "bt_pop_last (mp_queue s)")
    case None
    then have "bt_len (mp_queue s) = 0"
      by (simp add: bt_pop_last_def bt_len_def split: if_splits)
    with None full assms that(1) show ?thesis
      by (simp add: make_room_def Let_def split: if_splits)
  next
    case (Some x)
    obtain k e q where x: "x = ((k, e), q)" by (cases x) auto
    note popped = pop_last_Some [OF Some [unfolded x]]
    have "t = unqueue k s \<and> key_priority k < p"
      using assms full popped(2,3) by (simp add: make_room_def Some x Let_def unqueue_def not_le split: if_splits)
    moreover have "key_priority k \<le> key_priority k'" if "bt_get (mp_queue s) k' = Some e'" for k' e'
      using popped(4) [OF that] by (auto simp: less_eq_prod_def less_eq_reverse_def less_reverse_def)
    ultimately show ?thesis
      using that(2) popped(1) full by blast
  qed
qed

lemma submit_ok:
  assumes "mempool_ok H encode cfg s"
  shows "mempool_ok H encode cfg (snd (submit H encode rnd cfg i p peer now_ms s))"
proof (cases "encode i")
  case (Inr bs)
  obtain r s1 where r: "rate_limit rnd cfg peer now_ms s = (r, s1)"
    by fastforce
  have s1: "mempool_ok H encode cfg s1"
    using assms mempool_ok_cong [of s1 s] rate_limit_queue [OF r] by blast
  have hash: "intent_hash H encode i = Some (H bs)"
    by (simp add: intent_hash_def Inr)
  have "mempool_ok H encode cfg (enqueue i p now_ms (H bs) t)" if room: "make_room cfg p s1 = Inr t" and new: "H bs \<notin> mp_seen s1" for t
  proof (rule make_room_cases [OF room])
    assume "t = s1" "bt_len (mp_queue s1) < max 1 (mc_capacity cfg)"
    then show ?thesis
      using enqueue_ok [OF s1 new hash] by simp
  next
    fix k e
    assume k: "bt_get (mp_queue s1) k = Some e" "t = unqueue k s1"
    have "bt_len (mp_queue s1) \<le> max 1 (mc_capacity cfg)"
      using s1 by (simp add: mempool_ok_def)
    then show ?thesis
      using unqueue_ok [OF s1 k(1)] new unfolding k(2) by (intro enqueue_ok hash) simp_all
  qed
  then show ?thesis
    using s1 by (auto simp: submit_def Inr r Let_def split: sum.splits)
qed (simp add: submit_def assms)

lemma drain_ok: "mempool_ok H encode cfg s \<Longrightarrow> mempool_ok H encode cfg (snd (drain_for_block n s))"
proof (induction n arbitrary: s)
  case (Suc n)
  show ?case
  proof (cases "bt_pop_first (mp_queue s)")
    case (Some x)
    obtain k e q where x: "x = ((k, e), q)" by (cases x) auto
    have k: "q = bt_remove k (mp_queue s)" "bt_get (mp_queue s) k = Some e"
      using Some [unfolded x pop_first_Some] by (auto simp flip: bt.entries_get)
    then have "mempool_ok H encode cfg (unqueue k s)"
      using unqueue_ok(1) [OF Suc.prems] by blast
    from Suc.IH [OF this] show ?thesis
      by (simp add: Some x k(1) unqueue_def case_prod_beta)
  qed (simp add: Suc.prems)
qed simp

lemma unqueue_all_ok:
  assumes "mempool_ok H encode cfg s" "distinct ks" "set ks \<subseteq> set (bt_keys (mp_queue s))"
  shows "mempool_ok H encode cfg (foldl (\<lambda>s k. unqueue k s) s ks)"
  using assms
proof (induction ks arbitrary: s)
  case (Cons k ks)
  then obtain e where "bt_get (mp_queue s) k = Some e"
    by (auto simp: set_bt_keys)
  with Cons show ?case
    using unqueue_ok(1) [OF Cons.prems(1)] by (simp add: keys_remove subset_Diff_insert)
qed simp

lemma expire_unqueues:
  "snd (expire cfg now_ms s) = foldl (\<lambda>s k. unqueue k s) s
     (map fst (filter (\<lambda>(key, entry). mc_ttl_ms cfg < saturating_sub now_ms (en_submit_ms entry)) (bt_entries (mp_queue s))))"
  by (simp add: expire_def Let_def unqueue_def)

lemma expire_ok:
  assumes "mempool_ok H encode cfg s"
  shows "mempool_ok H encode cfg (snd (expire cfg now_ms s))"
  unfolding expire_unqueues
  by (rule unqueue_all_ok [OF assms])
    (use bt_keys_distinct [of "mp_queue s"] in \<open>auto simp: bt_keys_def distinct_map_filter\<close>)

lemma step_ok: "mempool_ok H encode cfg s \<Longrightarrow> mempool_ok H encode cfg (mempool_step H encode rnd cfg s op)"
  by (cases op) (simp_all add: mempool_step_def submit_ok drain_ok expire_ok gc_buckets_def Let_def mempool_ok_cong [of "_\<lparr>mp_buckets := _\<rparr>"])

lemma run_ok: "mempool_ok H encode cfg (run_mempool H encode rnd cfg ops)"
proof -
  have "mempool_ok H encode cfg mempool_new"
    by (simp add: mempool_ok_def mempool_new_def bt_keys_def bt.entries_empty bt.get_empty)
  moreover have "mempool_ok H encode cfg (foldl (mempool_step H encode rnd cfg) s ops)" if "mempool_ok H encode cfg s" for s
    using that by (induction ops arbitrary: s) (simp_all add: step_ok)
  ultimately show ?thesis
    by (simp add: run_mempool_def)
qed

section \<open>Order\<close>

lemma drain_entries:
  "bt_entries (mp_queue s) = take n (bt_entries (mp_queue s)) @ bt_entries (mp_queue (snd (drain_for_block n s))) \<and>
   fst (drain_for_block n s) = map (\<lambda>(k, e). en_intent e) (take n (bt_entries (mp_queue s)))"
proof (induction n arbitrary: s)
  case (Suc n)
  show ?case
  proof (cases "bt_pop_first (mp_queue s)")
    case None
    then show ?thesis
      by (simp add: bt_pop_first_def split: list.splits prod.splits)
  next
    case (Some x)
    obtain k e q where x: "x = ((k, e), q)" by (cases x) auto
    have k: "q = bt_remove k (mp_queue s)" "bt_entries (mp_queue s) = (k, e) # bt_entries q"
      using Some [unfolded x pop_first_Some] by blast+
    then show ?thesis
      using Suc.IH [of "s\<lparr>mp_queue := q, mp_seen := mp_seen s - {key_hash k}\<rparr>"]
      by (simp add: Some x case_prod_beta)
  qed
qed simp

lemma key_less:
  assumes "(k :: EntryKey) < k'"
  shows "key_priority k' < key_priority k \<or> key_priority k' = key_priority k \<and> fst (snd k) \<le> fst (snd k')"
proof -
  obtain p t h p' t' h' where k: "k = (Reverse p, t, h)" "k' = (Reverse p', t', h')"
    by (metis prod.exhaust reverse.exhaust)
  then have "p' < p \<or> p' \<le> p \<and> (t < t' \<or> t \<le> t' \<and> h < h')"
    using assms by (simp add: less_prod_def less_reverse_def less_eq_reverse_def)
  then show ?thesis
    unfolding k by (simp add: le_less) blast
qed

lemma drain_order:
  assumes "mempool_ok H encode cfg s"
  shows "\<exists>es. bt_entries (mp_queue s) = es @ bt_entries (mp_queue (snd (drain_for_block n s))) \<and>
    fst (drain_for_block n s) = map (\<lambda>(k, e). en_intent e) es \<and> length es = min n (bt_len (mp_queue s)) \<and>
    (\<forall>(k, e) \<in> set es. \<forall>(k', e') \<in> set (bt_entries (mp_queue (snd (drain_for_block n s)))).
       key_priority k' < key_priority k \<or> key_priority k' = key_priority k \<and> en_submit_ms e \<le> en_submit_ms e')"
proof -
  define es where "es = take n (bt_entries (mp_queue s))"
  define rest where "rest = bt_entries (mp_queue (snd (drain_for_block n s)))"
  have split: "bt_entries (mp_queue s) = es @ rest" "fst (drain_for_block n s) = map (\<lambda>(k, e). en_intent e) es"
    using drain_entries [of s n] by (simp_all only: es_def rest_def)
  have len: "length es = min n (bt_len (mp_queue s))"
    by (simp add: es_def bt_len_def min.commute)
  have time: "fst (snd k) = en_submit_ms e" if "(k, e) \<in> set (es @ rest)" for k e
    using that assms unfolding split(1) [symmetric] bt.entries_get mempool_ok_def by blast
  have "strict_keys (es @ rest)"
    unfolding split(1) [symmetric] by (rule bt_entries_strict)
  then have less: "k < k'" if "(k, e) \<in> set es" "(k', e') \<in> set rest" for k e k' e'
    using that by (force simp: strict_keys_def sorted_wrt_append)
  have "\<forall>(k, e) \<in> set es. \<forall>(k', e') \<in> set rest.
      key_priority k' < key_priority k \<or> key_priority k' = key_priority k \<and> en_submit_ms e \<le> en_submit_ms e'"
  proof (intro ballI, clarify del: disjCI)
    fix r t h e r' t' h' e'
    assume in_es: "((r, t, h), e) \<in> set es" and in_rest: "((r', t', h'), e') \<in> set rest"
    show "unreverse (fst (r', t', h')) < unreverse (fst (r, t, h)) \<or>
        unreverse (fst (r', t', h')) = unreverse (fst (r, t, h)) \<and> en_submit_ms e \<le> en_submit_ms e'"
      using key_less [OF less [OF in_es in_rest]] time [of "(r, t, h)" e] time [of "(r', t', h')" e'] in_es in_rest by simp
  qed
  with split len show ?thesis
    unfolding rest_def [symmetric] by (intro exI [of _ es] conjI)
qed

lemma submit_accepted:
  assumes "mempool_ok H encode cfg s" "submit H encode rnd cfg i p peer now_ms s = (Inr h, t)"
  shows "intent_hash H encode i = Some h" "h \<notin> mp_seen s"
    "bt_get (mp_queue t) (Reverse p, now_ms, h) = Some \<lparr>en_intent = i, en_submit_ms = now_ms\<rparr>"
    "\<forall>k e. bt_get (mp_queue s) k = Some e \<and> bt_get (mp_queue t) k \<noteq> Some e \<longrightarrow>
       mc_capacity cfg \<le> bt_len (mp_queue s) \<and> key_priority k < p \<and>
       (\<forall>k' e'. bt_get (mp_queue s) k' = Some e' \<longrightarrow> key_priority k \<le> key_priority k')"
proof -
  obtain bs where bs: "encode i = Inr bs"
    using assms(2) by (cases "encode i") (simp_all add: submit_def)
  obtain r s1 where r: "rate_limit rnd cfg peer now_ms s = (r, s1)"
    by (rule prod.exhaust)
  note same = rate_limit_queue [OF r]
  obtain t1 where t1: "H bs \<notin> mp_seen s" "make_room cfg p s1 = Inr t1" "h = H bs" "t = enqueue i p now_ms h t1"
    using assms(2) same by (cases r; cases "make_room cfg p s1") (auto simp: submit_def bs r Let_def split: if_splits)
  then show "intent_hash H encode i = Some h" "h \<notin> mp_seen s"
    "bt_get (mp_queue t) (Reverse p, now_ms, h) = Some \<lparr>en_intent = i, en_submit_ms = now_ms\<rparr>"
    by (simp_all add: intent_hash_def bs enqueue_def bt.get_insert)
  have fresh: "k \<noteq> (Reverse p, now_ms, h)" if "bt_get (mp_queue s) k = Some e" for k e
  proof
    assume "k = (Reverse p, now_ms, h)"
    moreover have "key_hash k \<in> mp_seen s"
      using that assms(1) unfolding mempool_ok_def set_bt_keys by auto
    ultimately show False
      using t1(1,3) by simp
  qed
  show "\<forall>k e. bt_get (mp_queue s) k = Some e \<and> bt_get (mp_queue t) k \<noteq> Some e \<longrightarrow>
       mc_capacity cfg \<le> bt_len (mp_queue s) \<and> key_priority k < p \<and>
       (\<forall>k' e'. bt_get (mp_queue s) k' = Some e' \<longrightarrow> key_priority k \<le> key_priority k')"
  proof (rule make_room_cases [OF t1(2)])
    assume "t1 = s1"
    then show ?thesis
      using fresh same by (auto simp: t1(4) enqueue_def bt.get_insert)
  next
    fix k e
    assume k: "bt_get (mp_queue s1) k = Some e" "t1 = unqueue k s1" "mc_capacity cfg \<le> bt_len (mp_queue s1)"
      "key_priority k < p" "\<And>k' e'. bt_get (mp_queue s1) k' = Some e' \<Longrightarrow> key_priority k \<le> key_priority k'"
    have "k' = k" if "bt_get (mp_queue s) k' = Some e'" "bt_get (mp_queue t) k' \<noteq> Some e'" for k' e'
      using that fresh [OF that(1)] same by (simp add: t1(4) k(2) enqueue_def bt.get_insert bt.get_remove split: if_splits)
    with k same show ?thesis
      by metis
  qed
qed

section \<open>Properties\<close>

text \<open>C38. The invariant of the mempool.  Whatever is submitted, drained, expired or collected, the
  deduplication set is exactly the set of queued hashes, no intent is queued twice, every queued intent is
  filed under its own hash and submission time, and the queue never exceeds the configured capacity, or one
  entry when the capacity is zero.\<close>

theorem mempool_invariant:
  "mempool_ok H encode cfg (run_mempool H encode rnd cfg ops)"
  by (rule run_ok)

text \<open>C39. Priority order.  A block drains the \<open>n\<close> first entries of the queue, so the intents it takes
  never have a lower priority than an intent it leaves, and among equal priorities the older submission goes
  first.  An accepted submission is in the queue afterwards, and the only entry it can displace, and only
  at capacity, is one of the lowest priority held, strictly below its own.\<close>

theorem mempool_priority_order:
  assumes "s = run_mempool H encode rnd cfg ops"
  shows "(\<exists>es. bt_entries (mp_queue s) = es @ bt_entries (mp_queue (snd (drain_for_block n s))) \<and>
      fst (drain_for_block n s) = map (\<lambda>(k, e). en_intent e) es \<and> length es = min n (bt_len (mp_queue s)) \<and>
      (\<forall>(k, e) \<in> set es. \<forall>(k', e') \<in> set (bt_entries (mp_queue (snd (drain_for_block n s)))).
         key_priority k' < key_priority k \<or> key_priority k' = key_priority k \<and> en_submit_ms e \<le> en_submit_ms e')) \<and>
    (submit H encode rnd cfg i p peer now_ms s = (Inr h, t) \<longrightarrow>
      intent_hash H encode i = Some h \<and> h \<notin> mp_seen s \<and>
      bt_get (mp_queue t) (Reverse p, now_ms, h) = Some \<lparr>en_intent = i, en_submit_ms = now_ms\<rparr> \<and>
      (\<forall>k e. bt_get (mp_queue s) k = Some e \<and> bt_get (mp_queue t) k \<noteq> Some e \<longrightarrow>
         mc_capacity cfg \<le> bt_len (mp_queue s) \<and> key_priority k < p \<and>
         (\<forall>k' e'. bt_get (mp_queue s) k' = Some e' \<longrightarrow> key_priority k \<le> key_priority k')))"
proof -
  have ok: "mempool_ok H encode cfg s"
    unfolding assms by (rule run_ok)
  show ?thesis
    using submit_accepted [OF ok] by (intro conjI impI drain_order [OF ok])
qed

theorem mempool_priority_order_witness:
  "\<exists>t. submit of_be (\<lambda>_. Inr [7]) id mempool_config_default (Transfer 1 2 5) 10 (Some ''peer'') 3
         (run_mempool of_be (\<lambda>_. Inr [7]) id mempool_config_default []) = (Inr 7, t) \<and>
    bt_get (mp_queue t) (Reverse 10, 3, 7) = Some \<lparr>en_intent = Transfer 1 2 5, en_submit_ms = 3\<rparr>"
proof -
  let ?s = "run_mempool of_be (\<lambda>_. Inr [7]) id mempool_config_default []"
  obtain r t where sub: "submit of_be (\<lambda>_. Inr [7]) id mempool_config_default (Transfer 1 2 5) 10 (Some ''peer'') 3 ?s = (r, t)"
    by (rule prod.exhaust)
  then have r: "r = Inr 7"
    by (simp add: run_mempool_def mempool_new_def submit_def rate_limit_def take_one_def refill_def bucket_new_def make_room_def
        mempool_config_default_def of_be_def saturating_sub_def bt.get_empty Let_def)
  show ?thesis
    using mempool_priority_order [OF refl, THEN conjunct2, THEN mp, OF sub [unfolded r]] sub [unfolded r] by simp
qed

end
