(* ===== verification/Db_Substrate.thy ===== *)
theory Db_Substrate
  imports State_Commitment
begin

text \<open>
  The durable substrate adapter, \<open>suwappu-execution/src/suwappu_db_substrate.rs\<close>.  The store itself
  (\<open>suwappudb-state\<close> and \<open>suwappudb-bridge\<close>) is third-party: its reads, listings and its two mutating calls
  are the fields of the record \<open>suwappudb\<close>, and what the adapter relies on is \<open>suwappudb_ok\<close>.  The lemmas
  relate the adapter to the in-memory substrate: transfers and the state root refine it, every other intent
  is accepted without effect.
\<close>

datatype RejectReason = RejectInsufficientBalance | RejectAmountOverflow | RejectOther

record 'db suwappudb =
  db_new :: 'db
  db_balance_of :: "'db \<Rightarrow> address \<Rightarrow> Balance"
  db_bytes_of :: "'db \<Rightarrow> address \<Rightarrow> bytes option"
  db_entries :: "'db \<Rightarrow> (address \<times> Balance) list"
  db_bytes_entries :: "'db \<Rightarrow> (address \<times> bytes) list"
  db_submit_transfer :: "address \<Rightarrow> address \<Rightarrow> Balance \<Rightarrow> 'db \<Rightarrow> RejectReason + 'db"
  db_credit :: "address \<Rightarrow> Balance \<Rightarrow> 'db \<Rightarrow> RejectReason + 'db"

section \<open>The adapter\<close>

text \<open>\<open>from_balances\<close> panics when a credit overflows.\<close>

fun dbs_from_balances :: "('db, 'x) suwappudb_scheme \<Rightarrow> (address \<times> Balance) list \<Rightarrow> 'db \<Rightarrow> 'db option" where
  "dbs_from_balances D [] db = Some db"
| "dbs_from_balances D ((addr, bal) # es) db =
     (case db_credit D addr bal db of Inl _ \<Rightarrow> None | Inr db' \<Rightarrow> dbs_from_balances D es db')"

definition dbs_balance :: "('db, 'x) suwappudb_scheme \<Rightarrow> 'db \<Rightarrow> address \<Rightarrow> Balance" where
  "dbs_balance D db addr = db_balance_of D db addr"

definition dbs_read_bytes :: "('db, 'x) suwappudb_scheme \<Rightarrow> 'db \<Rightarrow> address \<Rightarrow> bytes option" where
  "dbs_read_bytes D db addr = db_bytes_of D db addr"

text \<open>The transfer arm; \<open>unreachable!\<close> is \<open>None\<close>.\<close>

definition dbs_transfer ::
  "hasher \<Rightarrow> ('db, 'x) suwappudb_scheme \<Rightarrow> address \<Rightarrow> address \<Rightarrow> Balance \<Rightarrow> 'db \<Rightarrow> (ExecutionError, 'db) outcome option" where
  "dbs_transfer H D frm to amount db =
     (if is_reserved H frm then Some (Err (ReservedAddressTransferDenied frm) db)
      else if is_reserved H to then Some (Err (ReservedAddressTransferDenied to) db)
      else case db_submit_transfer D frm to amount db of
        Inr db' \<Rightarrow> Some (Ok db')
      | Inl RejectInsufficientBalance \<Rightarrow> Some (Err (InsufficientBalance frm (db_balance_of D db frm) amount) db)
      | Inl RejectAmountOverflow \<Rightarrow> Some (Err (BalanceOverflow to) db)
      | Inl RejectOther \<Rightarrow> None)"

fun dbs_apply_intent ::
  "hasher \<Rightarrow> ('db, 'x) suwappudb_scheme \<Rightarrow> Intent \<Rightarrow> 'db \<Rightarrow> (ExecutionError, 'db) outcome option" where
  "dbs_apply_intent H D (Transfer frm to amount) db = dbs_transfer H D frm to amount db"
| "dbs_apply_intent H D (CommitL2StateRoot batch_id root proof_bytes public_inputs vk_hash) db =
     (case verify_l2_batch proof_bytes public_inputs vk_hash of
        Inl e \<Rightarrow> Some (Err (L2VerifierRejected e) db)
      | Inr _ \<Rightarrow> Some (Ok db))"
| "dbs_apply_intent H D intent db = Some (Ok db)"

definition dbs_state_root :: "hasher \<Rightarrow> ('db, 'x) suwappudb_scheme \<Rightarrow> 'db \<Rightarrow> hash32" where
  "dbs_state_root H D db =
     (let bals = sort_key fst (filter (\<lambda>(a, bal). bal \<noteq> 0) (db_entries D db));
          bytes_entries = sort_key fst (db_bytes_entries D db)
      in compute_state_root_v2 H bals bytes_entries)"

section \<open>What the adapter relies on\<close>

definition moved :: "(address \<Rightarrow> Balance) \<Rightarrow> address \<Rightarrow> address \<Rightarrow> Balance \<Rightarrow> address \<Rightarrow> Balance" where
  "moved bal frm to amount = (if frm = to then bal else bal(frm := bal frm - amount, to := bal to + amount))"

text \<open>Documented behaviour of the store: the listings hold each address once and agree with the reads, empty
  byte strings are absent, and a transfer checks the source balance, then the overflow of the destination,
  and otherwise moves the amount and touches nothing else.\<close>

definition suwappudb_ok :: "('db, 'x) suwappudb_scheme \<Rightarrow> bool" where
  "suwappudb_ok D \<longleftrightarrow>
     (\<forall>db. distinct (map fst (db_entries D db)) \<and> (\<forall>a. db_balance_of D db a = unwrap_or 0 (map_of (db_entries D db) a))) \<and>
     (\<forall>db. distinct (map fst (db_bytes_entries D db)) \<and> (\<forall>a. db_bytes_of D db a = map_of (db_bytes_entries D db) a) \<and>
        [] \<notin> snd ` set (db_bytes_entries D db)) \<and>
     (\<forall>db frm to amount. case db_submit_transfer D frm to amount db of
        Inl RejectInsufficientBalance \<Rightarrow> db_balance_of D db frm < amount
      | Inl RejectAmountOverflow \<Rightarrow> amount \<le> db_balance_of D db frm \<and> frm \<noteq> to \<and> checked_add (db_balance_of D db to) amount = None
      | Inl RejectOther \<Rightarrow> False
      | Inr db' \<Rightarrow> amount \<le> db_balance_of D db frm \<and> (frm = to \<or> checked_add (db_balance_of D db to) amount \<noteq> None) \<and>
          db_balance_of D db' = moved (db_balance_of D db) frm to amount \<and> db_bytes_of D db' = db_bytes_of D db)"

definition agrees :: "('db, 'x) suwappudb_scheme \<Rightarrow> 'db \<Rightarrow> InMemorySubstrate \<Rightarrow> bool" where
  "agrees D db s \<longleftrightarrow> (\<forall>a. dbs_balance D db a = balance s a) \<and> (\<forall>a. dbs_read_bytes D db a = read_bytes s a)"

section \<open>The state root\<close>

lemma sorted_entries_unique:
  assumes "distinct (map fst xs)" "\<And>k. map_of xs k = bt_get m k"
  shows "sort_key fst xs = bt_entries m"
proof (rule strict_keys_ext)
  have "distinct (map fst (sort_key fst xs))"
    using assms(1) by (metis distinct_map distinct_sort inj_on_def set_sort)
  then show "strict_keys (sort_key fst xs)"
    by (simp add: strict_keys_def strict_sorted_iff)
  show "map_of (sort_key fst xs) k = map_of (bt_entries m) k" for k
  proof -
    have "map_of (sort_key fst xs) = map_of xs"
      using assms(1) \<open>distinct (map fst (sort_key fst xs))\<close> by (intro map_of_inject_set [THEN iffD2]) simp_all
    then show ?thesis
      using assms(2) by (simp add: bt_get_def)
  qed
qed simp

lemma map_of_nonzero:
  assumes "distinct (map fst xs)"
  shows "map_of (filter (\<lambda>(a, b). b \<noteq> 0) xs) k = (case map_of xs k of None \<Rightarrow> None | Some b \<Rightarrow> if b = 0 then None else Some b)"
  using assms
  by (induction xs) (auto simp: map_of_eq_None_iff split: option.splits)

lemma dbs_state_root_eq:
  assumes "suwappudb_ok D" "agrees D db s" "canonical s"
  shows "dbs_state_root H D db = state_root H s"
proof -
  have bals: "distinct (map fst (db_entries D db))" "\<And>a. balance s a = unwrap_or 0 (map_of (db_entries D db) a)"
    using assms(1,2) by (simp_all add: suwappudb_ok_def agrees_def dbs_balance_def)
  have "map_of (filter (\<lambda>(a, bal). bal \<noteq> 0) (db_entries D db)) k = bt_get (balances s) k" for k
    using bals(2) [of k] unfolding map_of_nonzero [OF bals(1)] canonical_get(1) [OF assms(3)] by (simp split: option.split)
  moreover have "distinct (map fst (filter (\<lambda>(a, bal). bal \<noteq> 0) (db_entries D db)))"
    using bals(1) by (rule distinct_map_filter)
  ultimately have "sort_key fst (filter (\<lambda>(a, bal). bal \<noteq> 0) (db_entries D db)) = bt_entries (balances s)"
    by (intro sorted_entries_unique)
  moreover have "sort_key fst (db_bytes_entries D db) = bt_entries (bytes_state s)"
    using assms(1,2) by (intro sorted_entries_unique) (simp_all add: suwappudb_ok_def agrees_def dbs_read_bytes_def read_bytes_def)
  ultimately show ?thesis
    by (simp add: dbs_state_root_def state_root_def)
qed

section \<open>Transfers\<close>

fun dbs_run :: "hasher \<Rightarrow> ('db, 'x) suwappudb_scheme \<Rightarrow> Intent list \<Rightarrow> 'db \<Rightarrow> 'db option" where
  "dbs_run H D [] db = Some db"
| "dbs_run H D (i # is) db =
     (case dbs_apply_intent H D i db of None \<Rightarrow> None | Some r \<Rightarrow> dbs_run H D is (out_state r))"

fun is_transfer :: "Intent \<Rightarrow> bool" where
  "is_transfer (Transfer frm to amount) = True"
| "is_transfer i = False"

lemma transfer_moves:
  assumes "amount \<le> balance s frm" "frm = to \<or> checked_add (balance s to) amount \<noteq> None" "\<not> is_reserved H frm" "\<not> is_reserved H to"
  shows "\<exists>t. apply_transfer H frm to amount s = Ok t \<and> (\<forall>a. balance t a = moved (balance s) frm to amount a) \<and>
    (\<forall>a. read_bytes t a = read_bytes s a)"
proof (cases "amount = 0 \<or> frm = to")
  case True
  then show ?thesis
    using assms by (intro exI [of _ s]) (auto simp: apply_transfer_def moved_def not_less Let_def)
next
  case False
  then obtain n where n: "checked_add (balance s to) amount = Some n" "n = balance s to + amount"
    using assms(2) by (auto simp: checked_add_def split: if_splits)
  then show ?thesis
    using False assms(1,3,4)
    by (auto simp: apply_transfer_def not_less moved_def put_balance_def balance_def read_bytes_def bt.get_insert bt.get_remove Let_def)
qed

lemma transfer_refines:
  assumes "suwappudb_ok D" "agrees D db s"
  shows "\<exists>r. dbs_transfer H D frm to amount db = Some r \<and>
    (case apply_transfer H frm to amount s of
       Ok t \<Rightarrow> (\<exists>db'. r = Ok db' \<and> agrees D db' t)
     | Err e t \<Rightarrow> r = Err e db \<and> t = s)"
proof (cases "is_reserved H frm \<or> is_reserved H to")
  case True
  then show ?thesis
    by (auto simp: dbs_transfer_def apply_transfer_def)
next
  case False
  have bal: "db_balance_of D db = balance s"
    using assms(2) by (auto simp: agrees_def dbs_balance_def)
  have spec: "case db_submit_transfer D frm to amount db of
        Inl RejectInsufficientBalance \<Rightarrow> balance s frm < amount
      | Inl RejectAmountOverflow \<Rightarrow> amount \<le> balance s frm \<and> frm \<noteq> to \<and> checked_add (balance s to) amount = None
      | Inl RejectOther \<Rightarrow> False
      | Inr db' \<Rightarrow> amount \<le> balance s frm \<and> (frm = to \<or> checked_add (balance s to) amount \<noteq> None) \<and>
          db_balance_of D db' = moved (balance s) frm to amount \<and> db_bytes_of D db' = db_bytes_of D db"
    using assms(1) unfolding suwappudb_ok_def bal [symmetric] by blast
  show ?thesis
  proof (cases "db_submit_transfer D frm to amount db")
    case (Inr db')
    then obtain t where t: "apply_transfer H frm to amount s = Ok t" "\<forall>a. balance t a = moved (balance s) frm to amount a"
      "\<forall>a. read_bytes t a = read_bytes s a"
      using spec False transfer_moves [of amount s frm to H] by auto
    have "agrees D db' t"
      using spec t assms(2) Inr by (simp add: agrees_def dbs_balance_def dbs_read_bytes_def)
    with False Inr t(1) show ?thesis
      by (simp add: dbs_transfer_def)
  next
    case (Inl e)
    show ?thesis
    proof (cases e)
      case RejectInsufficientBalance
      with spec Inl have less: "balance s frm < amount"
        by simp
      then have "amount \<noteq> 0"
        by auto
      with less False Inl RejectInsufficientBalance show ?thesis
        by (simp add: dbs_transfer_def apply_transfer_def bal)
    next
      case RejectAmountOverflow
      with spec Inl have over: "amount \<le> balance s frm" "frm \<noteq> to" "checked_add (balance s to) amount = None"
        by simp_all
      then have "amount \<noteq> 0"
        using unsigned_less [of "balance s to", where ?'a = nat] by (auto simp: checked_add_None_iff)
      with over False Inl RejectAmountOverflow show ?thesis
        by (simp add: dbs_transfer_def apply_transfer_def not_less Let_def)
    qed (use spec Inl in simp)
  qed
qed

lemma dbs_run_refines:
  assumes "suwappudb_ok D" "agrees D db s" "list_all is_transfer is"
  shows "\<exists>db'. dbs_run H D is db = Some db' \<and> agrees D db' (run_intents H is s)"
  using assms(2,3)
proof (induction "is" arbitrary: db s)
  case (Cons i "is")
  then obtain frm to amount where i: "i = Transfer frm to amount"
    by (cases i) auto
  obtain r where r: "dbs_transfer H D frm to amount db = Some r"
    "case apply_transfer H frm to amount s of Ok t \<Rightarrow> (\<exists>db'. r = Ok db' \<and> agrees D db' t) | Err e t \<Rightarrow> r = Err e db \<and> t = s"
    using transfer_refines [OF assms(1) Cons.prems(1)] by blast
  then have "agrees D (out_state r) (out_state (apply_transfer H frm to amount s))"
    using Cons.prems(1) by (auto split: outcome.splits)
  with Cons.IH Cons.prems(2) r(1) show ?case
    by (simp add: i)
qed simp

lemma dbs_stub:
  assumes "\<not> is_transfer i"
  shows "\<exists>r. dbs_apply_intent H D i db = Some r \<and> out_state r = db"
  using assms by (cases i) (simp_all split: sum.split)

section \<open>Property\<close>

text \<open>C40. The durable substrate refines the in-memory one on transfers.  Over a store with its documented
  behaviour, from a store that reads like an in-memory substrate, every sequence of transfers runs without a
  panic and ends in a store that reads like the in-memory result, and whenever the two read alike their state
  roots are the same.  A single transfer succeeds or fails alike, with the same error.  Every other intent
  leaves the store untouched, whatever the in-memory substrate does with it.\<close>

theorem db_substrate_refines_transfers:
  assumes "suwappudb_ok D" "agrees D db s" "canonical s" "list_all is_transfer is" "\<not> is_transfer i"
  shows "(\<exists>db'. dbs_run H D is db = Some db' \<and> agrees D db' (run_intents H is s) \<and>
      dbs_state_root H D db' = state_root H (run_intents H is s)) \<and>
    (\<exists>r. dbs_apply_intent H D (Transfer frm to amount) db = Some r \<and>
      (case apply_intent H (Transfer frm to amount) s of
         Ok t \<Rightarrow> (\<exists>db'. r = Ok db' \<and> agrees D db' t)
       | Err e t \<Rightarrow> r = Err e db \<and> t = s)) \<and>
    (\<exists>r. dbs_apply_intent H D i db = Some r \<and> out_state r = db)"
proof (intro conjI)
  obtain db' where db': "dbs_run H D is db = Some db'" "agrees D db' (run_intents H is s)"
    using dbs_run_refines [OF assms(1,2,4)] by blast
  moreover have "dbs_state_root H D db' = state_root H (run_intents H is s)"
    by (rule dbs_state_root_eq [OF assms(1) db'(2) canonical_state.trace_keeps [OF assms(3)]])
  ultimately show "\<exists>db'. dbs_run H D is db = Some db' \<and> agrees D db' (run_intents H is s) \<and>
      dbs_state_root H D db' = state_root H (run_intents H is s)"
    by blast
qed (use transfer_refines [OF assms(1,2)] dbs_stub [OF assms(5)] in simp_all)

definition demo_db :: "InMemorySubstrate suwappudb" where
  "demo_db =
     \<lparr>db_new = substrate_new, db_balance_of = balance,
      db_bytes_of = (\<lambda>db. map_of (filter (\<lambda>(a, d). d \<noteq> []) (bt_entries (bytes_state db)))),
      db_entries = (\<lambda>db. bt_entries (balances db)), db_bytes_entries = (\<lambda>db. filter (\<lambda>(a, d). d \<noteq> []) (bt_entries (bytes_state db))),
      db_submit_transfer = (\<lambda>frm to amount db.
        if balance db frm < amount then Inl RejectInsufficientBalance
        else if frm = to then Inr db
        else case checked_add (balance db to) amount of
               None \<Rightarrow> Inl RejectAmountOverflow
             | Some n \<Rightarrow> Inr (db\<lparr>balances := bt_insert to n (bt_insert frm (balance db frm - amount) (balances db))\<rparr>)),
      db_credit = (\<lambda>addr amount db. case credit_unchecked addr amount db of Ok t \<Rightarrow> Inr t | Err e t \<Rightarrow> Inl RejectAmountOverflow)\<rparr>"

lemma demo_db_ok: "suwappudb_ok demo_db"
proof -
  have "(case db_submit_transfer demo_db frm to amount db of
        Inl RejectInsufficientBalance \<Rightarrow> db_balance_of demo_db db frm < amount
      | Inl RejectAmountOverflow \<Rightarrow> amount \<le> db_balance_of demo_db db frm \<and> frm \<noteq> to \<and> checked_add (db_balance_of demo_db db to) amount = None
      | Inl RejectOther \<Rightarrow> False
      | Inr db' \<Rightarrow> amount \<le> db_balance_of demo_db db frm \<and> (frm = to \<or> checked_add (db_balance_of demo_db db to) amount \<noteq> None) \<and>
          db_balance_of demo_db db' = moved (db_balance_of demo_db db) frm to amount \<and> db_bytes_of demo_db db' = db_bytes_of demo_db db)"
    for db frm to amount
    by (auto simp: demo_db_def moved_def fun_eq_iff balance_def bt.get_insert checked_add_def)
  moreover have "distinct (map fst (filter (\<lambda>(a, d). d \<noteq> []) (bt_entries (bytes_state db))))" for db
    by (rule distinct_map_filter [OF bt.keys_distinct])
  ultimately show ?thesis
    unfolding suwappudb_ok_def by (auto simp: demo_db_def bt.keys_distinct balance_def bt_get_def)
qed

theorem db_substrate_refines_transfers_witness:
  "\<exists>db'. dbs_run demo_blake demo_db [Transfer 1 2 5] substrate_new = Some db' \<and>
    dbs_state_root demo_blake demo_db db' = state_root demo_blake (run_intents demo_blake [Transfer 1 2 5] substrate_new)"
proof -
  have "agrees demo_db substrate_new substrate_new"
    by (simp add: agrees_def dbs_balance_def dbs_read_bytes_def demo_db_def substrate_new_def read_bytes_def bt.get_empty bt.entries_empty)
  from db_substrate_refines_transfers [OF demo_db_ok this canonical_new, of "[Transfer 1 2 5]" "ExitAuthority 1" demo_blake 1 2 5,
      THEN conjunct1]
  show ?thesis
    by auto
qed

end
