(* ===== verification/Issuer_Registry.thy ===== *)
theory Issuer_Registry
  imports Ordered_Map "HOL-Library.Product_Lexorder"
begin

text \<open>
  The registered-issuer precompile, \<open>suwappu-precompiles/src/issuer.rs\<close>: issuers with a delegation cap, the
  supply book of every asset, and the two-phase burn.  The \<open>expect\<close> of the two completing calls is a panic,
  \<open>None\<close>.  The burn counter and the deadline are added without a check and wrap.  The lemmas show that
  the book balances whatever calls are made: caps hold, reservations match the pending burns, and a burn
  is completed once.
\<close>

type_synonym IssuerId = u32
type_synonym AssetId = hash32
type_synonym BurnId = u64
type_synonym PaymentReceiptAttestation = hash32

definition DEFAULT_BURN_SLA_ROUNDS :: u64 where
  "DEFAULT_BURN_SLA_ROUNDS = 1000"

record Issuer =
  is_id :: IssuerId
  is_principal_did :: hash32
  is_delegation_cap :: u128
  is_reserve_schema_version :: u32
  is_policy_vocabulary_version :: u32

record PendingBurn =
  pb_burn_id :: BurnId
  pb_asset :: AssetId
  pb_issuer :: IssuerId
  pb_amount :: u128
  pb_initiated_at :: u64
  pb_sla_deadline :: u64

record AssetSupply =
  sup_total_minted :: u128
  sup_total_burned :: u128
  sup_reserved_for_burn :: u128

definition supply_default :: AssetSupply where
  "supply_default = \<lparr>sup_total_minted = 0, sup_total_burned = 0, sup_reserved_for_burn = 0\<rparr>"

definition circulating :: "AssetSupply \<Rightarrow> u128" where
  "circulating s = saturating_sub (saturating_sub (sup_total_minted s) (sup_total_burned s)) (sup_reserved_for_burn s)"

definition outstanding :: "AssetSupply \<Rightarrow> u128" where
  "outstanding s = saturating_sub (sup_total_minted s) (sup_total_burned s)"

record IssuerRegistry =
  ir_issuers :: "(IssuerId, Issuer) btmap"
  ir_supply :: "(AssetId \<times> IssuerId, AssetSupply) btmap"
  ir_pending :: "(BurnId, PendingBurn) btmap"
  ir_next_burn_id :: BurnId
  ir_sla_window_rounds :: u64

datatype IssuerError =
    IssuerAlreadyRegistered IssuerId
  | IssuerNotRegistered IssuerId
  | DelegationCapExceeded IssuerId u128 u128
  | InsufficientCirculating
  | UnknownBurn BurnId
  | SlaNotExpired BurnId u64 u64
  | IssuerOverflow

type_synonym issuer_result = "(IssuerError, IssuerRegistry) outcome"

definition issuer_with_sla :: "u64 \<Rightarrow> IssuerRegistry" where
  "issuer_with_sla sla_window_rounds =
     \<lparr>ir_issuers = bt_empty, ir_supply = bt_empty, ir_pending = bt_empty, ir_next_burn_id = 0,
      ir_sla_window_rounds = sla_window_rounds\<rparr>"

definition issuer_registry_new :: IssuerRegistry where
  "issuer_registry_new = issuer_with_sla DEFAULT_BURN_SLA_ROUNDS"

definition issuer_register :: "Issuer \<Rightarrow> IssuerRegistry \<Rightarrow> issuer_result" where
  "issuer_register issuer r =
     (if bt_contains (ir_issuers r) (is_id issuer) then Err (IssuerAlreadyRegistered (is_id issuer)) r
      else Ok (r\<lparr>ir_issuers := bt_insert (is_id issuer) issuer (ir_issuers r)\<rparr>))"

definition issuer_get :: "IssuerRegistry \<Rightarrow> IssuerId \<Rightarrow> Issuer option" where
  "issuer_get r i = bt_get (ir_issuers r) i"

definition supply_of :: "IssuerRegistry \<Rightarrow> AssetId \<Rightarrow> IssuerId \<Rightarrow> AssetSupply" where
  "supply_of r asset issuer = unwrap_or supply_default (bt_get (ir_supply r) (asset, issuer))"

text \<open>The loop of \<open>mint\<close> over the supply book.\<close>

fun total_outstanding :: "IssuerId \<Rightarrow> u128 \<Rightarrow> ((AssetId \<times> IssuerId) \<times> AssetSupply) list \<Rightarrow> IssuerError + u128" where
  "total_outstanding issuer acc [] = Inr acc"
| "total_outstanding issuer acc (((a, i), s) # es) =
     (if i = issuer
      then res_bind (ok_or IssuerOverflow (checked_add acc (outstanding s))) (\<lambda>acc. total_outstanding issuer acc es)
      else total_outstanding issuer acc es)"

definition issuer_mint :: "IssuerId \<Rightarrow> AssetId \<Rightarrow> u128 \<Rightarrow> IssuerRegistry \<Rightarrow> issuer_result" where
  "issuer_mint issuer asset amount r =
     try_value (ok_or (IssuerNotRegistered issuer) (bt_get (ir_issuers r) issuer)) r (\<lambda>issuer_record.
       let cap = is_delegation_cap issuer_record in
       try_value (total_outstanding issuer 0 (bt_entries (ir_supply r))) r (\<lambda>tot.
       try_value (ok_or IssuerOverflow (checked_add tot amount)) r (\<lambda>outstanding_after.
       if cap < outstanding_after then Err (DelegationCapExceeded issuer outstanding_after cap) r
       else let entry = supply_of r asset issuer;
                r' = r\<lparr>ir_supply := bt_insert (asset, issuer) entry (ir_supply r)\<rparr> in
            try_value (ok_or IssuerOverflow (checked_add (sup_total_minted entry) amount)) r' (\<lambda>minted.
              Ok (r'\<lparr>ir_supply := bt_insert (asset, issuer) (entry\<lparr>sup_total_minted := minted\<rparr>) (ir_supply r')\<rparr>)))))"

definition initiate_burn ::
  "IssuerId \<Rightarrow> AssetId \<Rightarrow> u128 \<Rightarrow> u64 \<Rightarrow> IssuerRegistry \<Rightarrow> (IssuerError + BurnId) \<times> IssuerRegistry" where
  "initiate_burn issuer asset amount now_round r =
     (if \<not> bt_contains (ir_issuers r) issuer then (Inl (IssuerNotRegistered issuer), r)
      else let entry = supply_of r asset issuer;
               r' = r\<lparr>ir_supply := bt_insert (asset, issuer) entry (ir_supply r)\<rparr> in
        if circulating entry < amount then (Inl InsufficientCirculating, r')
        else case checked_add (sup_reserved_for_burn entry) amount of
               None \<Rightarrow> (Inl IssuerOverflow, r')
             | Some reserved \<Rightarrow>
                 (let burn_id = ir_next_burn_id r in
                  (Inr burn_id,
                   r'\<lparr>ir_supply := bt_insert (asset, issuer) (entry\<lparr>sup_reserved_for_burn := reserved\<rparr>) (ir_supply r'),
                      ir_next_burn_id := burn_id + 1,
                      ir_pending := bt_insert burn_id
                        \<lparr>pb_burn_id = burn_id, pb_asset = asset, pb_issuer = issuer, pb_amount = amount,
                         pb_initiated_at = now_round, pb_sla_deadline = now_round + ir_sla_window_rounds r\<rparr> (ir_pending r)\<rparr>)))"

text \<open>The attestation of \<open>finalize_burn\<close> is not read.\<close>

definition finalize_burn :: "BurnId \<Rightarrow> PaymentReceiptAttestation \<Rightarrow> IssuerRegistry \<Rightarrow> issuer_result option" where
  "finalize_burn burn_id attestation r =
     (case bt_get (ir_pending r) burn_id of
        None \<Rightarrow> Some (Err (UnknownBurn burn_id) r)
      | Some p \<Rightarrow>
          (let r' = r\<lparr>ir_pending := bt_remove burn_id (ir_pending r)\<rparr>; key = (pb_asset p, pb_issuer p) in
           case bt_get (ir_supply r') key of
             None \<Rightarrow> None
           | Some entry \<Rightarrow>
               Some (try_value (ok_or IssuerOverflow (checked_sub (sup_reserved_for_burn entry) (pb_amount p))) r' (\<lambda>reserved.
                 let entry' = entry\<lparr>sup_reserved_for_burn := reserved\<rparr>;
                     r'' = r'\<lparr>ir_supply := bt_insert key entry' (ir_supply r')\<rparr> in
                 try_value (ok_or IssuerOverflow (checked_add (sup_total_burned entry') (pb_amount p))) r'' (\<lambda>burned.
                   Ok (r''\<lparr>ir_supply := bt_insert key (entry'\<lparr>sup_total_burned := burned\<rparr>) (ir_supply r'')\<rparr>))))))"

definition reverse_burn :: "BurnId \<Rightarrow> u64 \<Rightarrow> IssuerRegistry \<Rightarrow> issuer_result option" where
  "reverse_burn burn_id now_round r =
     (case bt_get (ir_pending r) burn_id of
        None \<Rightarrow> Some (Err (UnknownBurn burn_id) r)
      | Some p \<Rightarrow>
          (if now_round \<le> pb_sla_deadline p then Some (Err (SlaNotExpired burn_id now_round (pb_sla_deadline p)) r)
           else let key = (pb_asset p, pb_issuer p) in
             case bt_get (ir_supply r) key of
               None \<Rightarrow> None
             | Some entry \<Rightarrow>
                 Some (try_value (ok_or IssuerOverflow (checked_sub (sup_reserved_for_burn entry) (pb_amount p))) r (\<lambda>reserved.
                   Ok (r\<lparr>ir_supply := bt_insert key (entry\<lparr>sup_reserved_for_burn := reserved\<rparr>) (ir_supply r),
                         ir_pending := bt_remove burn_id (ir_pending r)\<rparr>)))))"

definition pending_burn_count :: "IssuerRegistry \<Rightarrow> nat" where
  "pending_burn_count r = bt_len (ir_pending r)"

section \<open>Sums over a book\<close>

definition bt_ksum :: "('k \<Rightarrow> 'v \<Rightarrow> nat) \<Rightarrow> ('k::linorder, 'v) btmap \<Rightarrow> nat" where
  "bt_ksum f m = sum_list (map (\<lambda>(k, v). f k v) (bt_entries m))"

lemma ksum_upd_entries:
  "strict_keys xs \<Longrightarrow>
    sum_list (map (\<lambda>(k, v). f k v) (upd_entries k v xs)) + (case map_of xs k of None \<Rightarrow> 0 | Some w \<Rightarrow> f k w)
      = sum_list (map (\<lambda>(k, v). f k v) xs) + (f k v :: nat)"
proof (induction xs)
  case (Cons x xs)
  obtain k' v' where x: "x = (k', v')" by fastforce
  from Cons.prems x have rest: "strict_keys xs" and head: "\<forall>j\<in>fst ` set xs. k' < j"
    by (auto simp: strict_keys_def)
  have "map_of xs k = None" if "k < k'"
    using head that by (auto simp: map_of_eq_None_iff dest: order.strict_trans)
  with Cons.IH [OF rest] x show ?case
    by auto
qed simp

lemma bt_ksum_insert:
  "bt_ksum f (bt_insert k v m) + (case bt_get m k of None \<Rightarrow> 0 | Some w \<Rightarrow> f k w) = bt_ksum f m + f k v"
  using ksum_upd_entries [OF bt_entries_strict, of f k v m] by (simp add: bt_ksum_def bt_get_def bt_insert.rep_eq)

lemma bt_ksum_empty [simp]: "bt_ksum f bt_empty = 0"
  by (simp add: bt_ksum_def bt.entries_empty)

lemma bt_ksum_ge: "bt_get m k = Some v \<Longrightarrow> f k v \<le> bt_ksum f m"
  unfolding bt_ksum_def by (rule member_le_sum_list) (auto simp: image_iff bt.entries_get intro!: bexI [of _ "(k, v)"])


lemma bt_ksum_remove: "bt_ksum f (bt_remove k m) + (case bt_get m k of None \<Rightarrow> 0 | Some w \<Rightarrow> f k w) = bt_ksum f m"
proof (cases "bt_get m k")
  case None
  then have "bt_remove k m = m"
    by (intro bt.map_ext) auto
  with None show ?thesis
    by simp
next
  case (Some w)
  then have "bt_insert k w (bt_remove k m) = m"
    by (intro bt.map_ext) auto
  with bt_ksum_insert [of f k w "bt_remove k m"] Some show ?thesis
    by simp
qed

section \<open>The invariant of the book\<close>

text \<open>What a pending burn reserves of the supply \<open>k\<close>, and what a supply entry adds to the debt of an issuer.\<close>

definition burn_weight :: "AssetId \<times> IssuerId \<Rightarrow> BurnId \<Rightarrow> PendingBurn \<Rightarrow> nat" where
  "burn_weight k i p = (if (pb_asset p, pb_issuer p) = k then unat (pb_amount p) else 0)"

definition owed :: "IssuerId \<Rightarrow> AssetId \<times> IssuerId \<Rightarrow> AssetSupply \<Rightarrow> nat" where
  "owed i k s = (if snd k = i then unat (outstanding s) else 0)"

definition cap_of :: "IssuerRegistry \<Rightarrow> IssuerId \<Rightarrow> nat" where
  "cap_of r i = (case bt_get (ir_issuers r) i of None \<Rightarrow> 0 | Some x \<Rightarrow> unat (is_delegation_cap x))"

definition supply_balanced :: "AssetSupply \<Rightarrow> bool" where
  "supply_balanced s \<longleftrightarrow> unat (sup_total_burned s) + unat (sup_reserved_for_burn s) \<le> unat (sup_total_minted s)"

definition issuer_ok :: "nat \<Rightarrow> IssuerRegistry \<Rightarrow> bool" where
  "issuer_ok n r \<longleftrightarrow>
     (\<forall>a i. supply_balanced (supply_of r a i) \<and>
        unat (sup_reserved_for_burn (supply_of r a i)) = bt_ksum (burn_weight (a, i)) (ir_pending r)) \<and>
     (\<forall>b p. bt_get (ir_pending r) b = Some p \<longrightarrow>
        pb_burn_id p = b \<and> b < ir_next_burn_id r \<and> bt_contains (ir_supply r) (pb_asset p, pb_issuer p)) \<and>
     (\<forall>i. bt_ksum (owed i) (ir_supply r) \<le> cap_of r i) \<and> unat (ir_next_burn_id r) \<le> n"

datatype issuer_op =
    RegisterIssuer Issuer
  | MintAsset IssuerId AssetId u128
  | InitiateBurn IssuerId AssetId u128 u64
  | FinalizeBurn BurnId PaymentReceiptAttestation
  | ReverseBurn BurnId u64

fun issuer_step :: "issuer_op \<Rightarrow> IssuerRegistry \<Rightarrow> IssuerRegistry option" where
  "issuer_step (RegisterIssuer x) r = Some (out_state (issuer_register x r))"
| "issuer_step (MintAsset i a amt) r = Some (out_state (issuer_mint i a amt r))"
| "issuer_step (InitiateBurn i a amt now) r = Some (snd (initiate_burn i a amt now r))"
| "issuer_step (FinalizeBurn b att) r = map_option out_state (finalize_burn b att r)"
| "issuer_step (ReverseBurn b now) r = map_option out_state (reverse_burn b now r)"

fun run_issuer :: "issuer_op list \<Rightarrow> IssuerRegistry \<Rightarrow> IssuerRegistry option" where
  "run_issuer [] r = Some r"
| "run_issuer (op # ops) r = Option.bind (issuer_step op r) (run_issuer ops)"

subsection \<open>Updates of one supply\<close>

definition put_supply :: "AssetId \<times> IssuerId \<Rightarrow> AssetSupply \<Rightarrow> IssuerRegistry \<Rightarrow> IssuerRegistry" where
  "put_supply k s r = r\<lparr>ir_supply := bt_insert k s (ir_supply r)\<rparr>"

lemma put_supply_simps [simp]:
  "ir_issuers (put_supply k s r) = ir_issuers r" "ir_pending (put_supply k s r) = ir_pending r"
  "ir_next_burn_id (put_supply k s r) = ir_next_burn_id r" "ir_supply (put_supply k s r) = bt_insert k s (ir_supply r)"
  "cap_of (put_supply k s r) i = cap_of r i"
  "supply_of (put_supply k s r) a i = (if (a, i) = k then s else supply_of r a i)"
  by (auto simp: put_supply_def cap_of_def supply_of_def)

lemma supply_of_cong: "ir_supply r' = ir_supply r \<Longrightarrow> supply_of r' = supply_of r"
  by (intro ext) (simp add: supply_of_def)

lemma supply_default_simps [simp]:
  "owed i k supply_default = 0" "sup_total_minted supply_default = 0" "sup_total_burned supply_default = 0"
  "sup_reserved_for_burn supply_default = 0"
  by (simp_all add: owed_def outstanding_def supply_default_def saturating_sub_def)

lemma unat_outstanding: "supply_balanced s \<Longrightarrow> unat (outstanding s) = unat (sup_total_minted s) - unat (sup_total_burned s)"
  by (simp add: outstanding_def unat_saturating_sub)

lemma unat_circulating:
  "unat (circulating s) = unat (sup_total_minted s) - unat (sup_total_burned s) - unat (sup_reserved_for_burn s)"
  by (simp add: circulating_def unat_saturating_sub)

lemma owed_insert:
  "bt_ksum (owed j) (bt_insert (a, i) s (ir_supply r)) + owed j (a, i) (supply_of r a i) = bt_ksum (owed j) (ir_supply r) + owed j (a, i) s"
  using bt_ksum_insert [of "owed j" "(a, i)" s "ir_supply r"]
  by (cases "bt_get (ir_supply r) (a, i)") (simp_all add: supply_of_def)

text \<open>Rewriting a supply with what it was.\<close>

lemma put_supply_same:
  assumes "issuer_ok n r"
  shows "issuer_ok n (put_supply (a, i) (supply_of r a i) r)"
  using assms owed_insert [of _ a i "supply_of r a i" r] unfolding issuer_ok_def
  by (auto simp: bt_contains_get)

lemma total_outstanding_sum:
  "total_outstanding i acc es = Inr tot \<Longrightarrow> unat tot = unat acc + sum_list (map (\<lambda>(k, s). owed i k s) es)"
proof (induction i acc es rule: total_outstanding.induct)
  case (2 i acc a j s es)
  then show ?case
    by (cases "checked_add acc (outstanding s)") (auto simp: owed_def dest: checked_add_SomeD)
qed simp

lemma try_value_state:
  "out_state (try_value (ok_or e x) s f) = (case x of None \<Rightarrow> s | Some a \<Rightarrow> out_state (f a))"
  "out_state (try_value y s f) = (case y of Inl e \<Rightarrow> s | Inr a \<Rightarrow> out_state (f a))"
  by (cases x; simp) (cases y; simp)

lemma issuer_mint_ok:
  assumes ok: "issuer_ok n r"
  shows "issuer_ok n (out_state (issuer_mint i a amt r))"
proof -
  let ?e = "supply_of r a i"
  have same: "issuer_ok n (r\<lparr>ir_supply := bt_insert (a, i) ?e (ir_supply r)\<rparr>)"
    using put_supply_same [OF ok] by (simp add: put_supply_def)
  have "issuer_ok n (put_supply (a, i) (?e\<lparr>sup_total_minted := m\<rparr>) r)"
    if "bt_get (ir_issuers r) i = Some x" "total_outstanding i 0 (bt_entries (ir_supply r)) = Inr tot"
      "checked_add tot amt = Some oa" "\<not> is_delegation_cap x < oa" "checked_add (sup_total_minted ?e) amt = Some m" for x tot oa m
  proof -
    let ?s = "?e\<lparr>sup_total_minted := m\<rparr>"
    have m: "unat m = unat (sup_total_minted ?e) + unat amt"
      using checked_add_SomeD [OF that(5)] .
    have bal: "supply_balanced ?e"
      using ok by (simp add: issuer_ok_def)
    then have bal': "supply_balanced ?s"
      using m by (simp add: supply_balanced_def)
    have out: "unat (outstanding ?s) = unat (outstanding ?e) + unat amt"
      using unat_outstanding [OF bal] unat_outstanding [OF bal'] bal m by (simp add: supply_balanced_def)
    have "bt_ksum (owed j) (bt_insert (a, i) ?s (ir_supply r)) \<le> cap_of r j" for j
    proof (cases "j = i")
      case True
      have "unat tot = bt_ksum (owed i) (ir_supply r)"
        using total_outstanding_sum [OF that(2)] by (simp add: bt_ksum_def)
      moreover have "unat oa = unat tot + unat amt" "unat oa \<le> cap_of r i"
        using checked_add_SomeD [OF that(3)] that(1,4) by (simp_all add: cap_of_def word_le_nat_alt not_less)
      moreover have "owed i (a, i) ?s = owed i (a, i) ?e + unat amt"
        using out by (simp add: owed_def)
      ultimately show ?thesis
        using owed_insert [of i a i ?s r] True by simp
    next
      case False
      then show ?thesis
        using owed_insert [of j a i ?s r] ok by (simp add: owed_def issuer_ok_def)
    qed
    with bal' ok show ?thesis
      unfolding issuer_ok_def by (auto simp: bt_contains_get)
  qed
  with ok same show ?thesis
    by (auto simp: issuer_mint_def Let_def put_supply_def try_value_state outcome_simps bt.insert_insert split: sum.split)
qed

lemma issuer_register_ok:
  assumes "issuer_ok n r"
  shows "issuer_ok n (out_state (issuer_register x r))"
proof (cases "bt_contains (ir_issuers r) (is_id x)")
  case False
  have "bt_ksum (owed i) (ir_supply r) \<le> cap_of (r\<lparr>ir_issuers := bt_insert (is_id x) x (ir_issuers r)\<rparr>) i" for i
  proof -
    have "bt_ksum (owed i) (ir_supply r) \<le> cap_of r i"
      using assms by (simp add: issuer_ok_def)
    moreover have "cap_of r (is_id x) = 0"
      using False by (simp add: cap_of_def bt_contains_get)
    ultimately show ?thesis
      by (cases "i = is_id x") (simp_all add: cap_of_def)
  qed
  with assms False show ?thesis
    by (simp add: issuer_register_def issuer_ok_def supply_of_def)
qed (use assms in \<open>simp add: issuer_register_def\<close>)

text \<open>Moving an amount between the columns of one supply, with the pending burns adjusted by \<open>f\<close>.\<close>

lemma move_supply_ok:
  assumes ok: "issuer_ok n r" and "supply_balanced s"
    and "unat (outstanding s) \<le> unat (outstanding (supply_of r a i))"
    and "\<And>k. bt_ksum (burn_weight k) pend =
           (if k = (a, i) then unat (sup_reserved_for_burn s) else bt_ksum (burn_weight k) (ir_pending r))"
    and "\<And>b p. bt_get pend b = Some p \<Longrightarrow>
           pb_burn_id p = b \<and> b < next \<and> ((pb_asset p, pb_issuer p) = (a, i) \<or> bt_contains (ir_supply r) (pb_asset p, pb_issuer p))"
    and "unat next \<le> m"
  shows "issuer_ok m (put_supply (a, i) s r\<lparr>ir_next_burn_id := next, ir_pending := pend\<rparr>)" (is "issuer_ok m ?r")
proof -
  have sup: "supply_of ?r = supply_of (put_supply (a, i) s r)"
    by (rule supply_of_cong) simp
  have cap: "cap_of ?r j = cap_of r j" for j
    by (simp add: cap_of_def)
  have "bt_ksum (owed j) (bt_insert (a, i) s (ir_supply r)) \<le> cap_of r j" for j
  proof -
    have "owed j (a, i) s \<le> owed j (a, i) (supply_of r a i)" "bt_ksum (owed j) (ir_supply r) \<le> cap_of r j"
      using assms(3) ok by (auto simp: owed_def issuer_ok_def)
    with owed_insert [of j a i s r] show ?thesis
      by simp
  qed
  moreover have "bt_contains (bt_insert (a, i) s (ir_supply r)) (pb_asset p, pb_issuer p)" if "bt_get pend b = Some p" for b p
    using assms(5) [OF that] by (auto simp: bt_contains_get)
  ultimately show ?thesis
    using assms unfolding issuer_ok_def sup cap by auto
qed

lemma initiate_burn_ok:
  assumes ok: "issuer_ok n r" and n: "Suc n < 2 ^ 64"
  shows "issuer_ok (Suc n) (snd (initiate_burn i a amt now r))"
proof -
  let ?e = "supply_of r a i" and ?b = "ir_next_burn_id r"
  have mono: "issuer_ok n t \<Longrightarrow> issuer_ok (Suc n) t" for t
    by (simp add: issuer_ok_def)
  have same: "issuer_ok (Suc n) (r\<lparr>ir_supply := bt_insert (a, i) ?e (ir_supply r)\<rparr>)"
    using mono [OF put_supply_same [OF ok, of a i]] by (simp add: put_supply_def)
  let ?p = "\<lparr>pb_burn_id = ?b, pb_asset = a, pb_issuer = i, pb_amount = amt, pb_initiated_at = now,
    pb_sla_deadline = now + ir_sla_window_rounds r\<rparr>"
  have "issuer_ok (Suc n) (put_supply (a, i) (?e\<lparr>sup_reserved_for_burn := x\<rparr>) r
      \<lparr>ir_next_burn_id := ?b + 1, ir_pending := bt_insert ?b ?p (ir_pending r)\<rparr>)"
    if circ: "\<not> circulating ?e < amt" and "checked_add (sup_reserved_for_burn ?e) amt = Some x" for x
  proof (rule move_supply_ok [OF ok])
    have x: "unat x = unat (sup_reserved_for_burn ?e) + unat amt"
      using checked_add_SomeD [OF that(2)] .
    have bal: "supply_balanced ?e"
      and res: "unat (sup_reserved_for_burn ?e) = bt_ksum (burn_weight (a, i)) (ir_pending r)"
      using ok by (simp_all add: issuer_ok_def)
    show "supply_balanced (?e\<lparr>sup_reserved_for_burn := x\<rparr>)"
      using bal circ x by (auto simp: supply_balanced_def not_less word_le_nat_alt unat_circulating)
    have fresh: "bt_get (ir_pending r) ?b = None"
      using ok by (cases "bt_get (ir_pending r) ?b") (auto simp: issuer_ok_def)
    show "bt_ksum (burn_weight k) (bt_insert ?b ?p (ir_pending r)) =
        (if k = (a, i) then unat (sup_reserved_for_burn (?e\<lparr>sup_reserved_for_burn := x\<rparr>))
         else bt_ksum (burn_weight k) (ir_pending r))" for k
      using bt_ksum_insert [of "burn_weight k" ?b ?p "ir_pending r"] fresh res x by (auto simp: burn_weight_def)
    have "unat ?b \<le> n"
      using ok by (simp add: issuer_ok_def)
    then have b: "unat (?b + 1) = Suc (unat ?b)"
      using n by (simp add: unat_word_ariths)
    with \<open>unat ?b \<le> n\<close> show "unat (?b + 1) \<le> Suc n"
      by simp
    show "pb_burn_id q = c \<and> c < ?b + 1 \<and> ((pb_asset q, pb_issuer q) = (a, i) \<or> bt_contains (ir_supply r) (pb_asset q, pb_issuer q))"
      if "bt_get (bt_insert ?b ?p (ir_pending r)) c = Some q" for c q
      using that ok b by (auto simp: issuer_ok_def word_less_nat_alt split: if_splits intro: less_SucI)
  qed (simp add: outstanding_def)
  with same mono [OF ok] show ?thesis
    by (auto simp: initiate_burn_def Let_def put_supply_def bt.insert_insert split: option.split)
qed

subsection \<open>Completing a burn\<close>

lemma pending_reserved:
  assumes "issuer_ok n r" "bt_get (ir_pending r) b = Some p"
  shows "bt_get (ir_supply r) (pb_asset p, pb_issuer p) = Some (supply_of r (pb_asset p) (pb_issuer p))"
    and "unat (pb_amount p) \<le> unat (sup_reserved_for_burn (supply_of r (pb_asset p) (pb_issuer p)))"
proof -
  show "bt_get (ir_supply r) (pb_asset p, pb_issuer p) = Some (supply_of r (pb_asset p) (pb_issuer p))"
  proof -
    have "bt_contains (ir_supply r) (pb_asset p, pb_issuer p)"
      using assms unfolding issuer_ok_def by blast
    then show ?thesis
      by (auto simp: bt_contains_get supply_of_def)
  qed
  show "unat (pb_amount p) \<le> unat (sup_reserved_for_burn (supply_of r (pb_asset p) (pb_issuer p)))"
    using assms bt_ksum_ge [OF assms(2), of "burn_weight (pb_asset p, pb_issuer p)"]
    by (simp add: issuer_ok_def burn_weight_def)
qed

definition burn_done :: "PendingBurn \<Rightarrow> AssetSupply \<Rightarrow> AssetSupply" where
  "burn_done p s = s\<lparr>sup_reserved_for_burn := sup_reserved_for_burn s - pb_amount p, sup_total_burned := sup_total_burned s + pb_amount p\<rparr>"

definition burn_undone :: "PendingBurn \<Rightarrow> AssetSupply \<Rightarrow> AssetSupply" where
  "burn_undone p s = s\<lparr>sup_reserved_for_burn := sup_reserved_for_burn s - pb_amount p\<rparr>"

definition settle_burn :: "(PendingBurn \<Rightarrow> AssetSupply \<Rightarrow> AssetSupply) \<Rightarrow> BurnId \<Rightarrow> PendingBurn \<Rightarrow> IssuerRegistry \<Rightarrow> IssuerRegistry" where
  "settle_burn f b p r = put_supply (pb_asset p, pb_issuer p) (f p (supply_of r (pb_asset p) (pb_issuer p))) r
     \<lparr>ir_next_burn_id := ir_next_burn_id r, ir_pending := bt_remove b (ir_pending r)\<rparr>"

lemma burn_amounts:
  assumes "supply_balanced s" "unat (pb_amount p) \<le> unat (sup_reserved_for_burn s)"
  shows "unat (sup_reserved_for_burn s - pb_amount p) = unat (sup_reserved_for_burn s) - unat (pb_amount p)"
    and "unat (sup_total_burned s + pb_amount p) = unat (sup_total_burned s) + unat (pb_amount p)"
    and "checked_add (sup_total_burned s) (pb_amount p) = Some (sup_total_burned s + pb_amount p)"
    and "checked_sub (sup_reserved_for_burn s) (pb_amount p) = Some (sup_reserved_for_burn s - pb_amount p)"
proof -
  have "unat (sup_total_burned s) + unat (pb_amount p) < 2 ^ 128"
    using assms unsigned_less [of "sup_total_minted s", where ?'a = nat] by (simp add: supply_balanced_def)
  then show "checked_add (sup_total_burned s) (pb_amount p) = Some (sup_total_burned s + pb_amount p)"
    by (simp add: checked_add_eq)
  then show "unat (sup_total_burned s + pb_amount p) = unat (sup_total_burned s) + unat (pb_amount p)"
    by (rule checked_add_SomeD)
  show "checked_sub (sup_reserved_for_burn s) (pb_amount p) = Some (sup_reserved_for_burn s - pb_amount p)"
    using assms(2) by (simp add: checked_sub_def word_le_nat_alt)
  then show "unat (sup_reserved_for_burn s - pb_amount p) = unat (sup_reserved_for_burn s) - unat (pb_amount p)"
    by (auto dest: checked_sub_SomeD)
qed

lemma burn_circulating:
  assumes "supply_balanced s" "unat (pb_amount p) \<le> unat (sup_reserved_for_burn s)"
  shows "circulating (burn_done p s) = circulating s"
    and "unat (circulating (burn_undone p s)) = unat (circulating s) + unat (pb_amount p)"
proof -
  have "unat (circulating (burn_done p s)) = unat (circulating s)"
    using assms(2) burn_amounts(1,2) [OF assms] by (simp add: unat_circulating burn_done_def)
  then show "circulating (burn_done p s) = circulating s"
    by (simp add: word_unat_eq_iff)
  show "unat (circulating (burn_undone p s)) = unat (circulating s) + unat (pb_amount p)"
    using assms burn_amounts(1) [OF assms] by (simp add: unat_circulating burn_undone_def supply_balanced_def)
qed

lemma settle_burn_ok:
  assumes ok: "issuer_ok n r" and p: "bt_get (ir_pending r) b = Some p" and f: "f = burn_done \<or> f = burn_undone"
  shows "issuer_ok n (settle_burn f b p r)"
  unfolding settle_burn_def
proof (rule move_supply_ok [OF ok])
  let ?k = "(pb_asset p, pb_issuer p)" and ?e = "supply_of r (pb_asset p) (pb_issuer p)"
  have bal: "supply_balanced ?e"
    and res: "unat (sup_reserved_for_burn ?e) = bt_ksum (burn_weight ?k) (ir_pending r)"
    using ok by (simp_all add: issuer_ok_def)
  note amt = pending_reserved(2) [OF ok p] and calc = burn_amounts [OF bal pending_reserved(2) [OF ok p]]
  show bal': "supply_balanced (f p ?e)"
    using f bal amt calc by (auto simp: supply_balanced_def burn_done_def burn_undone_def)
  show "unat (outstanding (f p ?e)) \<le> unat (outstanding ?e)"
    using f calc by (auto simp: outstanding_def unat_saturating_sub burn_done_def burn_undone_def)
  have "unat (sup_reserved_for_burn (f p ?e)) = unat (sup_reserved_for_burn ?e) - unat (pb_amount p)"
    using f calc(1) by (auto simp: burn_done_def burn_undone_def)
  then show "bt_ksum (burn_weight k) (bt_remove b (ir_pending r)) =
      (if k = ?k then unat (sup_reserved_for_burn (f p ?e)) else bt_ksum (burn_weight k) (ir_pending r))" for k
    using bt_ksum_remove [of "burn_weight k" b "ir_pending r"] p res by (auto simp: burn_weight_def)
  show "unat (ir_next_burn_id r) \<le> n"
    using ok by (simp add: issuer_ok_def)
  show "pb_burn_id q = c \<and> c < ir_next_burn_id r \<and> ((pb_asset q, pb_issuer q) = ?k \<or> bt_contains (ir_supply r) (pb_asset q, pb_issuer q))"
    if "bt_get (bt_remove b (ir_pending r)) c = Some q" for c q
    using that ok by (auto simp: issuer_ok_def split: if_splits)
qed

lemma finalize_pending:
  assumes ok: "issuer_ok n r" and p: "bt_get (ir_pending r) b = Some p"
  shows "finalize_burn b att r = Some (Ok (settle_burn burn_done b p r))"
proof -
  have "supply_balanced (supply_of r (pb_asset p) (pb_issuer p))"
    using ok by (simp add: issuer_ok_def)
  note calc = burn_amounts [OF this pending_reserved(2) [OF ok p]]
  show ?thesis
    using p pending_reserved(1) [OF ok p] calc(3,4)
    by (simp add: finalize_burn_def Let_def settle_burn_def burn_done_def put_supply_def bt.insert_insert)
qed

lemma reverse_pending:
  assumes ok: "issuer_ok n r" and p: "bt_get (ir_pending r) b = Some p" and "pb_sla_deadline p < now"
  shows "reverse_burn b now r = Some (Ok (settle_burn burn_undone b p r))"
proof -
  have "supply_balanced (supply_of r (pb_asset p) (pb_issuer p))"
    using ok by (simp add: issuer_ok_def)
  note calc = burn_amounts [OF this pending_reserved(2) [OF ok p]]
  show ?thesis
    using assms(3) p pending_reserved(1) [OF ok p] calc(4)
    by (simp add: reverse_burn_def Let_def settle_burn_def burn_undone_def put_supply_def not_le)
qed

lemma issuer_step_ok:
  assumes ok: "issuer_ok n r" and n: "Suc n < 2 ^ 64"
  shows "\<exists>t. issuer_step op r = Some t \<and> issuer_ok (Suc n) t"
proof -
  have mono: "issuer_ok n t \<Longrightarrow> issuer_ok (Suc n) t" for t
    by (simp add: issuer_ok_def)
  show ?thesis
  proof (cases op)
    case (InitiateBurn i a amt now)
    then show ?thesis
      using initiate_burn_ok [OF ok n] by simp
  next
    case (FinalizeBurn b att)
    then show ?thesis
      using ok finalize_pending [OF ok, of b] settle_burn_ok [OF ok, of b _ burn_done]
      by (cases "bt_get (ir_pending r) b") (auto simp: finalize_burn_def intro!: mono)
  next
    case (ReverseBurn b now)
    then show ?thesis
    proof (cases "bt_get (ir_pending r) b")
      case (Some p)
      then show ?thesis
        using ok ReverseBurn reverse_pending [OF ok Some, of now] settle_burn_ok [OF ok Some, of burn_undone]
        by (cases "now \<le> pb_sla_deadline p") (auto simp: reverse_burn_def not_le intro!: mono)
    qed (use ok in \<open>auto simp: reverse_burn_def intro!: mono\<close>)
  qed (use ok in \<open>auto intro!: mono issuer_register_ok issuer_mint_ok\<close>)
qed

lemma run_issuer_ok:
  "issuer_ok n r \<Longrightarrow> n + length ops < 2 ^ 64 \<Longrightarrow> \<exists>t. run_issuer ops r = Some t \<and> issuer_ok (n + length ops) t"
proof (induction ops arbitrary: n r)
  case (Cons op ops)
  obtain t where t: "issuer_step op r = Some t" "issuer_ok (Suc n) t"
    using issuer_step_ok [OF Cons.prems(1), of op] Cons.prems(2) by auto
  then show ?case
    using Cons.IH [OF t(2)] Cons.prems(2) by simp
qed simp

lemma issuer_with_sla_ok: "issuer_ok 0 (issuer_with_sla w)"
  by (simp add: issuer_ok_def issuer_with_sla_def supply_of_def supply_balanced_def)

section \<open>Property\<close>

text \<open>C13. The issuer's book.  Whatever registrations, mints and burns are called, in any order, no call panics and
  the book balances: of every asset an issuer has burned and reserved no more than it minted, so what
  \<open>circulating\<close> reports is exact; what is reserved is the sum of the pending burns of the asset; and what is
  outstanding over all its assets is within the issuer's delegation cap.  Every pending burn can be finalized,
  which moves its amount from reserved to burned, or, past its deadline, reversed, which returns it to
  circulation; either way it is no longer pending and a second completion fails with \<open>UnknownBurn\<close>.  The
  bound on the calls excludes the wrap-around of the burn counter.\<close>

theorem issuer_book_balances:
  assumes "length ops < 2 ^ 64"
  shows "\<exists>r. run_issuer ops (issuer_with_sla w) = Some r \<and>
    (\<forall>a i. let s = supply_of r a i in
       unat (sup_total_minted s) = unat (circulating s) + unat (sup_total_burned s) + unat (sup_reserved_for_burn s) \<and>
       unat (sup_reserved_for_burn s) = bt_ksum (burn_weight (a, i)) (ir_pending r)) \<and>
    (\<forall>i x. issuer_get r i = Some x \<longrightarrow> bt_ksum (owed i) (ir_supply r) \<le> unat (is_delegation_cap x)) \<and>
    (\<forall>b p att. bt_get (ir_pending r) b = Some p \<longrightarrow>
       (\<exists>t. finalize_burn b att r = Some (Ok t) \<and>
          unat (sup_total_burned (supply_of t (pb_asset p) (pb_issuer p)))
            = unat (sup_total_burned (supply_of r (pb_asset p) (pb_issuer p))) + unat (pb_amount p) \<and>
          circulating (supply_of t (pb_asset p) (pb_issuer p)) = circulating (supply_of r (pb_asset p) (pb_issuer p)) \<and>
          finalize_burn b att t = Some (Err (UnknownBurn b) t)) \<and>
       (\<forall>now. pb_sla_deadline p < now \<longrightarrow>
         (\<exists>t. reverse_burn b now r = Some (Ok t) \<and>
            unat (circulating (supply_of t (pb_asset p) (pb_issuer p)))
              = unat (circulating (supply_of r (pb_asset p) (pb_issuer p))) + unat (pb_amount p) \<and>
            reverse_burn b now t = Some (Err (UnknownBurn b) t))))"
proof -
  obtain r where r: "run_issuer ops (issuer_with_sla w) = Some r" and ok: "issuer_ok (length ops) r"
    using run_issuer_ok [OF issuer_with_sla_ok, of ops w] assms by auto
  have bal: "supply_balanced (supply_of r a i)" for a i
    using ok by (simp add: issuer_ok_def)
  have books: "unat (sup_total_minted (supply_of r a i)) = unat (circulating (supply_of r a i)) +
      unat (sup_total_burned (supply_of r a i)) + unat (sup_reserved_for_burn (supply_of r a i))" for a i
    using bal [of a i] by (simp add: unat_circulating supply_balanced_def)
  have settled: "supply_of (settle_burn f b p r) (pb_asset p) (pb_issuer p) = f p (supply_of r (pb_asset p) (pb_issuer p))"
    "bt_get (ir_pending (settle_burn f b p r)) b = None" for f b p
    by (simp_all add: settle_burn_def supply_of_def)
  show ?thesis
  proof (rule exI [of _ r], intro conjI allI impI)
    fix b p att
    assume p: "bt_get (ir_pending r) b = Some p"
    note calc = burn_amounts(2) [OF bal pending_reserved(2) [OF ok p]] burn_circulating [OF bal pending_reserved(2) [OF ok p]]
    show "\<exists>t. finalize_burn b att r = Some (Ok t) \<and>
          unat (sup_total_burned (supply_of t (pb_asset p) (pb_issuer p)))
            = unat (sup_total_burned (supply_of r (pb_asset p) (pb_issuer p))) + unat (pb_amount p) \<and>
          circulating (supply_of t (pb_asset p) (pb_issuer p)) = circulating (supply_of r (pb_asset p) (pb_issuer p)) \<and>
          finalize_burn b att t = Some (Err (UnknownBurn b) t)"
      using calc by (intro exI [of _ "settle_burn burn_done b p r"])
        (simp add: finalize_pending [OF ok p] settled, simp add: burn_done_def finalize_burn_def settled)
    fix now
    assume "pb_sla_deadline p < now"
    then show "\<exists>t. reverse_burn b now r = Some (Ok t) \<and>
            unat (circulating (supply_of t (pb_asset p) (pb_issuer p)))
              = unat (circulating (supply_of r (pb_asset p) (pb_issuer p))) + unat (pb_amount p) \<and>
            reverse_burn b now t = Some (Err (UnknownBurn b) t)"
      using calc by (intro exI [of _ "settle_burn burn_undone b p r"])
        (simp add: reverse_pending [OF ok p] settled, simp add: reverse_burn_def settled)
  qed (use r ok books in \<open>auto simp: Let_def issuer_ok_def issuer_get_def cap_of_def split: option.splits\<close>)
qed

definition demo_issuer :: Issuer where
  "demo_issuer = \<lparr>is_id = 7, is_principal_did = 0, is_delegation_cap = 100, is_reserve_schema_version = 1, is_policy_vocabulary_version = 1\<rparr>"

definition demo_burn :: PendingBurn where
  "demo_burn = \<lparr>pb_burn_id = 0, pb_asset = 1, pb_issuer = 7, pb_amount = 40, pb_initiated_at = 10, pb_sla_deadline = 15\<rparr>"

lemma demo_issuer_run:
  "run_issuer [RegisterIssuer demo_issuer, MintAsset 7 1 90, InitiateBurn 7 1 40 10] (issuer_with_sla 5) =
     Some \<lparr>ir_issuers = bt_insert 7 demo_issuer bt_empty,
       ir_supply = bt_insert (1, 7) \<lparr>sup_total_minted = 90, sup_total_burned = 0, sup_reserved_for_burn = 40\<rparr> bt_empty,
       ir_pending = bt_insert 0 demo_burn bt_empty, ir_next_burn_id = 1, ir_sla_window_rounds = 5\<rparr>"
  by (simp add: issuer_with_sla_def issuer_register_def issuer_mint_def initiate_burn_def demo_issuer_def demo_burn_def
      supply_of_def supply_default_def circulating_def saturating_sub_def checked_add_def bt_contains_get bt.insert_insert)

theorem issuer_book_balances_witness:
  "\<exists>r t. run_issuer [RegisterIssuer demo_issuer, MintAsset 7 1 90, InitiateBurn 7 1 40 10] (issuer_with_sla 5) = Some r \<and>
     finalize_burn 0 0 r = Some (Ok t) \<and> unat (sup_total_burned (supply_of t 1 7)) = 40"
proof -
  let ?ops = "[RegisterIssuer demo_issuer, MintAsset 7 1 90, InitiateBurn 7 1 40 10]"
  have len: "length ?ops < 2 ^ 64"
    by simp
  show ?thesis
    using issuer_book_balances [OF len, of 5]
    apply (elim exE conjE)
    subgoal premises run for r
    proof -
      have r: "bt_get (ir_pending r) 0 = Some demo_burn"
        "supply_of r 1 7 = \<lparr>sup_total_minted = 90, sup_total_burned = 0, sup_reserved_for_burn = 40\<rparr>"
        using run(1) unfolding demo_issuer_run by (auto simp: supply_of_def)
      then obtain t where "finalize_burn 0 0 r = Some (Ok t)" "unat (sup_total_burned (supply_of t 1 7)) = 40"
        using run(4) [rule_format, OF r(1), of 0] by (auto simp: demo_burn_def)
      with run(1) show ?thesis
        by blast
    qed
    done
qed

end
