(* ===== verification/Reward_Settlement.thy ===== *)
theory Reward_Settlement
  imports Issuer_Registry
begin

text \<open>
  The reserve-coverage breaker and the compute rewards, \<open>suwappu-precompiles/src/reserve.rs\<close> and \<open>rewards.rs\<close>:
  coverage rules, attestations and their freshness, the mint that is gated by coverage at the supply it
  would reach, and the settlement of an epoch of receipts (uptime gate, pricing, pro-rata clamp to the
  budget, gated mint, watermark).  The SP1 verifier of \<open>submit_attestation_with_proof\<close> is a third-party crate
  and a parameter; what \<open>zkvm/reserve-coverage-host\<close> does around it is modelled.
\<close>

section \<open>Coverage\<close>

datatype CoverageRule = OneToOnePar | NavStrike u32 | Jurisdiction u32

datatype DisclosureTier = F1Aggregate | F2BroadCategory | F3DetailedCategory | F4Cusip | F5CusipThreshold

record ReserveAttestation =
  ra_issuer :: IssuerId
  ra_asset :: AssetId
  ra_total_reserves :: u128
  ra_outstanding_at_attestation :: u128
  ra_attested_at :: u64
  ra_schema_version :: u32
  ra_tier :: DisclosureTier
  ra_commitment :: hash32
  ra_proof :: bytes

text \<open>What \<open>verify_blocking\<close> reports, by case of its messages.\<close>

datatype ProofFailure = Sp1Rejected string | ReservesMismatch u128 u128 | CommitmentMismatch

datatype CoverageError =
    NoRule
  | PredicateFailed u128 u128 CoverageRule
  | NoFreshAttestation
  | CoverageOverflow
  | UnsupportedTierForProof DisclosureTier
  | ProofVerificationFailed ProofFailure

definition ratio_covered :: "u32 \<Rightarrow> u128 \<Rightarrow> u128 \<Rightarrow> CoverageError + bool" where
  "ratio_covered bps reserves outst =
     res_bind (ok_or CoverageOverflow (checked_mul reserves 10000)) (\<lambda>lhs.
     res_bind (ok_or CoverageOverflow (checked_mul outst (ucast bps))) (\<lambda>rhs. Inr (rhs \<le> lhs)))"

definition predicate_satisfied :: "CoverageRule \<Rightarrow> u128 \<Rightarrow> u128 \<Rightarrow> CoverageError + unit" where
  "predicate_satisfied rule reserves outst =
     res_bind (case rule of
         OneToOnePar \<Rightarrow> Inr (outst \<le> reserves)
       | NavStrike basis_points \<Rightarrow> ratio_covered basis_points reserves outst
       | Jurisdiction ratio_bps \<Rightarrow> ratio_covered ratio_bps reserves outst)
       (\<lambda>covered. if covered then Inr () else Inl (PredicateFailed reserves outst rule))"

definition DEFAULT_ATTESTATION_TTL_ROUNDS :: u64 where
  "DEFAULT_ATTESTATION_TTL_ROUNDS = 10000"

record ReserveCoverageChecker =
  rc_rules :: "(IssuerId \<times> AssetId, CoverageRule) btmap"
  rc_latest :: "(IssuerId \<times> AssetId, ReserveAttestation) btmap"
  rc_ttl_rounds :: u64

definition coverage_with_ttl :: "u64 \<Rightarrow> ReserveCoverageChecker" where
  "coverage_with_ttl ttl_rounds = \<lparr>rc_rules = bt_empty, rc_latest = bt_empty, rc_ttl_rounds = ttl_rounds\<rparr>"

definition coverage_new :: ReserveCoverageChecker where
  "coverage_new = coverage_with_ttl DEFAULT_ATTESTATION_TTL_ROUNDS"

definition set_rule :: "IssuerId \<Rightarrow> AssetId \<Rightarrow> CoverageRule \<Rightarrow> ReserveCoverageChecker \<Rightarrow> ReserveCoverageChecker" where
  "set_rule issuer asset rule c = c\<lparr>rc_rules := bt_insert (issuer, asset) rule (rc_rules c)\<rparr>"

definition submit_attestation :: "ReserveAttestation \<Rightarrow> ReserveCoverageChecker \<Rightarrow> (CoverageError, ReserveCoverageChecker) outcome" where
  "submit_attestation att c =
     try_value (ok_or NoRule (bt_get (rc_rules c) (ra_issuer att, ra_asset att))) c (\<lambda>rule.
     try_value (predicate_satisfied rule (ra_total_reserves att) (ra_outstanding_at_attestation att)) c (\<lambda>_.
       Ok (c\<lparr>rc_latest := bt_insert (ra_issuer att, ra_asset att) att (rc_latest c)\<rparr>)))"

text \<open>The proof as the public values it carries and whatever the verifier reads; \<open>parse_public_values\<close> asserts
  the length, \<open>None\<close>.\<close>

definition parse_public_values :: "bytes \<Rightarrow> (u128 \<times> hash32) option" where
  "parse_public_values vs = (if length vs = 48 then Some (of_be (take 16 vs), of_be (take 32 (drop 16 vs))) else None)"

definition verify_blocking ::
  "('p \<Rightarrow> 'k \<Rightarrow> string + unit) \<Rightarrow> ('p \<Rightarrow> bytes) \<Rightarrow> 'p \<Rightarrow> 'k \<Rightarrow> u128 \<Rightarrow> hash32 \<Rightarrow> (ProofFailure + unit) option" where
  "verify_blocking sp1_verify public_values proof vk expected_total_reserves expected_commitment =
     (case sp1_verify proof vk of
        Inl e \<Rightarrow> Some (Inl (Sp1Rejected e))
      | Inr _ \<Rightarrow>
          map_option (\<lambda>(total_reserves, commitment).
            if total_reserves \<noteq> expected_total_reserves then Inl (ReservesMismatch total_reserves expected_total_reserves)
            else if commitment \<noteq> expected_commitment then Inl CommitmentMismatch else Inr ())
          (parse_public_values (public_values proof)))"

definition submit_attestation_with_proof ::
  "('p \<Rightarrow> 'k \<Rightarrow> string + unit) \<Rightarrow> ('p \<Rightarrow> bytes) \<Rightarrow> ReserveAttestation \<Rightarrow> 'p \<Rightarrow> 'k \<Rightarrow> ReserveCoverageChecker \<Rightarrow>
    (CoverageError, ReserveCoverageChecker) outcome option" where
  "submit_attestation_with_proof sp1_verify public_values att proof vk c =
     (if ra_tier att \<noteq> F1Aggregate then Some (Err (UnsupportedTierForProof (ra_tier att)) c)
      else map_option (\<lambda>v. case v of
             Inl e \<Rightarrow> Err (ProofVerificationFailed e) c
           | Inr _ \<Rightarrow> submit_attestation att c)
        (verify_blocking sp1_verify public_values proof vk (ra_total_reserves att) (ra_commitment att)))"

definition can_mint :: "ReserveCoverageChecker \<Rightarrow> IssuerId \<Rightarrow> AssetId \<Rightarrow> u128 \<Rightarrow> u64 \<Rightarrow> CoverageError + unit" where
  "can_mint c issuer asset outst now_round =
     res_bind (ok_or NoRule (bt_get (rc_rules c) (issuer, asset))) (\<lambda>rule.
     res_bind (ok_or NoFreshAttestation (bt_get (rc_latest c) (issuer, asset))) (\<lambda>att.
       if rc_ttl_rounds c < saturating_sub now_round (ra_attested_at att) then Inl NoFreshAttestation
       else predicate_satisfied rule (ra_total_reserves att) outst))"

datatype GatedMintError = GatedCoverage CoverageError | GatedIssuer IssuerError

definition mint_with_coverage ::
  "ReserveCoverageChecker \<Rightarrow> IssuerId \<Rightarrow> AssetId \<Rightarrow> u128 \<Rightarrow> u64 \<Rightarrow> IssuerRegistry \<Rightarrow> (GatedMintError, IssuerRegistry) outcome" where
  "mint_with_coverage checker issuer asset amount now_round registry =
     (let outst = outstanding (supply_of registry asset issuer) in
      try_value (ok_or (GatedCoverage CoverageOverflow) (checked_add outst amount)) registry (\<lambda>projected.
      case can_mint checker issuer asset projected now_round of
        Inl e \<Rightarrow> Err (GatedCoverage e) registry
      | Inr _ \<Rightarrow> (case issuer_mint issuer asset amount registry of
            Ok r \<Rightarrow> Ok r
          | Err e r \<Rightarrow> Err (GatedIssuer e) r)))"

section \<open>Rewards\<close>

definition GIB :: u64 where "GIB = 2 ^ 30"
definition UPTIME_FULL_RATE_BPS :: u32 where "UPTIME_FULL_RATE_BPS = 9900"
definition UPTIME_HALF_RATE_BPS :: u32 where "UPTIME_HALF_RATE_BPS = 9500"

record ComputeReceipt =
  cr_recipient :: address
  cr_epoch :: u64
  cr_certificates_signed :: u64
  cr_uptime_ok_samples :: u64
  cr_uptime_total_samples :: u64
  cr_attestations_signed :: u64
  cr_da_bytes_served :: u64

record RewardParams =
  rp_per_certificate :: u128
  rp_per_attestation :: u128
  rp_per_gib_served :: u128
  rp_epoch_budget :: u128

record EpochSettlement =
  es_epoch :: u64
  es_payouts :: "(address \<times> u128) list"
  es_total_minted :: u128

datatype RewardError =
    EpochNotMonotonic u64 "u64 option"
  | ReceiptEpochMismatch u64 u64
  | DuplicateRecipient
  | MalformedUptime
  | RewardCoverage CoverageError
  | RewardIssuer IssuerError
  | RewardOverflow

fun reward_error :: "GatedMintError \<Rightarrow> RewardError" where
  "reward_error (GatedCoverage e) = RewardCoverage e"
| "reward_error (GatedIssuer e) = RewardIssuer e"

definition uptime_multiplier_bps :: "u64 \<Rightarrow> u64 \<Rightarrow> u32" where
  "uptime_multiplier_bps ok_samples total_samples =
     (if total_samples = 0 \<or> total_samples < ok_samples then 0
      else let scaled = (ucast ok_samples :: u128) * 10000 in
        if (ucast total_samples :: u128) * ucast UPTIME_FULL_RATE_BPS \<le> scaled then 10000
        else if (ucast total_samples :: u128) * ucast UPTIME_HALF_RATE_BPS \<le> scaled then 5000 else 0)"

definition price_receipt :: "RewardParams \<Rightarrow> ComputeReceipt \<Rightarrow> RewardError + u128" where
  "price_receipt params receipt =
     (if cr_uptime_total_samples receipt < cr_uptime_ok_samples receipt then Inl MalformedUptime
      else
        res_bind (ok_or RewardOverflow (checked_mul (ucast (cr_certificates_signed receipt)) (rp_per_certificate params))) (\<lambda>certs.
        res_bind (ok_or RewardOverflow (checked_mul (ucast (cr_attestations_signed receipt)) (rp_per_attestation params))) (\<lambda>attests.
        res_bind (ok_or RewardOverflow (checked_mul (ucast (cr_da_bytes_served receipt)) (rp_per_gib_served params))) (\<lambda>bytes_priced.
        let served = bytes_priced div ucast GIB in
        res_bind (ok_or RewardOverflow (Option.bind (checked_add certs attests) (\<lambda>s. checked_add s served))) (\<lambda>raw.
        let multiplier = ucast (uptime_multiplier_bps (cr_uptime_ok_samples receipt) (cr_uptime_total_samples receipt)) in
        ok_or RewardOverflow (map_option (\<lambda>scaled. scaled div 10000) (checked_mul raw multiplier)))))))"

record RewardSettlement =
  rs_params :: RewardParams
  rs_issuer :: IssuerId
  rs_asset :: AssetId
  rs_last_settled_epoch :: "u64 option"

definition reward_settlement_new :: "RewardParams \<Rightarrow> IssuerId \<Rightarrow> AssetId \<Rightarrow> RewardSettlement" where
  "reward_settlement_new params issuer asset =
     \<lparr>rs_params = params, rs_issuer = issuer, rs_asset = asset, rs_last_settled_epoch = None\<rparr>"

text \<open>The three loops of \<open>settle_epoch\<close>.\<close>

fun check_receipts :: "u64 \<Rightarrow> address set \<Rightarrow> ComputeReceipt list \<Rightarrow> RewardError + unit" where
  "check_receipts epoch seen [] = Inr ()"
| "check_receipts epoch seen (r # rs) =
     (if cr_epoch r \<noteq> epoch then Inl (ReceiptEpochMismatch (cr_epoch r) epoch)
      else if cr_recipient r \<in> seen then Inl DuplicateRecipient
      else check_receipts epoch (insert (cr_recipient r) seen) rs)"

fun price_all ::
  "RewardParams \<Rightarrow> (address \<times> u128) list \<Rightarrow> u128 \<Rightarrow> ComputeReceipt list \<Rightarrow> RewardError + ((address \<times> u128) list \<times> u128)" where
  "price_all params raw raw_total [] = Inr (raw, raw_total)"
| "price_all params raw raw_total (r # rs) =
     res_bind (price_receipt params r) (\<lambda>amount.
     res_bind (ok_or RewardOverflow (checked_add raw_total amount)) (\<lambda>raw_total.
       price_all params (raw @ [(cr_recipient r, amount)]) raw_total rs))"

fun clamp_all ::
  "u128 \<Rightarrow> u128 \<Rightarrow> (address \<times> u128) list \<Rightarrow> u128 \<Rightarrow> (address \<times> u128) list \<Rightarrow> RewardError + ((address \<times> u128) list \<times> u128)" where
  "clamp_all budget raw_total payouts tot [] = Inr (payouts, tot)"
| "clamp_all budget raw_total payouts tot ((recipient, amount) # raw) =
     res_bind (if budget < raw_total
               then res_bind (ok_or RewardOverflow (checked_mul amount budget)) (\<lambda>x. Inr (x div raw_total))
               else Inr amount) (\<lambda>clamped.
       if 0 < clamped then clamp_all budget raw_total (payouts @ [(recipient, clamped)]) (tot + clamped) raw
       else clamp_all budget raw_total payouts tot raw)"

text \<open>What follows the watermark check.\<close>

definition settle_batch ::
  "u64 \<Rightarrow> ComputeReceipt list \<Rightarrow> ReserveCoverageChecker \<Rightarrow> u64 \<Rightarrow> RewardSettlement \<Rightarrow> IssuerRegistry \<Rightarrow>
    (RewardError + EpochSettlement) \<times> RewardSettlement \<times> IssuerRegistry" where
  "settle_batch epoch receipts coverage now_round e issuers =
     (case res_bind (check_receipts epoch {} receipts) (\<lambda>_.
           res_bind (price_all (rs_params e) [] 0 receipts) (\<lambda>(raw, raw_total).
             clamp_all (rp_epoch_budget (rs_params e)) raw_total [] 0 raw)) of
        Inl err \<Rightarrow> (Inl err, e, issuers)
      | Inr (payouts, tot) \<Rightarrow>
          (let settled = (Inr \<lparr>es_epoch = epoch, es_payouts = payouts, es_total_minted = tot\<rparr>,
                          e\<lparr>rs_last_settled_epoch := Some epoch\<rparr>) in
           if 0 < tot
           then case mint_with_coverage coverage (rs_issuer e) (rs_asset e) tot now_round issuers of
                  Err err r \<Rightarrow> (Inl (reward_error err), e, r)
                | Ok r \<Rightarrow> (fst settled, snd settled, r)
           else (fst settled, snd settled, issuers)))"

definition settle_epoch ::
  "u64 \<Rightarrow> ComputeReceipt list \<Rightarrow> ReserveCoverageChecker \<Rightarrow> u64 \<Rightarrow> RewardSettlement \<Rightarrow> IssuerRegistry \<Rightarrow>
    (RewardError + EpochSettlement) \<times> RewardSettlement \<times> IssuerRegistry" where
  "settle_epoch epoch receipts coverage now_round e issuers =
     (case rs_last_settled_epoch e of
        Some lst \<Rightarrow> if epoch \<le> lst then (Inl (EpochNotMonotonic epoch (Some lst)), e, issuers)
                     else settle_batch epoch receipts coverage now_round e issuers
      | None \<Rightarrow> settle_batch epoch receipts coverage now_round e issuers)"

section \<open>The gated mint\<close>

lemma issuer_mint_effect:
  assumes "issuer_mint i a amt r = Ok t" "supply_balanced (supply_of r a i)"
  shows "unat (outstanding (supply_of t a i)) = unat (outstanding (supply_of r a i)) + unat amt"
    and "(b, j) \<noteq> (a, i) \<Longrightarrow> supply_of t b j = supply_of r b j"
proof -
  obtain m where m: "checked_add (sup_total_minted (supply_of r a i)) amt = Some m"
    and t: "t = put_supply (a, i) (supply_of r a i\<lparr>sup_total_minted := m\<rparr>) r"
    using assms(1) by (auto simp: issuer_mint_def Let_def put_supply_def outcome_simps bt.insert_insert split: if_splits)
  have "unat m = unat (sup_total_minted (supply_of r a i)) + unat amt"
    using checked_add_SomeD [OF m] .
  with assms(2) show "unat (outstanding (supply_of t a i)) = unat (outstanding (supply_of r a i)) + unat amt"
    by (simp add: t outstanding_def unat_saturating_sub supply_balanced_def)
  show "(b, j) \<noteq> (a, i) \<Longrightarrow> supply_of t b j = supply_of r b j"
    by (auto simp: t)
qed

lemma issuer_mint_error:
  assumes "issuer_mint i a amt r = Err e t"
  shows "supply_of t = supply_of r"
proof -
  have "t = r \<or> t = put_supply (a, i) (supply_of r a i) r"
    using assms by (auto simp: issuer_mint_def Let_def put_supply_def outcome_simps split: if_splits)
  then show ?thesis
    by (auto simp: fun_eq_iff)
qed

lemma mint_with_coverage_cases:
  "mint_with_coverage c i a amt now r =
     (case checked_add (outstanding (supply_of r a i)) amt of
        None \<Rightarrow> Err (GatedCoverage CoverageOverflow) r
      | Some x \<Rightarrow> if can_mint c i a x now = Inr () then
          (case issuer_mint i a amt r of Ok t \<Rightarrow> Ok t | Err e t \<Rightarrow> Err (GatedIssuer e) t)
          else Err (GatedCoverage (projl (can_mint c i a x now))) r)"
proof (cases "checked_add (outstanding (supply_of r a i)) amt")
  case (Some x)
  then show ?thesis
    by (cases "can_mint c i a x now") (simp_all add: mint_with_coverage_def)
qed (simp add: mint_with_coverage_def)

lemma mint_with_coverage_Ok:
  assumes "mint_with_coverage c i a amt now r = Ok t" "supply_balanced (supply_of r a i)"
  shows "issuer_mint i a amt r = Ok t" "can_mint c i a (outstanding (supply_of t a i)) now = Inr ()"
proof -
  obtain x where x: "checked_add (outstanding (supply_of r a i)) amt = Some x" "can_mint c i a x now = Inr ()"
    and t: "issuer_mint i a amt r = Ok t"
    using assms(1) by (auto simp: mint_with_coverage_cases split: option.splits if_splits outcome.splits)
  from t show "issuer_mint i a amt r = Ok t" .
  have "outstanding (supply_of t a i) = x"
    using issuer_mint_effect(1) [OF t assms(2)] checked_add_SomeD [OF x(1)] by (simp add: word_unat_eq_iff)
  with x(2) show "can_mint c i a (outstanding (supply_of t a i)) now = Inr ()"
    by simp
qed

lemma mint_with_coverage_Err: "mint_with_coverage c i a amt now r = Err e t \<Longrightarrow> supply_of t = supply_of r"
  by (auto simp: mint_with_coverage_cases dest: issuer_mint_error split: option.splits if_splits outcome.splits)

section \<open>Pricing and clamping\<close>

lemma unat_widen [simp]: "unat (ucast (x :: u64) :: u128) = unat x" "unat (ucast (y :: u32) :: u128) = unat y"
  by (simp_all add: unsigned_ucast_eq take_bit_nat_eq_self_iff less_le_trans [OF unsigned_less])

lemma unat_scaled: "n < 2 ^ 64 \<Longrightarrow> unat ((ucast (x :: u64) :: u128) * word_of_nat n) = unat x * n"
proof -
  assume n: "n < 2 ^ 64"
  have "unat x * n < 2 ^ 64 * 2 ^ 64"
    using n unsigned_less [of x, where ?'a = nat] by (intro mult_strict_mono) auto
  with n show ?thesis
    by (simp add: unat_word_ariths unat_of_nat)
qed

lemma uptime_gate:
  "uptime_multiplier_bps ok total_samples \<noteq> 0 \<Longrightarrow>
     0 < unat total_samples \<and> unat ok \<le> unat total_samples \<and> unat total_samples * 9500 \<le> unat ok * 10000"
  using unat_scaled [of 9500 total_samples] unat_scaled [of 9900 total_samples] unat_scaled [of 10000 ok]
  by (auto simp: uptime_multiplier_bps_def Let_def UPTIME_FULL_RATE_BPS_def UPTIME_HALF_RATE_BPS_def word_le_nat_alt
      word_less_nat_alt unat_gt_0 split: if_splits)

lemma price_receipt_gate:
  assumes "price_receipt ps r = Inr x" "0 < x"
  shows "0 < unat (cr_uptime_total_samples r) \<and>
    unat (cr_uptime_total_samples r) * 9500 \<le> unat (cr_uptime_ok_samples r) * 10000"
proof -
  let ?m = "uptime_multiplier_bps (cr_uptime_ok_samples r) (cr_uptime_total_samples r)"
  obtain raw y where y: "checked_mul raw (ucast ?m) = Some y" and x: "x = y div 10000"
    using assms(1) by (auto simp: price_receipt_def Let_def outcome_simps split: if_splits)
  have "unat y = unat raw * unat ?m"
    using checked_mul_SomeD [OF y] by simp
  moreover have "y \<noteq> 0"
    using assms(2) x by auto
  ultimately have "?m \<noteq> 0"
    by (auto simp: word_unat_eq_iff [of y])
  then show ?thesis
    using uptime_gate by blast
qed

text \<open>A priced batch: the prices in receipt order, and their exact sum.\<close>

lemma price_all_spec:
  "price_all ps raw tot rs = Inr (raw', tot') \<Longrightarrow>
     \<exists>xs. raw' = raw @ xs \<and> unat tot' = unat tot + sum_list (map (\<lambda>p. unat (snd p)) xs) \<and>
       list_all2 (\<lambda>(a, x) r. a = cr_recipient r \<and> price_receipt ps r = Inr x) xs rs"
proof (induction rs arbitrary: raw tot)
  case (Cons r rs)
  obtain x t where x: "price_receipt ps r = Inr x" and t: "checked_add tot x = Some t"
    and rest: "price_all ps (raw @ [(cr_recipient r, x)]) t rs = Inr (raw', tot')"
    using Cons.prems by (auto simp: outcome_simps)
  obtain xs where "raw' = (raw @ [(cr_recipient r, x)]) @ xs" "unat tot' = unat t + sum_list (map (\<lambda>p. unat (snd p)) xs)"
    "list_all2 (\<lambda>(a, x) r. a = cr_recipient r \<and> price_receipt ps r = Inr x) xs rs"
    using Cons.IH [OF rest] by blast
  with x checked_add_SomeD [OF t] show ?case
    by (intro exI [of _ "(cr_recipient r, x) # xs"]) simp
qed simp

definition clamp_nat :: "nat \<Rightarrow> nat \<Rightarrow> nat \<Rightarrow> nat" where
  "clamp_nat budget raw_total x = (if budget < raw_total then x * budget div raw_total else x)"

lemma sum_div_le: "0 < t \<Longrightarrow> sum_list (map (\<lambda>x. x * b div t) xs) \<le> sum_list xs * b div (t :: nat)"
proof (induction xs)
  case (Cons x xs)
  have "x * b div t + sum_list xs * b div t \<le> (x * b + sum_list xs * b) div t"
    unfolding div_add1_eq [of "x * b" "sum_list xs * b" t] by simp
  with Cons show ?case
    by (simp add: add_mult_distrib)
qed simp

lemma clamp_nat_budget: "sum_list (map (clamp_nat b (sum_list xs)) xs) \<le> b"
proof (cases "b < sum_list xs")
  case True
  then have "clamp_nat b (sum_list xs) = (\<lambda>x. x * b div sum_list xs)"
    by (intro ext) (simp add: clamp_nat_def)
  then have "sum_list (map (clamp_nat b (sum_list xs)) xs) \<le> sum_list xs * b div sum_list xs"
    using sum_div_le [of "sum_list xs" b xs] True by simp
  with True show ?thesis
    by simp
next
  case False
  then have "map (clamp_nat b (sum_list xs)) xs = xs"
    by (intro map_idI) (simp add: clamp_nat_def)
  with False show ?thesis
    by (simp only: not_less)
qed

lemma clamp_nat_le: "clamp_nat b t x \<le> x"
proof (cases "b < t")
  case True
  then have "x * b div t \<le> x * t div t"
    by (intro div_le_mono mult_le_mono2) simp
  with True show ?thesis
    by (simp add: clamp_nat_def)
qed (simp add: clamp_nat_def)

text \<open>The clamp loop never wraps: the payouts are the clamped prices, without the zeros.\<close>

lemma clamp_all_spec:
  "clamp_all b t ps tot raw = Inr (ps', tot') \<Longrightarrow>
     unat tot + sum_list (map (\<lambda>p. clamp_nat (unat b) (unat t) (unat (snd p))) raw) < 2 ^ 128 \<Longrightarrow>
     unat tot' = unat tot + sum_list (map (\<lambda>p. clamp_nat (unat b) (unat t) (unat (snd p))) raw) \<and>
     (\<exists>qs. ps' = ps @ qs \<and> sum_list (map (\<lambda>p. unat (snd p)) qs) = sum_list (map (\<lambda>p. clamp_nat (unat b) (unat t) (unat (snd p))) raw) \<and>
       (\<forall>(a, y) \<in> set qs. 0 < y \<and> (\<exists>x. (a, x) \<in> set raw \<and> unat y = clamp_nat (unat b) (unat t) (unat x))))"
proof (induction raw arbitrary: ps tot)
  case (Cons p raw)
  obtain a x where p: "p = (a, x)"
    by fastforce
  let ?c = "clamp_nat (unat b) (unat t)"
  obtain y where y: "unat y = ?c (unat x)"
    and run: "(if 0 < y then clamp_all b t (ps @ [(a, y)]) (tot + y) raw else clamp_all b t ps tot raw) = Inr (ps', tot')"
  proof (cases "b < t")
    case True
    then obtain z where z: "checked_mul x b = Some z"
      using Cons.prems(1) by (auto simp: p outcome_simps)
    have "unat (z div t) = ?c (unat x)"
      using True checked_mul_SomeD [OF z] by (simp add: clamp_nat_def unat_div word_less_nat_alt)
    then show ?thesis
      using Cons.prems(1) True z by (intro that [of "z div t"]) (simp_all add: p)
  next
    case False
    then show ?thesis
      using Cons.prems(1) by (intro that [of x]) (simp_all add: p clamp_nat_def word_less_nat_alt)
  qed
  show ?case
  proof (cases "0 < y")
    case True
    have sum: "unat (tot + y) = unat tot + unat y"
      using Cons.prems(2) y by (simp add: p unat_word_ariths)
    obtain qs where "ps' = (ps @ [(a, y)]) @ qs" "unat tot' = unat (tot + y) + sum_list (map (\<lambda>p. ?c (unat (snd p))) raw)"
      "sum_list (map (\<lambda>p. unat (snd p)) qs) = sum_list (map (\<lambda>p. ?c (unat (snd p))) raw)"
      "\<forall>(a, y) \<in> set qs. 0 < y \<and> (\<exists>x. (a, x) \<in> set raw \<and> unat y = ?c (unat x))"
      using Cons.IH [of "ps @ [(a, y)]" "tot + y"] run True Cons.prems(2) sum y by (auto simp: p)
    with sum y True show ?thesis
      by (intro conjI exI [of _ "(a, y) # qs"]) (auto simp: p)
  next
    case False
    then have "?c (unat x) = 0"
      using y by (simp add: word_gt_0)
    with Cons.IH [of ps tot] run False Cons.prems(2) show ?thesis
      by (fastforce simp: p)
  qed
qed simp

lemma check_receipts_spec:
  "check_receipts epoch seen rs = Inr () \<Longrightarrow>
     (\<forall>r \<in> set rs. cr_epoch r = epoch \<and> cr_recipient r \<notin> seen) \<and> distinct (map cr_recipient rs)"
  by (induction epoch seen rs rule: check_receipts.induct) (auto split: if_splits)

section \<open>Settlement\<close>

lemma list_all2_left: "list_all2 P xs ys \<Longrightarrow> x \<in> set xs \<Longrightarrow> \<exists>y \<in> set ys. P x y"
  by (induction rule: list_all2_induct) auto

text \<open>A batch that was validated, priced and clamped.\<close>

lemma batch_payouts:
  assumes "check_receipts epoch {} rs = Inr ()" "price_all ps [] 0 rs = Inr (raw, raw_total)"
    and "clamp_all b raw_total [] 0 raw = Inr (payouts, tot)"
  shows "unat tot = sum_list (map (\<lambda>p. unat (snd p)) payouts)" "unat tot \<le> unat b"
    and "(a, y) \<in> set payouts \<Longrightarrow> \<exists>r \<in> set rs. cr_recipient r = a \<and> cr_epoch r = epoch \<and>
      0 < unat (cr_uptime_total_samples r) \<and> unat (cr_uptime_total_samples r) * 9500 \<le> unat (cr_uptime_ok_samples r) * 10000 \<and>
      (\<exists>x. price_receipt ps r = Inr x \<and> y \<le> x)"
proof -
  let ?c = "clamp_nat (unat b) (unat raw_total)"
  have total: "unat raw_total = sum_list (map (\<lambda>p. unat (snd p)) raw)"
    and priced: "list_all2 (\<lambda>(a, x) r. a = cr_recipient r \<and> price_receipt ps r = Inr x) raw rs"
    using price_all_spec [OF assms(2)] by auto
  have "sum_list (map (\<lambda>p. ?c (unat (snd p))) raw) = sum_list (map ?c (map (\<lambda>p. unat (snd p)) raw))"
    by (simp add: o_def)
  also have "\<dots> \<le> unat b"
    unfolding total by (rule clamp_nat_budget)
  finally have le: "sum_list (map (\<lambda>p. ?c (unat (snd p))) raw) \<le> unat b" .
  then have "unat (0 :: u128) + sum_list (map (\<lambda>p. ?c (unat (snd p))) raw) < 2 ^ 128"
    using unsigned_less [of b, where ?'a = nat] by simp
  note spec = clamp_all_spec [OF assms(3) this]
  from spec show "unat tot = sum_list (map (\<lambda>p. unat (snd p)) payouts)" by auto
  from spec le show "unat tot \<le> unat b" by simp
  assume y: "(a, y) \<in> set payouts"
  then obtain x where x: "(a, x) \<in> set raw" "unat y = ?c (unat x)" "0 < y"
    using spec by auto
  then obtain r where r: "r \<in> set rs" "a = cr_recipient r" "price_receipt ps r = Inr x"
    using list_all2_left [OF priced x(1)] by auto
  have "y \<le> x"
    using x(2) clamp_nat_le by (simp add: word_le_nat_alt)
  moreover have "0 < x"
    using x(3) \<open>y \<le> x\<close> by simp
  ultimately show "\<exists>r \<in> set rs. cr_recipient r = a \<and> cr_epoch r = epoch \<and>
      0 < unat (cr_uptime_total_samples r) \<and> unat (cr_uptime_total_samples r) * 9500 \<le> unat (cr_uptime_ok_samples r) * 10000 \<and>
      (\<exists>x. price_receipt ps r = Inr x \<and> y \<le> x)"
    using r price_receipt_gate [OF r(3)] check_receipts_spec [OF assms(1)] by (intro bexI [of _ r]) auto
qed

lemma settle_epoch_batch:
  "settle_epoch epoch rs c now e r = (Inr st, e', r') \<Longrightarrow>
     settle_batch epoch rs c now e r = (Inr st, e', r') \<and> (\<forall>l. rs_last_settled_epoch e = Some l \<longrightarrow> l < epoch)"
  by (auto simp: settle_epoch_def not_le split: option.splits if_splits)

lemma settle_batch_Inr:
  assumes "settle_batch epoch rs c now e r = (Inr st, e', r')"
  obtains raw raw_total where "check_receipts epoch {} rs = Inr ()" "price_all (rs_params e) [] 0 rs = Inr (raw, raw_total)"
    "clamp_all (rp_epoch_budget (rs_params e)) raw_total [] 0 raw = Inr (es_payouts st, es_total_minted st)"
    "es_epoch st = epoch" "e' = e\<lparr>rs_last_settled_epoch := Some epoch\<rparr>"
    "if es_total_minted st = 0 then r' = r
     else mint_with_coverage c (rs_issuer e) (rs_asset e) (es_total_minted st) now r = Ok r'"
proof (cases "check_receipts epoch {} rs")
  case (Inr u)
  show thesis
  proof (cases "price_all (rs_params e) [] 0 rs")
    case priced: (Inr rt)
    obtain raw raw_total where rt: "rt = (raw, raw_total)" by fastforce
    show thesis
    proof (cases "clamp_all (rp_epoch_budget (rs_params e)) raw_total [] 0 raw")
      case clamped: (Inr q)
      obtain payouts tot where q: "q = (payouts, tot)" by fastforce
      show thesis
        using assms Inr priced clamped unfolding rt q
        by (intro that [of raw raw_total]) (auto simp: settle_batch_def Let_def word_gt_0 split: if_splits outcome.splits)
    qed (use assms Inr priced rt in \<open>simp add: settle_batch_def\<close>)
  qed (use assms Inr in \<open>simp add: settle_batch_def\<close>)
qed (use assms in \<open>simp add: settle_batch_def\<close>)

lemma settle_batch_Inl:
  assumes "settle_batch epoch rs c now e r = (Inl err, e', r')"
  shows "e' = e \<and> supply_of r' = supply_of r"
  using assms by (auto simp: settle_batch_def Let_def dest: mint_with_coverage_Err split: sum.splits if_splits outcome.splits)

lemma reachable_balanced:
  "run_issuer ops (issuer_with_sla w) = Some r \<Longrightarrow> length ops < 2 ^ 64 \<Longrightarrow> supply_balanced (supply_of r a i)"
  using run_issuer_ok [OF issuer_with_sla_ok, of ops w] by (auto simp: issuer_ok_def)

section \<open>Property\<close>

text \<open>C14. Rewards are backed.  Take the issuer registry after any history of calls.  A successful settlement pays
  distinct providers of the batch, none with less than 95\% uptime and none more than the price of its receipt; what it
  reports as minted is exactly the sum of the payouts and within the epoch budget; the outstanding supply of
  the reward asset grows by exactly that, no other supply changes, and the coverage rule holds at the supply
  it leaves; and the epoch is above the last settled one and becomes it, so no epoch is paid twice.  A failed
  settlement mints nothing and leaves the watermark, so the epoch can be settled later.\<close>

theorem reward_settlement_backed:
  assumes "run_issuer ops (issuer_with_sla w) = Some issuers" "length ops < 2 ^ 64"
  shows "case settle_epoch epoch receipts coverage now_round e issuers of
      (Inl err, e', r') \<Rightarrow> e' = e \<and> supply_of r' = supply_of issuers
    | (Inr st, e', r') \<Rightarrow>
        es_epoch st = epoch \<and> e' = e\<lparr>rs_last_settled_epoch := Some epoch\<rparr> \<and>
        (\<forall>l. rs_last_settled_epoch e = Some l \<longrightarrow> l < epoch) \<and>
        distinct (map cr_recipient receipts) \<and>
        (\<forall>(a, y) \<in> set (es_payouts st). \<exists>r \<in> set receipts. cr_recipient r = a \<and> cr_epoch r = epoch \<and>
           0 < unat (cr_uptime_total_samples r) \<and> unat (cr_uptime_total_samples r) * 9500 \<le> unat (cr_uptime_ok_samples r) * 10000 \<and>
           (\<exists>x. price_receipt (rs_params e) r = Inr x \<and> y \<le> x)) \<and>
        unat (es_total_minted st) = sum_list (map (\<lambda>p. unat (snd p)) (es_payouts st)) \<and>
        unat (es_total_minted st) \<le> unat (rp_epoch_budget (rs_params e)) \<and>
        unat (outstanding (supply_of r' (rs_asset e) (rs_issuer e)))
          = unat (outstanding (supply_of issuers (rs_asset e) (rs_issuer e))) + unat (es_total_minted st) \<and>
        (\<forall>a i. (a, i) \<noteq> (rs_asset e, rs_issuer e) \<longrightarrow> supply_of r' a i = supply_of issuers a i) \<and>
        (es_total_minted st = 0 \<or>
         can_mint coverage (rs_issuer e) (rs_asset e) (outstanding (supply_of r' (rs_asset e) (rs_issuer e))) now_round = Inr ())"
proof -
  obtain res e' r' where run: "settle_epoch epoch receipts coverage now_round e issuers = (res, e', r')"
    by (rule prod_cases3)
  have bal: "supply_balanced (supply_of issuers a i)" for a i
    using reachable_balanced [OF assms] .
  show ?thesis
  proof (cases res)
    case (Inl err)
    then have "e' = e \<and> supply_of r' = supply_of issuers"
      using run settle_batch_Inl [of epoch receipts coverage now_round e issuers err e' r']
      by (auto simp: settle_epoch_def split: option.splits if_splits)
    with run Inl show ?thesis
      by simp
  next
    case (Inr st)
    have batch: "settle_batch epoch receipts coverage now_round e issuers = (Inr st, e', r')"
      and last: "\<forall>l. rs_last_settled_epoch e = Some l \<longrightarrow> l < epoch"
      using settle_epoch_batch run Inr by blast+
    obtain raw raw_total where checked: "check_receipts epoch {} receipts = Inr ()"
      and priced: "price_all (rs_params e) [] 0 receipts = Inr (raw, raw_total)"
      and clamped: "clamp_all (rp_epoch_budget (rs_params e)) raw_total [] 0 raw = Inr (es_payouts st, es_total_minted st)"
      and rest: "es_epoch st = epoch" "e' = e\<lparr>rs_last_settled_epoch := Some epoch\<rparr>"
        "if es_total_minted st = 0 then r' = issuers
         else mint_with_coverage coverage (rs_issuer e) (rs_asset e) (es_total_minted st) now_round issuers = Ok r'"
      using batch by (rule settle_batch_Inr)
    note pay = batch_payouts [OF checked priced clamped]
    have "unat (outstanding (supply_of r' (rs_asset e) (rs_issuer e)))
          = unat (outstanding (supply_of issuers (rs_asset e) (rs_issuer e))) + unat (es_total_minted st) \<and>
        (\<forall>a i. (a, i) \<noteq> (rs_asset e, rs_issuer e) \<longrightarrow> supply_of r' a i = supply_of issuers a i) \<and>
        (es_total_minted st = 0 \<or>
         can_mint coverage (rs_issuer e) (rs_asset e) (outstanding (supply_of r' (rs_asset e) (rs_issuer e))) now_round = Inr ())"
    proof (cases "es_total_minted st = 0")
      case False
      with rest(3) have "mint_with_coverage coverage (rs_issuer e) (rs_asset e) (es_total_minted st) now_round issuers = Ok r'"
        by simp
      from mint_with_coverage_Ok [OF this bal] show ?thesis
        using issuer_mint_effect [OF _ bal] by blast
    qed (use rest(3) in simp)
    moreover have "distinct (map cr_recipient receipts)"
      using check_receipts_spec [OF checked] by blast
    ultimately show ?thesis
      using run Inr rest(1,2) last pay by auto
  qed
qed

definition demo_receipt :: ComputeReceipt where
  "demo_receipt = \<lparr>cr_recipient = 9, cr_epoch = 1, cr_certificates_signed = 2, cr_uptime_ok_samples = 99,
     cr_uptime_total_samples = 100, cr_attestations_signed = 0, cr_da_bytes_served = 0\<rparr>"

definition demo_engine :: RewardSettlement where
  "demo_engine = reward_settlement_new
     \<lparr>rp_per_certificate = 5, rp_per_attestation = 0, rp_per_gib_served = 0, rp_epoch_budget = 100\<rparr> 7 1"

definition demo_attestation :: ReserveAttestation where
  "demo_attestation = \<lparr>ra_issuer = 7, ra_asset = 1, ra_total_reserves = 80, ra_outstanding_at_attestation = 50,
     ra_attested_at = 4, ra_schema_version = 1, ra_tier = F1Aggregate, ra_commitment = 0, ra_proof = []\<rparr>"

definition demo_coverage :: ReserveCoverageChecker where
  "demo_coverage = out_state (submit_attestation demo_attestation (set_rule 7 1 OneToOnePar coverage_new))"

definition demo_minted :: IssuerRegistry where
  "demo_minted = \<lparr>ir_issuers = bt_insert 7 demo_issuer bt_empty,
     ir_supply = bt_insert (1, 7) \<lparr>sup_total_minted = 50, sup_total_burned = 0, sup_reserved_for_burn = 0\<rparr> bt_empty,
     ir_pending = bt_empty, ir_next_burn_id = 0, ir_sla_window_rounds = 5\<rparr>"

lemma demo_minted_run: "run_issuer [RegisterIssuer demo_issuer, MintAsset 7 1 50] (issuer_with_sla 5) = Some demo_minted"
  by (simp add: issuer_with_sla_def issuer_register_def issuer_mint_def demo_issuer_def demo_minted_def
      supply_of_def supply_default_def checked_add_def bt_contains_get bt.insert_insert)

lemma demo_price: "price_receipt (rs_params demo_engine) demo_receipt = Inr 10"
  by (simp add: price_receipt_def demo_engine_def reward_settlement_new_def demo_receipt_def checked_mul_def checked_add_def
      uptime_multiplier_bps_def UPTIME_FULL_RATE_BPS_def UPTIME_HALF_RATE_BPS_def GIB_def Let_def)

lemma demo_mint_covered:
  "mint_with_coverage demo_coverage 7 1 10 5 demo_minted =
     Ok (demo_minted\<lparr>ir_supply := bt_insert (1, 7) \<lparr>sup_total_minted = 60, sup_total_burned = 0, sup_reserved_for_burn = 0\<rparr> bt_empty\<rparr>)"
  by (simp add: mint_with_coverage_def can_mint_def demo_coverage_def submit_attestation_def set_rule_def coverage_new_def
      coverage_with_ttl_def demo_attestation_def predicate_satisfied_def DEFAULT_ATTESTATION_TTL_ROUNDS_def saturating_sub_def
      issuer_mint_def demo_minted_def demo_issuer_def supply_of_def outstanding_def checked_add_def bt.insert_insert
      bt_insert.rep_eq)

lemma demo_settle:
  "\<exists>e' r'. settle_epoch 1 [demo_receipt] demo_coverage 5 demo_engine demo_minted =
     (Inr \<lparr>es_epoch = 1, es_payouts = [(9, 10)], es_total_minted = 10\<rparr>, e', r')"
proof -
  have e: "rs_last_settled_epoch demo_engine = None" "rs_issuer demo_engine = 7" "rs_asset demo_engine = 1"
    "rp_epoch_budget (rs_params demo_engine) = 100" "cr_epoch demo_receipt = 1" "cr_recipient demo_receipt = 9"
    by (simp_all add: demo_engine_def reward_settlement_new_def demo_receipt_def)
  show ?thesis
    by (simp add: settle_epoch_def settle_batch_def e demo_price demo_mint_covered checked_add_def Let_def)
qed

theorem reward_settlement_backed_witness:
  "\<exists>e' r'. settle_epoch 1 [demo_receipt] demo_coverage 5 demo_engine demo_minted =
     (Inr \<lparr>es_epoch = 1, es_payouts = [(9, 10)], es_total_minted = 10\<rparr>, e', r') \<and>
     unat (outstanding (supply_of r' 1 7)) = unat (outstanding (supply_of demo_minted 1 7)) + 10"
proof -
  obtain e' r' where run: "settle_epoch 1 [demo_receipt] demo_coverage 5 demo_engine demo_minted =
     (Inr \<lparr>es_epoch = 1, es_payouts = [(9, 10)], es_total_minted = 10\<rparr>, e', r')"
    using demo_settle by blast
  have "rs_issuer demo_engine = 7" "rs_asset demo_engine = 1"
    by (simp_all add: demo_engine_def reward_settlement_new_def)
  with run show ?thesis
    using reward_settlement_backed [OF demo_minted_run, where epoch = 1 and receipts = "[demo_receipt]" and coverage = demo_coverage and now_round = 5 and e = demo_engine] by simp
qed

end
