(* ===== verification/Self_Delimiting.thy ===== *)
theory Self_Delimiting
  imports Prelude
begin

text \<open>
  Encodings that mark their own end.  The canonical hashes and blobs of the sources write fixed-width fields,
  byte strings after a 32-bit length, and lists after a 32-bit count.  The locale states what makes such a
  concatenation unambiguous, and shows that a counted list of items has it when its items have it.
\<close>

definition counted :: "('a \<Rightarrow> bytes) \<Rightarrow> 'a list \<Rightarrow> bytes" where
  "counted e xs = be_bytes 4 (len_u32 xs) @ concat (map e xs)"

definition sized :: "bytes \<Rightarrow> bytes" where
  "sized bs = be_bytes 4 (len_u32 bs) @ bs"

locale self_delimiting =
  fixes e :: "'a \<Rightarrow> bytes" and A :: "'a \<Rightarrow> bool"
  assumes delim: "A x \<Longrightarrow> A y \<Longrightarrow> e x @ u = e y @ v \<Longrightarrow> x = y \<and> u = v"
begin

lemma delim_list:
  "length xs = length ys \<Longrightarrow> list_all A xs \<Longrightarrow> list_all A ys \<Longrightarrow> concat (map e xs) @ u = concat (map e ys) @ v \<Longrightarrow>
     xs = ys \<and> u = v"
proof (induction xs ys rule: list_induct2)
  case (Cons x xs y ys)
  with delim [of x y "concat (map e xs) @ u" "concat (map e ys) @ v"] show ?case
    by auto
qed simp

lemma delim_counted:
  assumes "list_all A xs" "list_all A ys" "length xs < 2 ^ 32" "length ys < 2 ^ 32" "counted e xs @ u = counted e ys @ v"
  shows "xs = ys \<and> u = v"
proof -
  have "len_u32 xs = len_u32 ys" and rest: "concat (map e xs) @ u = concat (map e ys) @ v"
    using assms(5) by (auto simp: counted_def append_eq_append_conv be_bytes_inject)
  then have "length xs = length ys"
    using len_u32_unat [OF assms(3)] len_u32_unat [OF assms(4)] by simp
  from delim_list [OF this assms(1,2) rest] show ?thesis .
qed

end

interpretation sized_bytes: self_delimiting sized "\<lambda>bs. length bs < 2 ^ 32"
proof
  fix x y u v :: bytes
  assume "length x < 2 ^ 32" "length y < 2 ^ 32" and eq: "sized x @ u = sized y @ v"
  moreover have "len_u32 x = len_u32 y" and "x @ u = y @ v"
    using eq by (auto simp: sized_def append_eq_append_conv be_bytes_inject)
  moreover from calculation have "length x = length y"
    using len_u32_unat [of x] len_u32_unat [of y] by simp
  ultimately show "x = y \<and> u = v"
    by (simp add: append_eq_append_conv)
qed

interpretation word32: self_delimiting "be_bytes 4 :: u32 \<Rightarrow> bytes" "\<lambda>_. True"
  by unfold_locales (auto simp: append_eq_append_conv be_bytes_inject)

lemma string_bytes_inject: "string_bytes s = string_bytes t \<longleftrightarrow> s = t"
proof
  have "inj (\<lambda>c. word_of_nat (of_char c) :: u8)"
  proof (rule injI)
    fix c d :: char
    assume "(word_of_nat (of_char c) :: u8) = word_of_nat (of_char d)"
    then have "unat (word_of_nat (of_char c) :: u8) = unat (word_of_nat (of_char d) :: u8)"
      by simp
    moreover have "unat (word_of_nat (of_char c) :: u8) = of_char c" for c
      by (simp add: unat_of_nat take_bit_nat_eq_self)
    ultimately show "c = d"
      by simp
  qed
  then show "string_bytes s = string_bytes t \<Longrightarrow> s = t"
    by (simp add: string_bytes_def inj_map_eq_map)
qed simp

end
