(* ===== verification/Did_Resolver.thy ===== *)
theory Did_Resolver
  imports State_Commitment Crypto Self_Delimiting
begin

text \<open>
  Decentralized identifiers, \<open>suwappu-precompiles/src/did.rs\<close> and \<open>did_resolver.rs\<close>: documents, their validation and
  canonical hash, and the resolver with its singleton \<open>create\<close> and its signed \<open>update\<close>.  A \<open>BTreeSet\<close> is an ordered
  map to \<open>unit\<close> and a \<open>String\<close> is the list of its bytes.
\<close>

section \<open>Documents\<close>

type_synonym Did = hash32
type_synonym VerificationMethodId = u32

datatype VerificationRelationship =
  Authentication | AssertionMethod | KeyAgreement | CapabilityInvocation | CapabilityDelegation

text \<open>The byte a relationship hashes to; the derived \<open>Ord\<close> is the same order.\<close>

fun relationship_byte :: "VerificationRelationship \<Rightarrow> u8" where
  "relationship_byte Authentication = 1"
| "relationship_byte AssertionMethod = 2"
| "relationship_byte KeyAgreement = 3"
| "relationship_byte CapabilityInvocation = 4"
| "relationship_byte CapabilityDelegation = 5"

lemma relationship_byte_inject [simp]: "relationship_byte a = relationship_byte b \<longleftrightarrow> a = b"
  by (cases a; cases b) simp_all

instantiation VerificationRelationship :: linorder
begin

definition less_eq_VerificationRelationship :: "VerificationRelationship \<Rightarrow> VerificationRelationship \<Rightarrow> bool" where
  "less_eq_VerificationRelationship a b \<longleftrightarrow> relationship_byte a \<le> relationship_byte b"

definition less_VerificationRelationship :: "VerificationRelationship \<Rightarrow> VerificationRelationship \<Rightarrow> bool" where
  "less_VerificationRelationship a b \<longleftrightarrow> relationship_byte a < relationship_byte b"

instance
  by standard (auto simp: less_eq_VerificationRelationship_def less_VerificationRelationship_def
      simp flip: relationship_byte_inject)

end

datatype KeyAlgorithm = MlDsa65

record VerificationMethod =
  vm_id :: VerificationMethodId
  vm_controller :: Did
  vm_algorithm :: KeyAlgorithm
  vm_public_key :: bytes

record Service =
  sv_id :: u32
  sv_service_type :: string
  sv_endpoint :: string

type_synonym id_set = "(VerificationMethodId, unit) btmap"

record DidDocument =
  dd_id :: Did
  dd_verification_methods :: "VerificationMethod list"
  dd_relationships :: "(VerificationRelationship, id_set) btmap"
  dd_services :: "Service list"

definition did_document_empty :: "Did \<Rightarrow> DidDocument" where
  "did_document_empty i =
     \<lparr>dd_id = i, dd_verification_methods = [], dd_relationships = bt_empty, dd_services = []\<rparr>"

datatype DidError =
    NullDid
  | DuplicateMethodId VerificationMethodId
  | CrossDidController VerificationMethodId Did
  | DanglingRelationship VerificationRelationship VerificationMethodId
  | DuplicateServiceId u32
  | DidAlreadyRegistered
  | DidNotRegistered
  | UnauthorizedUpdate
  | UnknownMethod VerificationMethodId

subsection \<open>The canonical hash\<close>

definition method_enc :: "VerificationMethod \<Rightarrow> bytes" where
  "method_enc m = be_bytes 4 (vm_id m) @ be_bytes 32 (vm_controller m) @ [case vm_algorithm m of MlDsa65 \<Rightarrow> 1] @
     sized (vm_public_key m)"

definition relationship_enc :: "VerificationRelationship \<times> id_set \<Rightarrow> bytes" where
  "relationship_enc = (\<lambda>(rel, ids). [relationship_byte rel] @ counted (be_bytes 4) (bt_keys ids))"

definition service_enc :: "Service \<Rightarrow> bytes" where
  "service_enc s = be_bytes 4 (sv_id s) @ sized (string_bytes (sv_service_type s)) @ sized (string_bytes (sv_endpoint s))"

definition did_preimage :: "DidDocument \<Rightarrow> bytes" where
  "did_preimage d = string_bytes ''SUWAPPU-DID-DOC-V1'' @ be_bytes 32 (dd_id d) @
     counted method_enc (dd_verification_methods d) @ counted relationship_enc (bt_entries (dd_relationships d)) @
     counted service_enc (dd_services d)"

definition canonical_hash :: "hasher \<Rightarrow> DidDocument \<Rightarrow> hash32" where
  "canonical_hash H d = H (did_preimage d)"

subsection \<open>Validation\<close>

fun check_methods :: "Did \<Rightarrow> VerificationMethodId set \<Rightarrow> VerificationMethod list \<Rightarrow> DidError + VerificationMethodId set" where
  "check_methods i seen [] = Inr seen"
| "check_methods i seen (m # ms) =
     (if vm_id m \<in> seen then Inl (DuplicateMethodId (vm_id m))
      else if vm_controller m \<noteq> i then Inl (CrossDidController (vm_id m) (vm_controller m))
      else check_methods i (insert (vm_id m) seen) ms)"

fun check_ids :: "VerificationRelationship \<Rightarrow> VerificationMethodId set \<Rightarrow> VerificationMethodId list \<Rightarrow> DidError + unit" where
  "check_ids rel seen [] = Inr ()"
| "check_ids rel seen (i # is) = (if i \<notin> seen then Inl (DanglingRelationship rel i) else check_ids rel seen is)"

fun check_relationships :: "VerificationMethodId set \<Rightarrow> (VerificationRelationship \<times> id_set) list \<Rightarrow> DidError + unit" where
  "check_relationships seen [] = Inr ()"
| "check_relationships seen ((rel, ids) # es) =
     res_bind (check_ids rel seen (bt_keys ids)) (\<lambda>_. check_relationships seen es)"

fun check_services :: "u32 set \<Rightarrow> Service list \<Rightarrow> DidError + unit" where
  "check_services seen [] = Inr ()"
| "check_services seen (s # ss) =
     (if sv_id s \<in> seen then Inl (DuplicateServiceId (sv_id s)) else check_services (insert (sv_id s) seen) ss)"

definition did_validate :: "DidDocument \<Rightarrow> DidError + unit" where
  "did_validate d =
     (if dd_id d = 0 then Inl NullDid
      else res_bind (check_methods (dd_id d) {} (dd_verification_methods d)) (\<lambda>seen.
           res_bind (check_relationships seen (bt_entries (dd_relationships d))) (\<lambda>_.
             check_services {} (dd_services d))))"

definition method_public_key :: "DidDocument \<Rightarrow> VerificationMethodId \<Rightarrow> bytes option" where
  "method_public_key d m = map_option vm_public_key (find (\<lambda>v. vm_id v = m) (dd_verification_methods d))"

definition has_relationship :: "DidDocument \<Rightarrow> VerificationMethodId \<Rightarrow> VerificationRelationship \<Rightarrow> bool" where
  "has_relationship d m rel = (case bt_get (dd_relationships d) rel of None \<Rightarrow> False | Some ids \<Rightarrow> bt_contains ids m)"

section \<open>The resolver\<close>

type_synonym InMemoryDidResolver = "(Did, DidDocument) btmap"

definition did_resolver_new :: InMemoryDidResolver where
  "did_resolver_new = bt_empty"

definition did_resolver_len :: "InMemoryDidResolver \<Rightarrow> nat" where
  "did_resolver_len r = bt_len r"

definition resolve :: "InMemoryDidResolver \<Rightarrow> Did \<Rightarrow> DidDocument option" where
  "resolve r i = bt_get r i"

definition did_create :: "DidDocument \<Rightarrow> InMemoryDidResolver \<Rightarrow> (DidError, InMemoryDidResolver) outcome" where
  "did_create d r =
     try_value (did_validate d) r (\<lambda>_.
       if bt_contains r (dd_id d) then Err DidAlreadyRegistered r else Ok (bt_insert (dd_id d) d r))"

definition did_update ::
  "hasher \<Rightarrow> mldsa65 \<Rightarrow> DidDocument \<Rightarrow> bytes \<Rightarrow> VerificationMethodId \<Rightarrow> InMemoryDidResolver \<Rightarrow> (DidError, InMemoryDidResolver) outcome" where
  "did_update H M new_doc signature signing_method_id r =
     try_value (did_validate new_doc) r (\<lambda>_.
     try_value (ok_or DidNotRegistered (bt_get r (dd_id new_doc))) r (\<lambda>prior.
     try_value (ok_or (UnknownMethod signing_method_id) (method_public_key prior signing_method_id)) r (\<lambda>key.
     if \<not> has_relationship prior signing_method_id CapabilityInvocation then Err UnauthorizedUpdate r
     else case pk_from_bytes M key of Inl _ \<Rightarrow> Err UnauthorizedUpdate r | Inr pk \<Rightarrow>
       (case sig_from_bytes M signature of Inl _ \<Rightarrow> Err UnauthorizedUpdate r | Inr sg \<Rightarrow>
         (case mldsa_verify M (be_bytes 32 (canonical_hash H new_doc)) sg pk of
            Inl _ \<Rightarrow> Err UnauthorizedUpdate r
          | Inr _ \<Rightarrow> Ok (bt_insert (dd_id new_doc) new_doc r))))))"

text \<open>A history of calls.\<close>

datatype did_op = DidCreate DidDocument | DidUpdate DidDocument bytes VerificationMethodId

fun did_step :: "hasher \<Rightarrow> mldsa65 \<Rightarrow> did_op \<Rightarrow> InMemoryDidResolver \<Rightarrow> InMemoryDidResolver" where
  "did_step H M (DidCreate d) r = out_state (did_create d r)"
| "did_step H M (DidUpdate d sg m) r = out_state (did_update H M d sg m r)"

definition run_did :: "hasher \<Rightarrow> mldsa65 \<Rightarrow> did_op list \<Rightarrow> InMemoryDidResolver" where
  "run_did H M ops = fold (did_step H M) ops did_resolver_new"

text \<open>Documents whose counts and lengths fit their 32-bit prefixes.\<close>

definition did_fits :: "DidDocument \<Rightarrow> bool" where
  "did_fits d \<longleftrightarrow>
     length (dd_verification_methods d) < 2 ^ 32 \<and> length (dd_services d) < 2 ^ 32 \<and>
     list_all (\<lambda>m. length (vm_public_key m) < 2 ^ 32) (dd_verification_methods d) \<and>
     list_all (\<lambda>(rel, ids). length (bt_keys ids) < 2 ^ 32) (bt_entries (dd_relationships d)) \<and>
     list_all (\<lambda>s. length (sv_service_type s) < 2 ^ 32 \<and> length (sv_endpoint s) < 2 ^ 32) (dd_services d)"

section \<open>The preimage determines the document\<close>

interpretation methods: self_delimiting method_enc "\<lambda>m. length (vm_public_key m) < 2 ^ 32"
proof
  fix x y :: VerificationMethod and u v
  assume fits: "length (vm_public_key x) < 2 ^ 32" "length (vm_public_key y) < 2 ^ 32"
    and eq: "method_enc x @ u = method_enc y @ v"
  have "vm_id x = vm_id y" "vm_controller x = vm_controller y"
    and "sized (vm_public_key x) @ u = sized (vm_public_key y) @ v"
    using eq by (auto simp: method_enc_def append_eq_append_conv be_bytes_inject)
  moreover have "vm_algorithm x = vm_algorithm y"
    by (cases "vm_algorithm x"; cases "vm_algorithm y") simp
  ultimately show "x = y \<and> u = v"
    using sized_bytes.delim [OF fits] by simp
qed

lemma set_entries: "bt_entries s = map (\<lambda>k. (k, ())) (bt_keys s)"
  unfolding bt_keys_def by (simp add: comp_def) (rule map_idI [symmetric], auto)

interpretation relationships: self_delimiting relationship_enc "\<lambda>(rel, ids). length (bt_keys ids) < 2 ^ 32"
proof
  fix x y :: "VerificationRelationship \<times> id_set" and u v
  assume fits: "case x of (rel, ids) \<Rightarrow> length (bt_keys ids) < 2 ^ 32" "case y of (rel, ids) \<Rightarrow> length (bt_keys ids) < 2 ^ 32"
    and eq: "relationship_enc x @ u = relationship_enc y @ v"
  obtain a s b t where x: "x = (a, s)" and y: "y = (b, t)"
    by fastforce
  have rel: "a = b" and ids: "counted (be_bytes 4) (bt_keys s) @ u = counted (be_bytes 4) (bt_keys t) @ v"
    using eq by (simp_all add: x y relationship_enc_def)
  have "bt_keys s = bt_keys t \<and> u = v"
    using fits ids by (intro word32.delim_counted) (simp_all add: x y list_all_iff)
  moreover from this have "s = t"
    by (simp add: set_entries flip: bt_entries_inject)
  ultimately show "x = y \<and> u = v"
    using rel by (simp add: x y)
qed

interpretation services: self_delimiting service_enc
  "\<lambda>s. length (sv_service_type s) < 2 ^ 32 \<and> length (sv_endpoint s) < 2 ^ 32"
proof
  fix x y :: Service and u v
  assume fits: "length (sv_service_type x) < 2 ^ 32 \<and> length (sv_endpoint x) < 2 ^ 32"
      "length (sv_service_type y) < 2 ^ 32 \<and> length (sv_endpoint y) < 2 ^ 32"
    and eq: "service_enc x @ u = service_enc y @ v"
  have len: "length (string_bytes s) = length s" for s
    by (simp add: string_bytes_def)
  have "sv_id x = sv_id y"
    and rest: "sized (string_bytes (sv_service_type x)) @ (sized (string_bytes (sv_endpoint x)) @ u) =
      sized (string_bytes (sv_service_type y)) @ (sized (string_bytes (sv_endpoint y)) @ v)"
    using eq by (auto simp: service_enc_def append_eq_append_conv be_bytes_inject)
  moreover have "sv_service_type x = sv_service_type y"
    and "sized (string_bytes (sv_endpoint x)) @ u = sized (string_bytes (sv_endpoint y)) @ v"
    using sized_bytes.delim [OF _ _ rest] fits by (simp_all add: len string_bytes_inject)
  moreover from this(2) have "sv_endpoint x = sv_endpoint y \<and> u = v"
    using sized_bytes.delim fits by (metis len string_bytes_inject)
  ultimately show "x = y \<and> u = v"
    by simp
qed

lemma relationships_count: "length (bt_entries (m :: (VerificationRelationship, 'v) btmap)) < 2 ^ 32"
proof -
  let ?all = "{Authentication, AssertionMethod, KeyAgreement, CapabilityInvocation, CapabilityDelegation}"
  have all: "UNIV = ?all"
    by (auto intro: VerificationRelationship.exhaust)
  have "card ?all = 5" "finite ?all"
    by simp_all
  then have "card (UNIV :: VerificationRelationship set) = 5" and fin: "finite (UNIV :: VerificationRelationship set)"
    unfolding all by simp_all
  moreover have "length (bt_keys m) \<le> card (UNIV :: VerificationRelationship set)"
    using card_mono [OF fin subset_UNIV] distinct_card [OF bt_keys_distinct [of m]] by metis
  ultimately show ?thesis
    by (simp add: bt_keys_def)
qed

lemma did_preimage_inject:
  assumes "did_preimage d = did_preimage d'" "did_fits d" "did_fits d'"
  shows "d = d'"
proof -
  have "dd_id d = dd_id d'"
    and ms: "counted method_enc (dd_verification_methods d) @
        (counted relationship_enc (bt_entries (dd_relationships d)) @ counted service_enc (dd_services d)) =
      counted method_enc (dd_verification_methods d') @
        (counted relationship_enc (bt_entries (dd_relationships d')) @ counted service_enc (dd_services d'))"
    using assms(1) by (auto simp: did_preimage_def append_eq_append_conv be_bytes_inject)
  moreover note methods.delim_counted [OF _ _ _ _ ms]
  then have "dd_verification_methods d = dd_verification_methods d'"
    and rs: "counted relationship_enc (bt_entries (dd_relationships d)) @ (counted service_enc (dd_services d) @ []) =
      counted relationship_enc (bt_entries (dd_relationships d')) @ (counted service_enc (dd_services d') @ [])"
    using assms(2,3) by (simp_all add: did_fits_def)
  moreover have "bt_entries (dd_relationships d) = bt_entries (dd_relationships d')"
    and ss: "counted service_enc (dd_services d) @ [] = counted service_enc (dd_services d') @ []"
    using relationships.delim_counted [OF _ _ relationships_count relationships_count rs] assms(2,3)
    by (simp_all add: did_fits_def)
  moreover from services.delim_counted [OF _ _ _ _ ss] have "dd_services d = dd_services d'"
    using assms(2,3) by (simp add: did_fits_def)
  ultimately show ?thesis
    by (simp add: bt_entries_inject)
qed

section \<open>Authorisation\<close>

text \<open>What lets \<open>d\<close> replace \<open>prior\<close>: a signature of its hash under a capability-invocation key of \<open>prior\<close>.\<close>

definition authorises :: "hasher \<Rightarrow> mldsa65 \<Rightarrow> DidDocument \<Rightarrow> DidDocument \<Rightarrow> bytes \<Rightarrow> VerificationMethodId \<Rightarrow> bool" where
  "authorises H M prior d sg m \<longleftrightarrow>
     has_relationship prior m CapabilityInvocation \<and>
     (\<exists>pk. method_public_key prior m = Some pk \<and> raw_pk_ok M pk \<and> raw_sig_ok M sg \<and>
        raw_verify_detached M sg (be_bytes 32 (canonical_hash H d)) pk)"

lemma did_update_cases:
  "did_update H M d sg m r =
     (case did_validate d of Inl e \<Rightarrow> Err e r | Inr _ \<Rightarrow>
       (case bt_get r (dd_id d) of
          None \<Rightarrow> Err DidNotRegistered r
        | Some prior \<Rightarrow>
            if method_public_key prior m = None then Err (UnknownMethod m) r
            else if authorises H M prior d sg m then Ok (bt_insert (dd_id d) d r) else Err UnauthorizedUpdate r))"
proof (cases "did_validate d")
  case (Inr u)
  show ?thesis
  proof (cases "bt_get r (dd_id d)")
    case (Some prior)
    with Inr show ?thesis
      by (cases "method_public_key prior m")
        (simp_all add: did_update_def authorises_def pk_from_bytes_def sig_from_bytes_def mldsa_verify_def)
  qed (use Inr in \<open>simp add: did_update_def\<close>)
qed (simp add: did_update_def)

definition resolver_ok :: "InMemoryDidResolver \<Rightarrow> bool" where
  "resolver_ok r \<longleftrightarrow> (\<forall>i d. bt_get r i = Some d \<longrightarrow> dd_id d = i \<and> did_validate d = Inr ())"

lemma did_step_ok: "resolver_ok r \<Longrightarrow> resolver_ok (did_step H M op r)"
proof (cases op)
  case (DidCreate d)
  assume "resolver_ok r"
  with DidCreate show ?thesis
    by (cases "did_validate d") (auto simp: did_create_def resolver_ok_def)
next
  case (DidUpdate d sg m)
  assume "resolver_ok r"
  with DidUpdate show ?thesis
    by (cases "did_validate d") (auto simp: did_update_cases resolver_ok_def split: option.split)
qed

lemma run_did_ok: "resolver_ok (run_did H M ops)"
proof -
  have "resolver_ok (fold (did_step H M) ops r)" if "resolver_ok r" for r
    using that by (induction ops arbitrary: r) (simp_all add: did_step_ok)
  moreover have "resolver_ok did_resolver_new"
    by (simp add: did_resolver_new_def resolver_ok_def)
  ultimately show ?thesis
    unfolding run_did_def by blast
qed

text \<open>A signature made with a capability-invocation key of the prior document authorises.\<close>

lemma signed_authorises:
  assumes "mldsa_correct M pk sk" "method_public_key prior m = Some (pk_bytes pk)"
    and "has_relationship prior m CapabilityInvocation"
  shows "authorises H M prior d (raw_detached_sign M (be_bytes 32 (canonical_hash H d)) (sk_bytes sk)) m"
  using assms by (auto simp: authorises_def mldsa_correct_def Let_def)

section \<open>Property\<close>

text \<open>Control of an identifier.  After any history of calls every stored document is valid and filed under
  its own identifier.  A document is created only where there was none.  An update replaces exactly the document of its identifier,
  and it succeeds precisely when the new document is valid and the signature over its canonical hash verifies under a key that
  the document it replaces lists for capability invocation; the holder of such a key can therefore always update.  That
  signature authorises no other document, unless the two are an explicit collision of the hash.  A failed call changes nothing.\<close>

theorem did_control:
  assumes "r = run_did H M ops"
  shows "(\<forall>i d. resolve r i = Some d \<longrightarrow> dd_id d = i \<and> did_validate d = Inr ()) \<and>
    (\<forall>d t. did_create d r = Ok t \<longleftrightarrow> did_validate d = Inr () \<and> resolve r (dd_id d) = None \<and> t = bt_insert (dd_id d) d r) \<and>
    (\<forall>d sg m t. did_update H M d sg m r = Ok t \<longleftrightarrow>
       did_validate d = Inr () \<and> (\<exists>prior. resolve r (dd_id d) = Some prior \<and> authorises H M prior d sg m) \<and>
       t = bt_insert (dd_id d) d r) \<and>
    (\<forall>d prior m pk sk. did_validate d = Inr () \<and> resolve r (dd_id d) = Some prior \<and> mldsa_correct M pk sk \<and>
       method_public_key prior m = Some (pk_bytes pk) \<and> has_relationship prior m CapabilityInvocation \<longrightarrow>
       did_update H M d (raw_detached_sign M (be_bytes 32 (canonical_hash H d)) (sk_bytes sk)) m r = Ok (bt_insert (dd_id d) d r)) \<and>
    (\<forall>d d'. did_fits d \<and> did_fits d' \<and> canonical_hash H d = canonical_hash H d' \<longrightarrow>
       d = d' \<or> collides H (did_preimage d) (did_preimage d')) \<and>
    (\<forall>d sg m e t. did_create d r = Err e t \<or> did_update H M d sg m r = Err e t \<longrightarrow> t = r)"
proof (intro conjI allI impI)
  have ok: "resolver_ok r"
    unfolding assms by (rule run_did_ok)
  fix d :: DidDocument and sg m t
  show "did_create d r = Ok t \<longleftrightarrow> did_validate d = Inr () \<and> resolve r (dd_id d) = None \<and> t = bt_insert (dd_id d) d r"
    by (cases "did_validate d") (auto simp: did_create_def resolve_def bt_contains_get)
  show update: "did_update H M d sg m r = Ok t \<longleftrightarrow>
       did_validate d = Inr () \<and> (\<exists>prior. resolve r (dd_id d) = Some prior \<and> authorises H M prior d sg m) \<and>
       t = bt_insert (dd_id d) d r" for d sg m t
    by (cases "did_validate d") (auto simp: did_update_cases resolve_def authorises_def split: option.split)
  fix prior pk sk
  assume "did_validate d = Inr () \<and> resolve r (dd_id d) = Some prior \<and> mldsa_correct M pk sk \<and>
       method_public_key prior m = Some (pk_bytes pk) \<and> has_relationship prior m CapabilityInvocation"
  then show "did_update H M d (raw_detached_sign M (be_bytes 32 (canonical_hash H d)) (sk_bytes sk)) m r = Ok (bt_insert (dd_id d) d r)"
    using signed_authorises unfolding update by blast
next
  fix d d' :: DidDocument
  assume "did_fits d \<and> did_fits d' \<and> canonical_hash H d = canonical_hash H d'"
  then show "d = d' \<or> collides H (did_preimage d) (did_preimage d')"
    using did_preimage_inject by (auto simp: canonical_hash_def collides_def)
next
  fix d sg m e t
  assume "did_create d r = Err e t \<or> did_update H M d sg m r = Err e t"
  then show "t = r"
    by (cases "did_validate d") (auto simp: did_create_def did_update_cases split: option.splits if_splits)
qed (use run_did_ok [of H M ops] assms in \<open>auto simp: resolver_ok_def resolve_def\<close>)

end
