(* ===== verification/Spec2Isabelle.thy ===== *)
theory Spec2Isabelle
  imports Joint_Quorum Equivocation Bridge_Header Validator_Ring Fast_Path Validator_Node Mempool Db_Substrate
    Reward_Settlement Did_Resolver
begin

text \<open>
  A verification development for the Suwappu DAG Layer 1 node.  Paths are relative to \<open>src/crates\<close>.

  \<^bold>\<open>The program.\<close>  Authorities sign certificates that refer to earlier certificates; each node keeps them in a
  DAG store.  A commit rule decides, round by round, which leader certificate is committed, and a stake-weighted vote
  of validators gates it.  Committed payloads are blocks of intents; a substrate applies them to balances and to
  registries kept as byte strings under reserved addresses.  Every so often a checkpoint of the state root is
  signed and ratified by the authorities.  Beside this run a fast path for single-object transactions, a mempool
  that feeds blocks, and precompiles for issuers, reserves, rewards and identifiers.

  \<^bold>\<open>Conventions.\<close>  \<open>Prelude\<close>: fixed-size byte arrays and machine integers are words, so arithmetic wraps
  where the release build wraps; \<open>checked\<close> and \<open>saturating\<close> operations are those of the standard library.
  A fallible call on a state returns \<open>Ok s\<close> or \<open>Err e s\<close> with the state it leaves, so what an early return has already
  changed is part of the model; a panic is \<open>None\<close>.  \<open>Ordered_Map\<close>: \<open>BTreeMap\<close> as a type of strictly sorted
  entry lists; the locale \<open>ordered_map\<close> has its laws.  \<open>Self_Delimiting\<close>: encodings that mark their own end.

  \<^bold>\<open>Parameters.\<close>  BLAKE3 is an argument \<open>H\<close>; no injectivity is assumed of it.  Properties that need it state an
  explicit collision as the alternative, or assume that the derived protocol addresses differ (\<open>reserved_distinct\<close>).
  ML-DSA-65 is an argument \<open>M\<close> with \<open>mldsa_correct\<close> for a key pair; the suwappu-db store is the record \<open>suwappudb\<close> with
  \<open>suwappudb_ok\<close>; IEEE rounding is \<open>rnd\<close> with \<open>ieee_rounding\<close>; bincode and the SP1 verifier are arguments without laws.  Each
  hypothesis has an instance in the witnesses (\<open>demo_blake\<close>, \<open>demo_mldsa\<close>, \<open>demo_db\<close>).

  \<^bold>\<open>Consensus\<close> (\<open>suwappu-crypto\<close>, \<open>suwappu-consensus\<close>).
  \<^item> \<open>Crypto\<close>: the ML-DSA wrapper, \<open>mldsa.rs\<close>.
  \<^item> \<open>Dag_Store\<close>: \<open>cert.rs\<close>, \<open>dag.rs\<close>.  Insertion keeps the store well formed and reports the first failing check; the
    linear order is canonical and independent of the order of arrival.
  \<^item> \<open>Commit_Rule\<close>: \<open>commit.rs\<close>.  The breadth-first history is the reachable set in linear order; decisions agree
    across nodes and are final while leaders do not equivocate; \<open>finalize\<close> lists parents first.  A smaller second certificate of
    a leader undoes its commit, and the finalized order is not append-only.
  \<^item> \<open>Joint_Quorum\<close>: \<open>joint.rs\<close>.  Conflicting commits expose a third of the stake and more than \<open>f\<close> authorities.
  \<^item> \<open>Equivocation\<close>, \<open>Bridge_Header\<close>: \<open>equivocation.rs\<close>, \<open>bridge_header.rs\<close>.  Detection is sound and complete.

  \<^bold>\<open>Rings and fast path\<close> (\<open>suwappu-authority\<close>, \<open>suwappu-validator\<close>, \<open>suwappu-fastpath\<close>).
  \<^item> \<open>Ring_Contract\<close> is the locale \<open>staked_ring\<close> of a bounded seat map with a stake floor; \<open>Authority_Ring\<close> and
    \<open>Validator_Ring\<close> interpret it on the two registries and add slashing.
  \<^item> \<open>Fast_Path\<close>: certificates, the binding window, detection and slashing.

  \<^bold>\<open>Execution\<close> (\<open>suwappu-execution\<close>, \<open>suwappu-l2-verifier-precompile\<close>).
  \<^item> \<open>Exec_Error\<close>, \<open>Reserved\<close>: \<open>error.rs\<close>, \<open>reserved.rs\<close>.
  \<^item> \<open>Registry_Codec\<close> (locales \<open>entry_codec\<close> and \<open>map_store\<close>: what one entry must satisfy for the
    whole map to round-trip), interpreted by \<open>Slot_Registry\<close>, \<open>Offense_Registries\<close>, \<open>Asset_Registry\<close> and \<open>L2_State\<close> on
    the encoders of the registry files.
  \<^item> \<open>Substrate_State\<close>, \<open>Substrate\<close>: \<open>substrate.rs\<close>, one definition per arm of \<open>apply_intent\<close>.
  \<^item> \<open>Substrate_Ledger\<close>, \<open>Substrate_Rings\<close>, \<open>Substrate_Registries\<close>: what each intent may debit, write and mint, and each
    registry as a state machine (locales \<open>slot_store\<close>, \<open>registry_machine\<close>, \<open>map_machine\<close>).
  \<^item> \<open>Ledger_Safety\<close> (supply, atomicity of failures, burns, protocol accounts), \<open>Registry_Safety\<close> (registries stay
    readable, lifecycles and epochs move one way, each offence is settled once), \<open>Stake_Safety\<close> (the pools cover the
    recorded stake).
  \<^item> \<open>Block_Exec\<close>: \<open>block.rs\<close>, and that exited stake can be withdrawn.  \<open>State_Commitment\<close>: the state root
    commits to the state.  \<open>Checkpoint\<close>: \<open>checkpoint.rs\<close>.  \<open>Db_Substrate\<close>: \<open>suwappu_db_substrate.rs\<close> refines
    the in-memory substrate on transfers.

  \<^bold>\<open>Node, mempool, precompiles\<close>.
  \<^item> \<open>Validator_Node\<close>: \<open>suwappu-node/src/validator.rs\<close>.  The genesis flow commits and ratifies for every ring size; equal
    checkpoint hashes mean equal ledgers.
  \<^item> \<open>Leaky_Bucket\<close>, \<open>Mempool\<close>: \<open>suwappu-mempool\<close>.  Rate bounds, the queue invariant, priority order.
  \<^item> \<open>Issuer_Registry\<close>, \<open>Reward_Settlement\<close>, \<open>Did_Resolver\<close>: \<open>suwappu-precompiles\<close> (\<open>issuer.rs\<close>; \<open>reserve.rs\<close> and \<open>rewards.rs\<close>;
    \<open>did.rs\<close> and \<open>did_resolver.rs\<close>).  The supply book balances, rewards are backed, and a document changes only by
    a signature of a key it names.

  \<^bold>\<open>Bounds.\<close>  All definitions are total: loops recurse over their list, and the breadth-first search ends because every
  visit shrinks the set of certificates not yet seen; there is no fuel.  Bounds in hypotheses are those of the code's widths:
  fewer than \<open>2 ^ 32\<close> registry entries (the count prefix) or stored certificates (the support count), a supply below
  \<open>2 ^ 128\<close> (a balance), twice the stake below \<open>2 ^ 128\<close> (the product in the quorum), fewer than \<open>2 ^ 64\<close> calls of
  the issuer registry (the burn counter).  The solvency of the pools and the withdrawal of exited stake also exclude bridge
  locks that name a protocol account, which \<open>apply_intent\<close> lets through.

  \<^bold>\<open>Not modelled.\<close>  The daemon, wire protocol, transports, RPC server, faucet, indexer, validator program and
  clients are asynchronous I/O around these functions.  The L2 sequencer, bridge client, confidential notes and the
  ML-DSA precompile are off-chain or adapter libraries that the modelled crates do not call; LTP attestations are used by the daemon
  only.  Hashing, KEM, BLS, Groth16 and SP1 are third-party cryptography.  Key generation is random and an argument.
\<close>

end
